(* ===== verification/Prelude.thy ===== *)
theory Prelude
  imports Main "HOL-Library.Word" "HOL-Library.Sublist"
begin

text \<open>
  Shared vocabulary of the development: the machine integer types of the Rust sources, the
  parts of Rust's standard library the modelled code calls (ASCII case folding, string
  splitting and trimming, integer parsing, the byte order conversions), the result
  combinators that stand for \<^verbatim>\<open>?\<close> and \<^verbatim>\<open>collect::<Result<..>>\<close>, and the generic lemmas on
  lists, words and results that the component theories use.

  A Rust \<^verbatim>\<open>&str\<close> is a \<^typ>\<open>string\<close>, read as the list of its UTF-8 bytes; a \<^verbatim>\<open>Result<T, E>\<close> is
  a sum with the error on the left.
\<close>

unbundle bit_operations_syntax

named_theorems str_simps \<open>evaluation of the string operations of the standard library\<close>
named_theorems result_simps \<open>propagation of errors through results\<close>

section \<open>Machine integers\<close>

type_synonym u8 = "8 word"
type_synonym u16 = "16 word"
type_synonym u32 = "32 word"
type_synonym u64 = "64 word"
type_synonym u128 = "128 word"
type_synonym bytes = "u8 list"

section \<open>Results\<close>

type_synonym ('e, 'a) result = "'e + 'a"

definition bind_result :: "('e, 'a) result \<Rightarrow> ('a \<Rightarrow> ('e, 'b) result) \<Rightarrow> ('e, 'b) result" where
  "bind_result r f = (case r of Inl e \<Rightarrow> Inl e | Inr a \<Rightarrow> f a)"

definition map_result :: "('a \<Rightarrow> 'b) \<Rightarrow> ('e, 'a) result \<Rightarrow> ('e, 'b) result" where
  "map_result f r = bind_result r (\<lambda>a. Inr (f a))"

definition map_err :: "('e \<Rightarrow> 'f) \<Rightarrow> ('e, 'a) result \<Rightarrow> ('f, 'a) result" where
  "map_err f r = (case r of Inl e \<Rightarrow> Inl (f e) | Inr a \<Rightarrow> Inr a)"

definition ok_or :: "'e \<Rightarrow> 'a option \<Rightarrow> ('e, 'a) result" where
  "ok_or e x = (case x of None \<Rightarrow> Inl e | Some a \<Rightarrow> Inr a)"

fun collect_results :: "('a \<Rightarrow> ('e, 'b) result) \<Rightarrow> 'a list \<Rightarrow> ('e, 'b list) result" where
  "collect_results f [] = Inr []"
| "collect_results f (x # xs) =
     bind_result (f x) (\<lambda>y. bind_result (collect_results f xs) (\<lambda>ys. Inr (y # ys)))"

lemma bind_result_simps [simp, result_simps]:
  "bind_result (Inl e) f = Inl e"
  "bind_result (Inr a) f = f a"
  by (simp_all add: bind_result_def)

lemma bind_result_Inr [result_simps]:
  "bind_result r f = Inr b \<longleftrightarrow> (\<exists>a. r = Inr a \<and> f a = Inr b)"
  by (cases r) (auto simp: bind_result_def)

lemma bind_result_cong [fundef_cong]:
  "r = r' \<Longrightarrow> (\<And>a. r' = Inr a \<Longrightarrow> f a = g a) \<Longrightarrow> bind_result r f = bind_result r' g"
  by (cases r') simp_all

lemma bind_result_Inl:
  "bind_result r f = Inl e \<longleftrightarrow> r = Inl e \<or> (\<exists>a. r = Inr a \<and> f a = Inl e)"
  by (cases r) (auto simp: bind_result_def)

lemma map_result_simps [simp, result_simps]:
  "map_result f (Inl e) = Inl e"
  "map_result f (Inr a) = Inr (f a)"
  by (simp_all add: map_result_def)

lemma map_result_Inr [result_simps]: "map_result f r = Inr b \<longleftrightarrow> (\<exists>a. r = Inr a \<and> b = f a)"
  by (cases r) auto

lemma map_err_simps [simp, result_simps]:
  "map_err f (Inl e) = Inl (f e)"
  "map_err f (Inr a) = Inr a"
  by (simp_all add: map_err_def)

lemma map_err_Inr [result_simps]: "map_err f r = Inr b \<longleftrightarrow> r = Inr b"
  by (cases r) auto

lemma ok_or_simps [simp, result_simps]:
  "ok_or e None = Inl e"
  "ok_or e (Some a) = Inr a"
  by (simp_all add: ok_or_def)

lemma ok_or_Inr [result_simps]: "ok_or e x = Inr a \<longleftrightarrow> x = Some a"
  by (cases x) auto

lemma collect_results_Inr:
  "collect_results f xs = Inr ys \<longleftrightarrow> list_all2 (\<lambda>x y. f x = Inr y) xs ys"
proof (induction xs arbitrary: ys)
  case Nil
  then show ?case by auto
next
  case (Cons x xs)
  then show ?case by (cases ys) (auto simp: bind_result_Inr)
qed

lemma collect_results_map_Inr:
  "collect_results (\<lambda>x. Inr (f x)) xs = Inr (map f xs)"
  by (induction xs) auto

lemma collect_results_length: "collect_results f xs = Inr ys \<Longrightarrow> length ys = length xs"
  by (auto simp: collect_results_Inr dest: list_all2_lengthD)

section \<open>Strings\<close>

definition to_ascii_lowercase_char :: "char \<Rightarrow> char" where
  "to_ascii_lowercase_char c =
     (let n = (of_char c :: nat) in if 65 \<le> n \<and> n \<le> 90 then char_of (n + 32) else c)"

definition to_ascii_lowercase :: "string \<Rightarrow> string" where
  "to_ascii_lowercase s = map to_ascii_lowercase_char s"

definition is_ascii_uppercase :: "char \<Rightarrow> bool" where
  "is_ascii_uppercase c = (let n = (of_char c :: nat) in 65 \<le> n \<and> n \<le> 90)"

definition is_ascii_digit :: "char \<Rightarrow> bool" where
  "is_ascii_digit c = (let n = (of_char c :: nat) in 48 \<le> n \<and> n \<le> 57)"

definition eq_ignore_ascii_case :: "string \<Rightarrow> string \<Rightarrow> bool" where
  "eq_ignore_ascii_case a b \<longleftrightarrow> to_ascii_lowercase a = to_ascii_lowercase b"

definition trim_end_char :: "char \<Rightarrow> string \<Rightarrow> string" where
  "trim_end_char c s = rev (dropWhile (\<lambda>d. d = c) (rev s))"

definition trim_char :: "char \<Rightarrow> string \<Rightarrow> string" where
  "trim_char c s = trim_end_char c (dropWhile (\<lambda>d. d = c) s)"

fun strip_prefix :: "string \<Rightarrow> string \<Rightarrow> string option" where
  "strip_prefix [] s = Some s"
| "strip_prefix (p # ps) [] = None"
| "strip_prefix (p # ps) (c # cs) = (if p = c then strip_prefix ps cs else None)"

definition ends_with :: "string \<Rightarrow> string \<Rightarrow> bool" where
  "ends_with s t \<longleftrightarrow> length t \<le> length s \<and> drop (length s - length t) s = t"

fun str_contains :: "string \<Rightarrow> string \<Rightarrow> bool" where
  "str_contains [] pat = (pat = [])"
| "str_contains (c # cs) pat = (take (length pat) (c # cs) = pat \<or> str_contains cs pat)"

fun split_once :: "char \<Rightarrow> string \<Rightarrow> (string \<times> string) option" where
  "split_once d [] = None"
| "split_once d (c # cs) =
     (if c = d then Some ([], cs) else map_option (\<lambda>(a, b). (c # a, b)) (split_once d cs))"

fun split_on :: "char \<Rightarrow> string \<Rightarrow> string list" where
  "split_on d [] = [[]]"
| "split_on d (c # cs) =
     (if c = d then [] # split_on d cs
      else case split_on d cs of [] \<Rightarrow> [[c]] | w # ws \<Rightarrow> (c # w) # ws)"

fun join_with :: "string \<Rightarrow> string list \<Rightarrow> string" where
  "join_with sep [] = []"
| "join_with sep [w] = w"
| "join_with sep (w # v # ws) = w @ sep @ join_with sep (v # ws)"

definition to_digit :: "nat \<Rightarrow> char \<Rightarrow> nat option" where
  "to_digit radix c =
     (let n = (of_char c :: nat);
          d = (if 48 \<le> n \<and> n \<le> 57 then n - 48
               else if 97 \<le> n \<and> n \<le> 122 then n - 87
               else if 65 \<le> n \<and> n \<le> 90 then n - 55
               else radix)
      in if d < radix then Some d else None)"

datatype ParseIntError = Empty | InvalidDigit | PosOverflow

fun parse_digits :: "nat \<Rightarrow> nat \<Rightarrow> nat \<Rightarrow> string \<Rightarrow> (ParseIntError, nat) result" where
  "parse_digits radix m acc [] = Inr acc"
| "parse_digits radix m acc (c # cs) =
     (case to_digit radix c of
        None \<Rightarrow> Inl InvalidDigit
      | Some d \<Rightarrow>
          if acc * radix + d > m then Inl PosOverflow
          else parse_digits radix m (acc * radix + d) cs)"

text \<open>
  \<^verbatim>\<open>uN::from_str_radix\<close>: the empty string is an error, a single sign is an invalid digit, a
  leading \<^verbatim>\<open>+\<close> is skipped and a leading \<^verbatim>\<open>-\<close> of an unsigned type is read as a digit.
\<close>

definition parse_uint :: "nat \<Rightarrow> nat \<Rightarrow> string \<Rightarrow> (ParseIntError, nat) result" where
  "parse_uint radix m s =
     (case s of
        [] \<Rightarrow> Inl Empty
      | [c] \<Rightarrow> if c = CHR ''+'' \<or> c = CHR ''-'' then Inl InvalidDigit else parse_digits radix m 0 s
      | c # cs \<Rightarrow> if c = CHR ''+'' then parse_digits radix m 0 cs else parse_digits radix m 0 s)"

lemma parse_digits_bound: "parse_digits radix m acc s = Inr n \<Longrightarrow> acc \<le> m \<Longrightarrow> n \<le> m"
  by (induction radix m acc s rule: parse_digits.induct) (auto split: option.splits if_splits)

lemma parse_uint_bound: "parse_uint radix m s = Inr n \<Longrightarrow> n \<le> m"
  by (auto simp: parse_uint_def simp del: parse_digits.simps
      split: list.splits if_splits dest: parse_digits_bound)

fun digit_char :: "nat \<Rightarrow> char" where
  "digit_char d = (if d < 10 then char_of (48 + d) else char_of (87 + d))"

fun show_radix :: "nat \<Rightarrow> nat \<Rightarrow> string" where
  "show_radix radix n =
     (if n < radix \<or> radix < 2 then [digit_char n]
      else show_radix radix (n div radix) @ [digit_char (n mod radix)])"

declare show_radix.simps [simp del]

abbreviation show_nat :: "nat \<Rightarrow> string" where
  "show_nat \<equiv> show_radix 10"

subsection \<open>Facts on strings\<close>

lemma lowercase_char_upper:
  "to_ascii_lowercase_char c = c \<longleftrightarrow> \<not> is_ascii_uppercase c"
proof -
  have "char_of (of_char c + 32 :: nat) \<noteq> c" if "of_char c \<le> (90 :: nat)"
  proof
    assume "char_of (of_char c + 32 :: nat) = c"
    then have "of_char (char_of (of_char c + 32 :: nat) :: char) = (of_char c :: nat)" by simp
    with that show False by simp
  qed
  then show ?thesis by (auto simp: to_ascii_lowercase_char_def is_ascii_uppercase_def Let_def)
qed

lemma lowercase_char_not_upper [simp]: "\<not> is_ascii_uppercase (to_ascii_lowercase_char c)"
  by (auto simp: to_ascii_lowercase_char_def is_ascii_uppercase_def Let_def)

lemma lowercase_char_idem [simp]:
  "to_ascii_lowercase_char (to_ascii_lowercase_char c) = to_ascii_lowercase_char c"
  by (simp add: lowercase_char_upper)

lemma lowercase_idem [simp]:
  "to_ascii_lowercase (to_ascii_lowercase s) = to_ascii_lowercase s"
  by (simp add: to_ascii_lowercase_def)

lemma lowercase_eq_self: "(\<forall>c \<in> set s. \<not> is_ascii_uppercase c) \<Longrightarrow> to_ascii_lowercase s = s"
  by (induction s) (auto simp: to_ascii_lowercase_def lowercase_char_upper)

lemma lowercase_length [simp]: "length (to_ascii_lowercase s) = length s"
  by (simp add: to_ascii_lowercase_def)

lemma lowercase_char_dot [simp]: "to_ascii_lowercase_char c = CHR ''.'' \<longleftrightarrow> c = CHR ''.''"
proof
  assume *: "to_ascii_lowercase_char c = CHR ''.''"
  show "c = CHR ''.''"
  proof (cases "is_ascii_uppercase c")
    case True
    then have "of_char (to_ascii_lowercase_char c) = (of_char c + 32 :: nat)"
      and ge: "65 \<le> (of_char c :: nat)"
      by (auto simp: to_ascii_lowercase_char_def is_ascii_uppercase_def Let_def)
    with * have "(of_char c :: nat) + 32 = 46" by simp
    with ge show ?thesis by simp
  next
    case False
    with * show ?thesis by (simp flip: lowercase_char_upper)
  qed
next
  assume "c = CHR ''.''"
  then show "to_ascii_lowercase_char c = CHR ''.''"
    by (simp add: to_ascii_lowercase_char_def Let_def)
qed

lemma trim_end_char_no_suffix: "trim_end_char d s = [] \<or> last (trim_end_char d s) \<noteq> d"
proof (cases "dropWhile (\<lambda>c. c = d) (rev s)")
  case Nil
  then show ?thesis by (simp add: trim_end_char_def)
next
  case (Cons x xs)
  then have "x \<noteq> d" by (metis (full_types) dropWhile_eq_Cons_conv)
  with Cons show ?thesis by (simp add: trim_end_char_def)
qed

lemma trim_end_char_id: "s = [] \<or> last s \<noteq> d \<Longrightarrow> trim_end_char d s = s"
  by (cases s rule: rev_cases) (auto simp: trim_end_char_def)

lemma trim_end_char_idem [simp]: "trim_end_char d (trim_end_char d s) = trim_end_char d s"
  by (rule trim_end_char_id) (rule trim_end_char_no_suffix)

lemma trim_end_char_length_eq: "length (trim_end_char d s) = length s \<longleftrightarrow> trim_end_char d s = s"
proof -
  have "suffix (dropWhile (\<lambda>c. c = d) (rev s)) (rev s)" by (rule suffix_dropWhile)
  then have "prefix (trim_end_char d s) s"
    by (simp add: trim_end_char_def suffix_to_prefix)
  then show ?thesis by (metis prefix_length_prefix prefix_order.antisym order_refl prefix_order.refl)
qed

lemma lowercase_trim_dot:
  "to_ascii_lowercase (trim_end_char (CHR ''.'') s) = trim_end_char (CHR ''.'') (to_ascii_lowercase s)"
  by (simp add: to_ascii_lowercase_def trim_end_char_def rev_map dropWhile_map comp_def)

lemma split_once_Some: "split_once d s = Some (a, b) \<longleftrightarrow> s = a @ d # b \<and> d \<notin> set a"
proof (induction s arbitrary: a)
  case Nil
  then show ?case by simp
next
  case (Cons c cs)
  then show ?case by (cases a) auto
qed

lemma split_once_None: "split_once d s = None \<longleftrightarrow> d \<notin> set s"
  by (induction s) auto

lemma ends_with_iff: "ends_with s t \<longleftrightarrow> suffix t s"
proof
  assume "ends_with s t"
  then have "s = take (length s - length t) s @ t"
    by (metis append_take_drop_id ends_with_def)
  then show "suffix t s" by (rule suffixI)
next
  assume "suffix t s"
  then show "ends_with s t" by (auto simp: ends_with_def suffix_def)
qed

lemma str_contains_iff: "str_contains s pat \<longleftrightarrow> (\<exists>u v. s = u @ pat @ v)"
proof (induction s)
  case Nil
  then show ?case by simp
next
  case (Cons c cs)
  have "take (length pat) (c # cs) = pat \<longleftrightarrow> (\<exists>v. c # cs = pat @ v)"
    by (metis append_eq_conv_conj)
  moreover have "(\<exists>u v. c # cs = u @ pat @ v) \<longleftrightarrow>
      (\<exists>v. c # cs = pat @ v) \<or> (\<exists>u v. cs = u @ pat @ v)"
    by (metis append_Cons append_Nil list.inject list.exhaust)
  ultimately show ?case using Cons.IH by simp
qed

lemma strip_prefix_Some: "strip_prefix p s = Some t \<longleftrightarrow> s = p @ t"
  by (induction p s rule: strip_prefix.induct) auto

section \<open>Blocks of a word that share a prefix\<close>

lemma unat_drop_bit: "unat (drop_bit n (a::'a::len word)) = unat a div 2 ^ n"
  by (simp only: unsigned_drop_bit_eq) (simp add: unsigned_take_bit_eq drop_bit_eq_div [where 'a = nat] take_bit_nat_eq_self)

lemma unat_take_bit: "unat (take_bit n (a::'a::len word)) = unat a mod 2 ^ n"
  by (simp only: unsigned_take_bit_eq) (simp add: take_bit_eq_mod [where 'a = nat])

lemma word_drop_bit_eq_iff: "drop_bit n (a::'a::len word) = drop_bit n b \<longleftrightarrow> unat a div 2 ^ n = unat b div 2 ^ n"
  by (simp add: word_eq_iff_unsigned [where 'a = nat] unat_drop_bit)

lemma unat_ucast_up:
  fixes x :: "'a::len word"
  assumes "LENGTH('a) \<le> LENGTH('b::len)"
  shows "unat (ucast x :: 'b word) = unat x"
proof -
  have "unat x < 2 ^ LENGTH('b)"
    using assms by (meson less_le_trans one_le_numeral power_increasing unsigned_less)
  then show ?thesis by (simp add: unsigned_ucast_eq take_bit_nat_eq_self)
qed

lemma and_not_mask_add: "(a AND NOT (mask n)) + take_bit n a = (a :: 'a::len word)"
proof -
  have "a AND NOT (mask n) = push_bit n (drop_bit n a)"
    by (rule bit_word_eqI) (auto simp: bit_simps)
  then show ?thesis by (simp add: bits_ident)
qed

lemma unat_and_not_mask: "unat (a AND NOT (mask n) :: 'a::len word) = 2 ^ n * (unat a div 2 ^ n)"
proof -
  let ?s = "a AND NOT (mask n)"
  have "?s \<le> a" by (rule word_and_le2)
  then have "unat ?s + unat (take_bit n a) = unat a"
    by (metis and_not_mask_add add_diff_cancel_left' le_add_diff_inverse unat_sub word_le_nat_alt)
  then show ?thesis
    by (simp add: unat_take_bit) (metis add_diff_cancel_right' minus_mod_eq_mult_div mult.commute)
qed

lemma unat_mask_le: "n \<le> LENGTH('a) \<Longrightarrow> unat (mask n :: 'a::len word) = 2 ^ n - 1"
proof -
  assume n: "n \<le> LENGTH('a)"
  have "mask n = take_bit n (- 1 :: 'a word)" by simp
  then have "unat (mask n :: 'a word) = unat (- 1 :: 'a word) mod 2 ^ n" by (metis unat_take_bit)
  also have "\<dots> = take_bit n (mask LENGTH('a) :: nat)"
    by (simp add: unsigned_minus_1_eq_mask take_bit_eq_mod)
  also have "\<dots> = mask n" using n by (simp add: take_bit_of_mask min_absorb1)
  finally show ?thesis by (simp add: mask_eq_exp_minus_1)
qed

lemma unat_or_mask: 
  assumes "n \<le> LENGTH('a)"
  shows "unat ((a AND NOT (mask n)) OR mask n :: 'a::len word) = 2 ^ n * (unat a div 2 ^ n) + (2 ^ n - 1)"
proof -
  let ?s = "a AND NOT (mask n)" and ?e = "(a AND NOT (mask n)) OR mask n"
  have 1: "?e AND NOT (mask n) = ?s" and 2: "take_bit n ?e = mask n"
    by (rule bit_word_eqI; auto simp: bit_simps)+
  have "unat ?e = 2 ^ n * (unat ?e div 2 ^ n) + unat ?e mod 2 ^ n" by simp
  also have "2 ^ n * (unat ?e div 2 ^ n) = unat ?s" by (metis 1 unat_and_not_mask)
  also have "unat ?e mod 2 ^ n = unat (mask n :: 'a word)" by (metis 2 unat_take_bit)
  finally show ?thesis by (simp add: unat_and_not_mask unat_mask_le assms)
qed

lemma block_iff_div:
  fixes p q v :: nat
  assumes "0 < p"
  shows "p * q \<le> v \<and> v \<le> p * q + (p - 1) \<longleftrightarrow> q = v div p"
proof
  assume "p * q \<le> v \<and> v \<le> p * q + (p - 1)"
  moreover have "p * Suc q = p * q + p" by simp
  ultimately have "p * q \<le> v" and "v < p * Suc q" using assms by linarith+
  then show "q = v div p" by (metis div_nat_eqI)
next
  assume *: "q = v div p"
  have "v = p * (v div p) + v mod p" by simp
  moreover have "v mod p \<le> p - 1" using assms by (simp add: Suc_leI le_diff_conv2)
  ultimately show "p * q \<le> v \<and> v \<le> p * q + (p - 1)" unfolding * by linarith
qed

lemma prefix_range_iff:
  fixes a v :: "'a::len word"
  assumes "n \<le> LENGTH('a)"
  shows "a AND NOT (mask n) \<le> v \<and> v \<le> (a AND NOT (mask n)) OR mask n \<longleftrightarrow> drop_bit n a = drop_bit n v"
  using block_iff_div [of "2 ^ n" "unat a div 2 ^ n" "unat v"]
  by (simp add: word_le_nat_alt unat_and_not_mask unat_or_mask [OF assms] word_drop_bit_eq_iff)

end
