(* ===== verification/Core_Types.thy ===== *)
theory Core_Types
  imports Prelude
begin

text \<open>
  \<^verbatim>\<open>dae-core-types/src\<close>: the outbound index spaces of traffic, DNS request and DNS response
  routing with their reserved codes, the dial modes and selection policies, the network
  dimensions, and the constants shared with the eBPF programs.
\<close>

section \<open>Outbound indices\<close>

type_synonym OutboundIndex = u8

definition DIRECT :: OutboundIndex where "DIRECT = 0"
definition BLOCK :: OutboundIndex where "BLOCK = 1"
definition USER_DEFINED_MIN :: OutboundIndex where "USER_DEFINED_MIN = 2"
definition MUST_RULES :: OutboundIndex where "MUST_RULES = 0xFC"
definition CONTROL_PLANE_ROUTING :: OutboundIndex where "CONTROL_PLANE_ROUTING = 0xFD"
definition LOGICAL_OR :: OutboundIndex where "LOGICAL_OR = 0xFE"
definition LOGICAL_AND :: OutboundIndex where "LOGICAL_AND = 0xFF"
definition LOGICAL_MASK :: OutboundIndex where "LOGICAL_MASK = 0xFE"
definition USER_DEFINED_MAX :: OutboundIndex where "USER_DEFINED_MAX = MUST_RULES - 1"

lemmas outbound_consts =
  DIRECT_def BLOCK_def USER_DEFINED_MIN_def MUST_RULES_def CONTROL_PLANE_ROUTING_def
  LOGICAL_OR_def LOGICAL_AND_def LOGICAL_MASK_def USER_DEFINED_MAX_def

definition OutboundIndex_is_reserved :: "OutboundIndex \<Rightarrow> bool" where
  "OutboundIndex_is_reserved i \<longleftrightarrow> i \<le> BLOCK \<or> i \<ge> MUST_RULES"

definition try_from_user_offset :: "u64 \<Rightarrow> (string, OutboundIndex) result" where
  "try_from_user_offset offset =
     (let v = ucast USER_DEFINED_MIN + offset
      in if v > ucast USER_DEFINED_MAX
         then Inl ''user outbound index exceeds reserved control range''
         else Inr (ucast v))"

definition show_OutboundIndex :: "OutboundIndex \<Rightarrow> string" where
  "show_OutboundIndex i =
     (if i = MUST_RULES then ''must_rules''
      else if i = DIRECT then ''direct''
      else if i = BLOCK then ''block''
      else if i = CONTROL_PLANE_ROUTING then ''<Control Plane Routing>''
      else if i = LOGICAL_OR then ''<OR>''
      else if i = LOGICAL_AND then ''<AND>''
      else ''<index: '' @ show_nat (unat i) @ ''>'')"

section \<open>DNS indices\<close>

definition DNS_REQUEST_REJECT :: u8 where "DNS_REQUEST_REJECT = 0xFC"
definition DNS_REQUEST_ASIS :: u8 where "DNS_REQUEST_ASIS = 0xFD"
definition DNS_REQUEST_USER_DEFINED_MAX :: u8 where
  "DNS_REQUEST_USER_DEFINED_MAX = DNS_REQUEST_REJECT - 1"
definition DNS_RESPONSE_ACCEPT :: u8 where "DNS_RESPONSE_ACCEPT = 0xFC"
definition DNS_RESPONSE_REJECT :: u8 where "DNS_RESPONSE_REJECT = 0xFD"
definition DNS_RESPONSE_USER_DEFINED_MAX :: u8 where
  "DNS_RESPONSE_USER_DEFINED_MAX = DNS_RESPONSE_ACCEPT - 1"

lemmas dns_consts =
  DNS_REQUEST_REJECT_def DNS_REQUEST_ASIS_def DNS_REQUEST_USER_DEFINED_MAX_def
  DNS_RESPONSE_ACCEPT_def DNS_RESPONSE_REJECT_def DNS_RESPONSE_USER_DEFINED_MAX_def

definition DnsRequest_is_reserved :: "u8 \<Rightarrow> bool" where
  "DnsRequest_is_reserved i \<longleftrightarrow> i > DNS_REQUEST_USER_DEFINED_MAX"

definition DnsResponse_is_reserved :: "u8 \<Rightarrow> bool" where
  "DnsResponse_is_reserved i \<longleftrightarrow> i > DNS_RESPONSE_USER_DEFINED_MAX"

text \<open>The error carries the rejected value.\<close>

definition DnsRequest_try_from :: "u64 \<Rightarrow> (u64, u8) result" where
  "DnsRequest_try_from v = (if v \<le> ucast DNS_REQUEST_USER_DEFINED_MAX then Inr (ucast v) else Inl v)"

definition DnsResponse_try_from :: "u64 \<Rightarrow> (u64, u8) result" where
  "DnsResponse_try_from v = (if v \<le> ucast DNS_RESPONSE_USER_DEFINED_MAX then Inr (ucast v) else Inl v)"

definition show_DnsIndexError :: "u64 \<Rightarrow> string" where
  "show_DnsIndexError v =
     ''DNS user-defined outbound index '' @ show_nat (unat v) @ '' exceeds '' @
     show_nat (unat DNS_REQUEST_USER_DEFINED_MAX)"

definition show_DnsRequestIndex :: "u8 \<Rightarrow> string" where
  "show_DnsRequestIndex i =
     (if i = DNS_REQUEST_REJECT then ''reject''
      else if i = DNS_REQUEST_ASIS then ''asis''
      else if i = LOGICAL_OR then ''<OR>''
      else if i = LOGICAL_AND then ''<AND>''
      else ''<index: '' @ show_nat (unat i) @ ''>'')"

definition show_DnsResponseIndex :: "u8 \<Rightarrow> string" where
  "show_DnsResponseIndex i =
     (if i = DNS_RESPONSE_ACCEPT then ''accept''
      else if i = DNS_RESPONSE_REJECT then ''reject''
      else if i = LOGICAL_OR then ''<OR>''
      else if i = LOGICAL_AND then ''<AND>''
      else ''<index: '' @ show_nat (unat i) @ ''>'')"

section \<open>Dialing\<close>

datatype DialMode = DialIp | DialDomain | DialDomainPlus | DialDomainCao

fun DialMode_as_str :: "DialMode \<Rightarrow> string" where
  "DialMode_as_str DialIp = ''ip''"
| "DialMode_as_str DialDomain = ''domain''"
| "DialMode_as_str DialDomainPlus = ''domain+''"
| "DialMode_as_str DialDomainCao = ''domain++''"

text \<open>The error carries the rejected text.\<close>

definition DialMode_from_str :: "string \<Rightarrow> (string, DialMode) result" where
  "DialMode_from_str m =
     (if m = ''ip'' then Inr DialIp
      else if m = ''domain'' then Inr DialDomain
      else if m = ''domain+'' then Inr DialDomainPlus
      else if m = ''domain++'' then Inr DialDomainCao
      else Inl m)"

datatype DialerSelectionPolicy =
  Random | Fixed | MinAverage10Latencies | MinMovingAverageLatencies | MinLastLatency

fun DialerSelectionPolicy_as_str :: "DialerSelectionPolicy \<Rightarrow> string" where
  "DialerSelectionPolicy_as_str Random = ''random''"
| "DialerSelectionPolicy_as_str Fixed = ''fixed''"
| "DialerSelectionPolicy_as_str MinAverage10Latencies = ''min_avg10''"
| "DialerSelectionPolicy_as_str MinMovingAverageLatencies = ''min_moving_avg''"
| "DialerSelectionPolicy_as_str MinLastLatency = ''min''"

section \<open>Network dimensions and shared constants\<close>

datatype L4ProtoStr = Tcp | Udp
datatype IpVersionStr = IpV4 | IpV6

fun L4ProtoStr_as_str :: "L4ProtoStr \<Rightarrow> string" where
  "L4ProtoStr_as_str Tcp = ''tcp''"
| "L4ProtoStr_as_str Udp = ''udp''"

fun to_l4_proto_type :: "L4ProtoStr \<Rightarrow> u8" where
  "to_l4_proto_type Tcp = 1"
| "to_l4_proto_type Udp = 2"

fun IpVersionStr_as_str :: "IpVersionStr \<Rightarrow> string" where
  "IpVersionStr_as_str IpV4 = ''4''"
| "IpVersionStr_as_str IpV6 = ''6''"

fun to_ip_version :: "IpVersionStr \<Rightarrow> u8" where
  "to_ip_version IpV4 = 4"
| "to_ip_version IpV6 = 6"

definition TPROXY_MARK :: u32 where "TPROXY_MARK = 0x08000000"
definition RECOGNIZE :: u16 where "RECOGNIZE = 0x2017"
definition LOOPBACK_IFINDEX :: u32 where "LOOPBACK_IFINDEX = 1"
definition TASK_COMM_LEN :: nat where "TASK_COMM_LEN = 16"

section \<open>Facts\<close>

lemma logical_mask_iff:
  "i AND LOGICAL_MASK = LOGICAL_MASK \<longleftrightarrow> i = LOGICAL_OR \<or> i = LOGICAL_AND"
proof -
  have mask: "NOT (mask 1) = (0xFE :: u8)" by (simp add: mask_eq_exp_minus_1)
  have "i AND 0xFE = 0xFE \<longleftrightarrow> unat (i AND NOT (mask 1)) = 254"
    unfolding mask by (simp add: word_eq_iff_unsigned [where 'a = nat])
  also have "\<dots> \<longleftrightarrow> unat i = 254 \<or> unat i = 255" by (simp only: unat_and_not_mask power_one_right) arith
  finally show ?thesis by (simp add: outbound_consts word_eq_iff_unsigned [where 'a = nat])
qed

lemma logical_distinct [simp]:
  "LOGICAL_OR \<noteq> LOGICAL_AND" "MUST_RULES \<noteq> LOGICAL_OR" "MUST_RULES \<noteq> LOGICAL_AND"
  "LOGICAL_AND \<noteq> LOGICAL_OR" "LOGICAL_OR \<noteq> MUST_RULES" "LOGICAL_AND \<noteq> MUST_RULES"
  by (simp_all add: outbound_consts)

end
