(* ===== verification/Rule_Semantics.thy ===== *)
theory Rule_Semantics
  imports Core_Types
begin

text \<open>
  The meaning of a flat list of match sets, shared by the userspace matcher
  (\<^verbatim>\<open>dae-routing/src/userspace/matcher.rs\<close>) and the kernel program
  (\<^verbatim>\<open>dae-ebpf-program/src/routing.rs\<close>).  The specification groups the list into rules, a rule
  into alternatives, and takes the first rule that holds; both implementations run a loop
  with three flags, which is proved equal to the specification once, here.
\<close>

section \<open>Specification\<close>

text \<open>A match set with the answer of its predicate on the packet at hand.\<close>

record clause =
  cl_hit :: bool
  cl_out :: OutboundIndex
  cl_not :: bool
  cl_mark :: u32
  cl_must :: bool

record MatchOutcome =
  outcome_outbound :: OutboundIndex
  outcome_mark :: u32
  outcome_must :: bool

definition ends_rule :: "clause \<Rightarrow> bool" where
  "ends_rule c \<longleftrightarrow> cl_out c \<noteq> LOGICAL_OR \<and> cl_out c \<noteq> LOGICAL_AND"

text \<open>The list cut after every element that satisfies a predicate; a rest without one is dropped.\<close>

fun cut_after :: "('a \<Rightarrow> bool) \<Rightarrow> 'a list \<Rightarrow> 'a list list" where
  "cut_after P [] = []"
| "cut_after P (x # xs) =
     (if P x then [x] # cut_after P xs
      else case cut_after P xs of [] \<Rightarrow> [] | w # ws \<Rightarrow> (x # w) # ws)"

definition rules_of :: "clause list \<Rightarrow> clause list list" where
  "rules_of cs = cut_after ends_rule cs"

definition subrules_of :: "clause list \<Rightarrow> clause list list" where
  "subrules_of r = cut_after (\<lambda>c. cl_out c \<noteq> LOGICAL_OR) r"

definition subrule_holds :: "clause list \<Rightarrow> bool" where
  "subrule_holds ch \<longleftrightarrow> list_ex cl_hit ch \<noteq> cl_not (last ch)"

definition rule_holds :: "clause list \<Rightarrow> bool" where
  "rule_holds r \<longleftrightarrow> list_all subrule_holds (subrules_of r)"

definition rule_outcome :: "bool \<Rightarrow> clause \<Rightarrow> MatchOutcome" where
  "rule_outcome must_rules_hit c =
     \<lparr>outcome_outbound = cl_out c, outcome_mark = cl_mark c, outcome_must = cl_must c \<or> must_rules_hit\<rparr>"

fun decide :: "bool \<Rightarrow> clause list list \<Rightarrow> MatchOutcome option" where
  "decide must [] = None"
| "decide must (r # rs) =
     (if \<not> rule_holds r then decide must rs
      else if cl_out (last r) = MUST_RULES then decide True rs
      else Some (rule_outcome must (last r)))"

section \<open>The flag loop\<close>

fun clause_loop :: "bool \<Rightarrow> bool \<Rightarrow> bool \<Rightarrow> clause list \<Rightarrow> MatchOutcome option" where
  "clause_loop good bad must [] = None"
| "clause_loop good bad must (c # cs) =
     (let good = good \<or> (\<not> bad \<and> cl_hit c);
          bad = (bad \<or> (cl_out c \<noteq> LOGICAL_OR \<and> good = cl_not c));
          good = (good \<and> cl_out c = LOGICAL_OR)
      in if ends_rule c
         then if bad then clause_loop good False must cs
              else if cl_out c = MUST_RULES then clause_loop good bad True cs
              else Some (rule_outcome must c)
         else clause_loop good bad must cs)"

lemma cut_after_hit:
  "\<forall>x \<in> set xs. \<not> P x \<Longrightarrow> P y \<Longrightarrow> cut_after P (xs @ y # rest) = (xs @ [y]) # cut_after P rest"
  by (induction xs) auto

lemma cut_after_none: "\<forall>x \<in> set xs. \<not> P x \<Longrightarrow> cut_after P xs = []"
  by (induction xs) auto

lemma cut_after_last: "w \<in> set (cut_after P xs) \<Longrightarrow> w \<noteq> [] \<and> P (last w)"
proof (induction xs arbitrary: w)
  case (Cons x xs)
  show ?case
  proof (cases "P x")
    case True
    with Cons show ?thesis by auto
  next
    case False
    with Cons.prems obtain v vs where v: "cut_after P xs = v # vs" and w: "w = x # v \<or> w \<in> set vs"
      by (cases "cut_after P xs") auto
    then have "v \<noteq> [] \<and> P (last v)" and "w \<in> set vs \<Longrightarrow> w \<noteq> [] \<and> P (last w)"
      using Cons.IH by simp_all
    with w show ?thesis by auto
  qed
qed simp

lemma cut_after_nonempty: "xs \<noteq> [] \<Longrightarrow> P (last xs) \<Longrightarrow> cut_after P xs \<noteq> []"
  by (induction xs) (auto split: list.splits if_splits)

lemma cut_after_append:
  "xs = [] \<or> P (last xs) \<Longrightarrow> cut_after P (xs @ ys) = cut_after P xs @ cut_after P ys"
proof (induction xs)
  case Nil
  then show ?case by simp
next
  case (Cons x xs)
  show ?case
  proof (cases "xs = []")
    case True
    with Cons.prems show ?thesis by simp
  next
    case False
    with Cons.prems cut_after_nonempty [of xs P] have "cut_after P xs \<noteq> []" by simp
    with Cons False show ?thesis by (auto split: list.split)
  qed
qed

text \<open>A rule read from the left, with the pending alternatives of the current subrule.\<close>

fun holds_from :: "bool \<Rightarrow> clause list \<Rightarrow> bool" where
  "holds_from good [] = True"
| "holds_from good (c # cs) =
     (if cl_out c = LOGICAL_OR then holds_from (good \<or> cl_hit c) cs
      else (good \<or> cl_hit c) \<noteq> cl_not c \<and> holds_from False cs)"

lemma holds_from_subrules:
  "holds_from good r \<longleftrightarrow>
     (case subrules_of r of
        [] \<Rightarrow> True
      | ch # chs \<Rightarrow> (good \<or> list_ex cl_hit ch) \<noteq> cl_not (last ch) \<and> list_all subrule_holds chs)"
proof (induction r arbitrary: good)
  case Nil
  then show ?case by (simp add: subrules_of_def)
next
  case (Cons c cs)
  have ne: "ch \<noteq> []" if "ch \<in> set (subrules_of cs)" for ch
    using that cut_after_last by (auto simp: subrules_of_def)
  show ?case
  proof (cases "cl_out c = LOGICAL_OR")
    case True
    then have "subrules_of (c # cs) = (case subrules_of cs of [] \<Rightarrow> [] | w # ws \<Rightarrow> (c # w) # ws)"
      by (simp add: subrules_of_def)
    with True Cons.IH [of "good \<or> cl_hit c"] ne show ?thesis
      by (auto split: list.splits)
  next
    case False
    then have "subrules_of (c # cs) = [c] # subrules_of cs"
      by (simp add: subrules_of_def)
    with False Cons.IH [of False] show ?thesis
      by (cases "subrules_of cs") (simp_all add: subrule_holds_def list_all_iff)
  qed
qed

lemma rule_holds_from: "rule_holds r \<longleftrightarrow> holds_from False r"
  by (cases "subrules_of r")
    (simp_all add: holds_from_subrules rule_holds_def subrule_holds_def list_all_iff)

lemma clause_loop_rule:
  assumes "\<forall>x \<in> set xs. \<not> ends_rule x" "ends_rule y" "bad \<longrightarrow> \<not> good"
  shows "clause_loop good bad must (xs @ y # rest) =
    (if bad \<or> \<not> holds_from good (xs @ [y]) then clause_loop False False must rest
     else if cl_out y = MUST_RULES then clause_loop False False True rest
     else Some (rule_outcome must y))"
  using assms
proof (induction xs arbitrary: good bad)
  case Nil
  then show ?case by (auto simp: Let_def ends_rule_def)
next
  case (Cons x xs)
  let ?good = "good \<or> (\<not> bad \<and> cl_hit x)"
  let ?bad = "bad \<or> (cl_out x \<noteq> LOGICAL_OR \<and> ?good = cl_not x)"
  have "clause_loop good bad must ((x # xs) @ y # rest) =
      clause_loop (?good \<and> cl_out x = LOGICAL_OR) ?bad must (xs @ y # rest)"
    using Cons.prems(1) by (simp add: Let_def)
  also have "\<dots> = (if ?bad \<or> \<not> holds_from (?good \<and> cl_out x = LOGICAL_OR) (xs @ [y])
      then clause_loop False False must rest
      else if cl_out y = MUST_RULES then clause_loop False False True rest
      else Some (rule_outcome must y))"
    using Cons.prems by (intro Cons.IH) auto
  also have "(?bad \<or> \<not> holds_from (?good \<and> cl_out x = LOGICAL_OR) (xs @ [y])) \<longleftrightarrow>
      (bad \<or> \<not> holds_from good ((x # xs) @ [y]))"
    by auto
  finally show ?case .
qed

lemma clause_loop_unfinished:
  "\<forall>x \<in> set xs. \<not> ends_rule x \<Longrightarrow> clause_loop good bad must xs = None"
  by (induction xs arbitrary: good bad) (simp_all add: Let_def)

text \<open>The loop decides like the specification, for every list of match sets.\<close>

lemma clause_loop_decide: "clause_loop False False must cs = decide must (rules_of cs)"
proof (induction "length cs" arbitrary: cs must rule: less_induct)
  case less
  let ?xs = "takeWhile (\<lambda>c. \<not> ends_rule c) cs"
  have xs: "\<forall>x \<in> set ?xs. \<not> ends_rule x" by (auto dest: set_takeWhileD)
  show ?case
  proof (cases "dropWhile (\<lambda>c. \<not> ends_rule c) cs")
    case Nil
    then have "\<forall>x \<in> set cs. \<not> ends_rule x" by (simp add: dropWhile_eq_Nil_conv)
    then show ?thesis by (simp add: clause_loop_unfinished rules_of_def cut_after_none)
  next
    case (Cons y rest)
    then have y: "ends_rule y" by (metis (full_types) dropWhile_eq_Cons_conv)
    have cs: "cs = ?xs @ y # rest" by (metis Cons takeWhile_dropWhile_id)
    then have "length rest < length cs" by (metis add_Suc_right length_Cons length_append less_add_Suc2)
    then have IH: "clause_loop False False m rest = decide m (rules_of rest)" for m
      by (rule less)
    have "rules_of cs = (?xs @ [y]) # rules_of rest"
      by (subst cs) (simp only: rules_of_def cut_after_hit [OF xs y])
    then show ?thesis
      by (subst cs) (simp add: clause_loop_rule [OF xs y] IH rule_holds_from)
  qed
qed

section \<open>A fallback rule makes the decision total\<close>

lemma decide_fallback:
  assumes "cs = [] \<or> ends_rule (last cs)"
    and "cl_hit f" "\<not> cl_not f" "ends_rule f" "cl_out f \<noteq> MUST_RULES"
  shows "\<exists>d. decide must (rules_of (cs @ [f])) = Some d"
proof -
  have "rules_of (cs @ [f]) = rules_of cs @ [[f]]"
    using assms(1,4) by (simp add: rules_of_def cut_after_append)
  moreover have "rule_holds [f]"
    using assms(2-4) by (simp add: rule_holds_from ends_rule_def)
  then have "\<exists>d. decide m (rs @ [[f]]) = Some d" for m rs
    using assms(5) by (induction rs arbitrary: m) auto
  ultimately show ?thesis by simp
qed

end
