(* ===== verification/Ip_Text.thy ===== *)
theory Ip_Text
  imports Prelude
begin

text \<open>
  The textual form of IP addresses as Rust's standard library reads and prints it
  (\<^verbatim>\<open>core::net::parser\<close> and the \<^verbatim>\<open>Display\<close> instances of \<^verbatim>\<open>core::net::ip_addr\<close>): the source parses
  every prefix, address and DNS upstream through \<^verbatim>\<open>IpAddr::from_str\<close> and prints addresses in
  its error messages and canonical prefix strings.  An IPv4 address is a 32-bit word, an IPv6
  address a 128-bit word, both in host order (\<^verbatim>\<open>u32::from\<close>, \<^verbatim>\<open>u128::from\<close>).
\<close>

datatype IpAddr = V4 u32 | V6 u128

fun is_ipv4 :: "IpAddr \<Rightarrow> bool" where
  "is_ipv4 (V4 _) = True"
| "is_ipv4 (V6 _) = False"

section \<open>Octets and segments\<close>

definition v4_of_octets :: "nat list \<Rightarrow> u32" where
  "v4_of_octets os = word_of_nat (foldl (\<lambda>acc d. acc * 256 + d) 0 os)"

definition v4_octets :: "u32 \<Rightarrow> nat list" where
  "v4_octets a = map (\<lambda>i. unat a div 256 ^ i mod 256) [3, 2, 1, 0]"

definition v6_of_segments :: "nat list \<Rightarrow> u128" where
  "v6_of_segments ss = word_of_nat (foldl (\<lambda>acc d. acc * 65536 + d) 0 ss)"

definition v6_segments :: "u128 \<Rightarrow> nat list" where
  "v6_segments a = map (\<lambda>i. unat a div 65536 ^ i mod 65536) [7, 6, 5, 4, 3, 2, 1, 0]"

section \<open>The address parser\<close>

text \<open>
  Every reader takes the remaining input and returns the value read with the input left
  over; a reader that fails consumes nothing.
\<close>

fun read_digits :: "nat \<Rightarrow> string \<Rightarrow> nat list \<times> string" where
  "read_digits radix [] = ([], [])"
| "read_digits radix (c # cs) =
     (case to_digit radix c of
        None \<Rightarrow> ([], c # cs)
      | Some d \<Rightarrow> (let (ds, rest) = read_digits radix cs in (d # ds, rest)))"

definition read_number :: "nat \<Rightarrow> nat \<Rightarrow> nat \<Rightarrow> bool \<Rightarrow> string \<Rightarrow> (nat \<times> string) option" where
  "read_number radix m max_digits allow_zero_prefix s =
     (let (ds, rest) = read_digits radix s;
          n = foldl (\<lambda>acc d. acc * radix + d) 0 ds
      in if length ds = 0 \<or> length ds > max_digits then None
         else if \<not> allow_zero_prefix \<and> hd s = CHR ''0'' \<and> length ds > 1 then None
         else if n > m then None
         else Some (n, rest))"

definition read_given_char :: "char \<Rightarrow> string \<Rightarrow> string option" where
  "read_given_char c s = (case s of [] \<Rightarrow> None | d # ds \<Rightarrow> if c = d then Some ds else None)"

definition read_separator :: "char \<Rightarrow> nat \<Rightarrow> (string \<Rightarrow> ('a \<times> string) option) \<Rightarrow> string \<Rightarrow> ('a \<times> string) option" where
  "read_separator sep index inner s =
     (if index > 0 then Option.bind (read_given_char sep s) inner else inner s)"

fun read_v4_groups :: "nat \<Rightarrow> nat \<Rightarrow> string \<Rightarrow> (nat list \<times> string) option" where
  "read_v4_groups i 0 s = Some ([], s)"
| "read_v4_groups i (Suc k) s =
     Option.bind (read_separator (CHR ''.'') i (read_number 10 255 3 False) s)
       (\<lambda>(g, rest). map_option (\<lambda>(gs, rest'). (g # gs, rest')) (read_v4_groups (Suc i) k rest))"

definition read_ipv4_addr :: "string \<Rightarrow> (u32 \<times> string) option" where
  "read_ipv4_addr s = map_option (\<lambda>(gs, rest). (v4_of_octets gs, rest)) (read_v4_groups 0 4 s)"

text \<open>
  \<^verbatim>\<open>read_groups\<close>: at most \<^term>\<open>k\<close> more groups, the first of them with index \<^term>\<open>i\<close>.  Returns
  the groups, whether an embedded IPv4 address ended them, and the rest of the input.
\<close>

fun read_groups :: "nat \<Rightarrow> nat \<Rightarrow> string \<Rightarrow> nat list \<times> bool \<times> string" where
  "read_groups i 0 s = ([], False, s)"
| "read_groups i (Suc k) s =
     (case (if k > 0 then read_separator (CHR '':'') i read_ipv4_addr s else None) of
        Some (a, rest) \<Rightarrow> ([unat a div 65536, unat a mod 65536], True, rest)
      | None \<Rightarrow>
          (case read_separator (CHR '':'') i (read_number 16 65535 4 True) s of
             None \<Rightarrow> ([], False, s)
           | Some (g, rest) \<Rightarrow>
               (let (gs, v4, rest') = read_groups (Suc i) k rest in (g # gs, v4, rest'))))"

definition read_ipv6_addr :: "string \<Rightarrow> (u128 \<times> string) option" where
  "read_ipv6_addr s =
     (let (head, head_ipv4, rest) = read_groups 0 8 s
      in if length head = 8 then Some (v6_of_segments head, rest)
         else if head_ipv4 then None
         else Option.bind (Option.bind (read_given_char (CHR '':'') rest) (read_given_char (CHR '':'')))
           (\<lambda>rest'.
              let (tail, _, rest'') = read_groups 0 (8 - (length head + 1)) rest'
              in Some (v6_of_segments
                         (head @ replicate (8 - length head - length tail) 0 @ tail), rest'')))"

definition parse_ip_addr :: "string \<Rightarrow> IpAddr option" where
  "parse_ip_addr s =
     (case read_ipv4_addr s of
        Some (a, rest) \<Rightarrow> if rest = [] then Some (V4 a) else None
      | None \<Rightarrow>
          (case read_ipv6_addr s of
             Some (a, rest) \<Rightarrow> if rest = [] then Some (V6 a) else None
           | None \<Rightarrow> None))"

section \<open>Printing addresses\<close>

definition show_ipv4 :: "u32 \<Rightarrow> string" where
  "show_ipv4 a = join_with ''.'' (map show_nat (v4_octets a))"

text \<open>The longest run of zero segments as (start, length), the first one on a tie.\<close>

fun zero_span :: "nat \<Rightarrow> nat \<times> nat \<Rightarrow> nat \<times> nat \<Rightarrow> nat list \<Rightarrow> nat \<times> nat" where
  "zero_span i longest current [] = longest"
| "zero_span i longest current (s # ss) =
     (if s = 0
      then (let current' = (if snd current = 0 then i else fst current, snd current + 1)
            in zero_span (Suc i) (if snd current' > snd longest then current' else longest) current' ss)
      else zero_span (Suc i) longest (0, 0) ss)"

definition fmt_subslice :: "nat list \<Rightarrow> string" where
  "fmt_subslice ss = join_with '':'' (map (show_radix 16) ss)"

definition show_ipv6 :: "u128 \<Rightarrow> string" where
  "show_ipv6 a =
     (if unat a div 2 ^ 32 = 65535 then ''::ffff:'' @ show_ipv4 (ucast a)
      else let ss = v6_segments a; (start, len) = zero_span 0 (0, 0) (0, 0) ss
           in if len > 1 then fmt_subslice (take start ss) @ ''::'' @ fmt_subslice (drop (start + len) ss)
              else fmt_subslice ss)"

fun show_ip_addr :: "IpAddr \<Rightarrow> string" where
  "show_ip_addr (V4 a) = show_ipv4 a"
| "show_ip_addr (V6 a) = show_ipv6 a"

end
