(* ===== verification/Ip_Prefix.thy ===== *)
theory Ip_Prefix
  imports Ip_Text
begin

text \<open>
  \<^verbatim>\<open>dae-routing/src/error.rs\<close> and \<^verbatim>\<open>dae-routing/src/prefix.rs\<close>: routing errors, address
  prefixes, their parser and printer, and prefix containment.  Containment is
  characterised by the leading bits of the addresses, which is also how the kernel's
  longest-prefix-match tries read a key.
\<close>

section \<open>Errors\<close>

datatype RoutingError =
    InvalidPrefix string
  | InvalidPrefixBits string u8
  | InvalidDomainKey string
  | InvalidRegex string
  | InvalidFixture string
  | UnknownOutbound string
  | UnknownMatchType string

fun show_routing_error :: "RoutingError \<Rightarrow> string" where
  "show_routing_error (InvalidPrefix input) = ''invalid prefix: '' @ input"
| "show_routing_error (InvalidPrefixBits input bits) =
     ''invalid prefix bits '' @ show_nat (unat bits) @ '': '' @ input"
| "show_routing_error (InvalidDomainKey key) = ''invalid domain key: '' @ key"
| "show_routing_error (InvalidRegex pattern) = ''invalid regex: '' @ pattern"
| "show_routing_error (InvalidFixture message) = ''invalid routing fixture: '' @ message"
| "show_routing_error (UnknownOutbound outbound) = ''unknown outbound: '' @ outbound"
| "show_routing_error (UnknownMatchType match_type) = ''unknown match type: '' @ match_type"

section \<open>Prefixes\<close>

record IpPrefix =
  pfx_addr :: IpAddr
  pfx_bits :: u8

definition max_prefix_bits :: "IpAddr \<Rightarrow> u8" where
  "max_prefix_bits a = (if is_ipv4 a then 32 else 128)"

definition IpPrefix_to_string :: "IpPrefix \<Rightarrow> string" where
  "IpPrefix_to_string p = show_ip_addr (pfx_addr p) @ ''/'' @ show_nat (unat (pfx_bits p))"

definition IpPrefix_new :: "IpAddr \<Rightarrow> u8 \<Rightarrow> (RoutingError, IpPrefix) result" where
  "IpPrefix_new a bits =
     (if bits > max_prefix_bits a
      then Inl (InvalidPrefixBits (show_ip_addr a @ ''/'' @ show_nat (unat bits)) bits)
      else Inr \<lparr>pfx_addr = a, pfx_bits = bits\<rparr>)"

definition IpPrefix_parse :: "string \<Rightarrow> (RoutingError, IpPrefix) result" where
  "IpPrefix_parse input =
     (case split_once (CHR ''/'') input of
        None \<Rightarrow>
          bind_result (ok_or (InvalidPrefix input) (parse_ip_addr input))
            (\<lambda>a. Inr \<lparr>pfx_addr = a, pfx_bits = max_prefix_bits a\<rparr>)
      | Some (addr, bits) \<Rightarrow>
          bind_result (ok_or (InvalidPrefix input) (parse_ip_addr addr)) (\<lambda>a.
          bind_result (map_err (\<lambda>_. InvalidPrefix input) (parse_uint 10 255 bits)) (\<lambda>n.
            let b = (word_of_nat n :: u8)
            in if b > max_prefix_bits a then Inl (InvalidPrefixBits input b)
               else Inr \<lparr>pfx_addr = a, pfx_bits = b\<rparr>)))"

definition prefix_contains :: "u128 \<Rightarrow> u128 \<Rightarrow> u8 \<Rightarrow> u8 \<Rightarrow> bool" where
  "prefix_contains pfx addr bits width \<longleftrightarrow>
     bits = 0 \<or> (let shift = unat (width - bits) in drop_bit shift pfx = drop_bit shift addr)"

definition IpPrefix_contains :: "IpPrefix \<Rightarrow> IpAddr \<Rightarrow> bool" where
  "IpPrefix_contains p a =
     (case (pfx_addr p, a) of
        (V4 pfx, V4 addr) \<Rightarrow> prefix_contains (ucast pfx) (ucast addr) (pfx_bits p) 32
      | (V6 pfx, V6 addr) \<Rightarrow> prefix_contains pfx addr (pfx_bits p) 128
      | _ \<Rightarrow> False)"

definition parse_prefixes_to_strings :: "string list \<Rightarrow> (RoutingError, string list) result" where
  "parse_prefixes_to_strings inputs =
     collect_results (\<lambda>input. map_result IpPrefix_to_string (IpPrefix_parse input)) inputs"

text \<open>The invariant of the type: both fields are private and only the constructors set them.\<close>

definition prefix_ok :: "IpPrefix \<Rightarrow> bool" where
  "prefix_ok p \<longleftrightarrow> pfx_bits p \<le> max_prefix_bits (pfx_addr p)"

lemma IpPrefix_new_ok: "IpPrefix_new a bits = Inr p \<Longrightarrow> prefix_ok p"
  by (auto simp: IpPrefix_new_def prefix_ok_def split: if_splits)

lemma IpPrefix_parse_ok: "IpPrefix_parse s = Inr p \<Longrightarrow> prefix_ok p"
  by (auto simp: IpPrefix_parse_def prefix_ok_def bind_result_Inr Let_def
      split: option.splits if_splits)

section \<open>Containment by leading bits\<close>

text \<open>The bits of an address in network order, most significant bit first.\<close>

definition word_bits_be :: "'a::len word \<Rightarrow> bool list" where
  "word_bits_be w = map (\<lambda>i. bit w (LENGTH('a) - 1 - i)) [0..<LENGTH('a)]"

fun ip_bits :: "IpAddr \<Rightarrow> bool list" where
  "ip_bits (V4 a) = word_bits_be a"
| "ip_bits (V6 a) = word_bits_be a"

lemma length_word_bits_be [simp]: "length (word_bits_be (w :: 'a::len word)) = LENGTH('a)"
  by (simp add: word_bits_be_def)

lemma nth_word_bits_be [simp]:
  "i < LENGTH('a) \<Longrightarrow> word_bits_be (w :: 'a::len word) ! i = bit w (LENGTH('a) - 1 - i)"
  by (simp add: word_bits_be_def)

lemma length_ip_bits: "length (ip_bits a) = unat (max_prefix_bits a)"
  by (cases a) (simp_all add: max_prefix_bits_def)

lemma drop_bit_eq_leading_bits:
  fixes a b :: "'a::len word"
  assumes "n \<le> LENGTH('a)"
  shows "drop_bit (LENGTH('a) - n) a = drop_bit (LENGTH('a) - n) b \<longleftrightarrow>
    take n (word_bits_be a) = take n (word_bits_be b)"
proof
  assume eq: "drop_bit (LENGTH('a) - n) a = drop_bit (LENGTH('a) - n) b"
  show "take n (word_bits_be a) = take n (word_bits_be b)"
  proof (rule nth_equalityI)
    fix i assume "i < length (take n (word_bits_be a))"
    then have i: "i < n" "i < LENGTH('a)" by simp_all
    have "bit (drop_bit (LENGTH('a) - n) a) (n - 1 - i) = bit (drop_bit (LENGTH('a) - n) b) (n - 1 - i)"
      by (simp add: eq)
    moreover have "LENGTH('a) - n + (n - 1 - i) = LENGTH('a) - 1 - i" using i assms by simp
    ultimately show "take n (word_bits_be a) ! i = take n (word_bits_be b) ! i"
      using i by (simp add: bit_drop_bit_eq comp_def)
  qed simp
next
  assume eq: "take n (word_bits_be a) = take n (word_bits_be b)"
  show "drop_bit (LENGTH('a) - n) a = drop_bit (LENGTH('a) - n) b"
  proof (rule bit_word_eqI)
    fix j assume "j < LENGTH('a)"
    show "bit (drop_bit (LENGTH('a) - n) a) j = bit (drop_bit (LENGTH('a) - n) b) j"
    proof (cases "j < n")
      case True
      then have i: "n - 1 - j < n" "LENGTH('a) - 1 - (n - 1 - j) = LENGTH('a) - n + j"
        using assms by simp_all
      from eq have "take n (word_bits_be a) ! (n - 1 - j) = take n (word_bits_be b) ! (n - 1 - j)"
        by simp
      with i True assms show ?thesis by (simp add: bit_drop_bit_eq comp_def)
    next
      case False
      with assms show ?thesis by (auto simp: bit_simps dest: bit_imp_le_length)
    qed
  qed
qed

lemma drop_bit_ucast_eq:
  fixes a b :: u32
  shows "drop_bit n (ucast a :: u128) = drop_bit n (ucast b) \<longleftrightarrow> drop_bit n a = drop_bit n b"
  by (simp add: word_drop_bit_eq_iff unat_ucast_up)

lemma unat_width_minus:
  fixes b w :: u8
  assumes "b \<le> w"
  shows "unat (w - b) = unat w - unat b"
  using assms by (simp add: unat_sub_if_size word_le_nat_alt)

lemma IpPrefix_contains_drop_bit:
  assumes "prefix_ok p"
  shows "IpPrefix_contains p a \<longleftrightarrow>
    (case (pfx_addr p, a) of
       (V4 x, V4 y) \<Rightarrow> drop_bit (32 - unat (pfx_bits p)) x = drop_bit (32 - unat (pfx_bits p)) y
     | (V6 x, V6 y) \<Rightarrow> drop_bit (128 - unat (pfx_bits p)) x = drop_bit (128 - unat (pfx_bits p)) y
     | _ \<Rightarrow> False)"
proof -
  have "drop_bit 32 (x :: u32) = drop_bit 32 y" "drop_bit 128 (v :: u128) = drop_bit 128 w" for x y v w
    by simp_all
  then show ?thesis using assms
    by (auto simp: IpPrefix_contains_def prefix_contains_def prefix_ok_def max_prefix_bits_def
        Let_def unat_width_minus drop_bit_ucast_eq split: IpAddr.splits)
qed

section \<open>Properties\<close>

text \<open>
  C25. A well-formed prefix contains an address exactly when both are of the same family and
  their leading \<^verbatim>\<open>bits\<close> bits agree, for both families and every length from 0 to the width.
\<close>

theorem IpPrefix_contains_leading_bits:
  assumes "prefix_ok p"
  shows "IpPrefix_contains p a \<longleftrightarrow>
    is_ipv4 (pfx_addr p) = is_ipv4 a \<and>
    take (unat (pfx_bits p)) (ip_bits (pfx_addr p)) = take (unat (pfx_bits p)) (ip_bits a)"
proof -
  have "unat (pfx_bits p) \<le> (if is_ipv4 (pfx_addr p) then 32 else 128)"
    using assms by (simp add: prefix_ok_def max_prefix_bits_def word_le_nat_alt split: if_splits)
  then show ?thesis using assms
    by (cases "pfx_addr p"; cases a)
      (simp_all add: IpPrefix_contains_drop_bit drop_bit_eq_leading_bits [where 'a = 32, simplified]
        drop_bit_eq_leading_bits [where 'a = 128, simplified])
qed

theorem IpPrefix_contains_leading_bits_witness:
  "IpPrefix_contains \<lparr>pfx_addr = V4 0xCB007100, pfx_bits = 24\<rparr> (V4 0xCB00712A) \<and>
   \<not> IpPrefix_contains \<lparr>pfx_addr = V4 0xCB007100, pfx_bits = 24\<rparr> (V6 0xCB00712A)"
  using IpPrefix_contains_leading_bits [of "\<lparr>pfx_addr = V4 0xCB007100, pfx_bits = 24\<rparr>" "V4 0xCB00712A"]
    IpPrefix_contains_leading_bits [of "\<lparr>pfx_addr = V4 0xCB007100, pfx_bits = 24\<rparr>" "V6 0xCB00712A"]
  by (simp add: prefix_ok_def max_prefix_bits_def IpPrefix_contains_def prefix_contains_def)

end
