(* ===== verification/Ip_Index.thy ===== *)
theory Ip_Index
  imports Ip_Prefix "HOL-Library.Product_Lexorder"
begin

text \<open>
  \<^verbatim>\<open>dae-routing/src/prefix/index.rs\<close> and \<^verbatim>\<open>SharedIpPrefixSet\<close> of \<^verbatim>\<open>prefix.rs\<close>: the sorted range
  index that replaces a linear scan over large prefix sets.  The trait \<^verbatim>\<open>RangeValue\<close> is the
  locale \<open>range_value\<close>; \<^verbatim>\<open>merge_ranges\<close> is modelled as written, with its in-place updates, and
  refined to a functional merge.
\<close>

section \<open>Ranges\<close>

record 'a PrefixRange =
  range_start :: 'a
  range_end :: 'a

definition saturating_succ :: "'a::len word \<Rightarrow> 'a word" where
  "saturating_succ x = (if x = - 1 then x else x + 1)"

definition merge_step :: "('a::linorder \<Rightarrow> 'a) \<Rightarrow> nat \<Rightarrow> 'a PrefixRange list \<times> nat \<Rightarrow> 'a PrefixRange list \<times> nat" where
  "merge_step next_saturating current = (\<lambda>(ranges, merged_end).
     let range = ranges ! current; previous = ranges ! merged_end
     in if range_start range \<le> next_saturating (range_end previous)
        then (ranges[merged_end := previous\<lparr>range_end := max (range_end previous) (range_end range)\<rparr>],
              merged_end)
        else (ranges[merged_end + 1 := range], merged_end + 1))"

definition merge_ranges :: "('a::linorder \<Rightarrow> 'a) \<Rightarrow> 'a PrefixRange list \<Rightarrow> 'a PrefixRange list" where
  "merge_ranges next_saturating unsorted =
     (let ranges = sort_key (\<lambda>r. (range_start r, range_end r)) unsorted
      in if ranges = [] then ranges
         else let (merged, merged_end) =
                    fold (merge_step next_saturating) [1..<length ranges] (ranges, 0)
              in take (merged_end + 1) merged)"

definition range_contains :: "'a::linorder PrefixRange list \<Rightarrow> 'a \<Rightarrow> bool" where
  "range_contains ranges v =
     (let insertion = length (takeWhile (\<lambda>r. range_start r \<le> v) ranges)
      in insertion > 0 \<and> v \<le> range_end (ranges ! (insertion - 1)))"

section \<open>The index\<close>

definition PREFIX_INDEX_MIN_PREFIXES :: nat where
  "PREFIX_INDEX_MIN_PREFIXES = 64"

definition prefix_mask_u32 :: "u8 \<Rightarrow> u32" where
  "prefix_mask_u32 bits = (if bits = 0 then 0 else push_bit (32 - unat bits) (- 1))"

definition prefix_mask_u128 :: "u8 \<Rightarrow> u128" where
  "prefix_mask_u128 bits = (if bits = 0 then 0 else push_bit (128 - unat bits) (- 1))"

record IpRangeIndex =
  idx_ipv4 :: "u32 PrefixRange list"
  idx_ipv6 :: "u128 PrefixRange list"

fun index_push :: "IpPrefix \<Rightarrow> IpRangeIndex \<Rightarrow> IpRangeIndex" where
  "index_push p ix =
     (case pfx_addr p of
        V4 addr \<Rightarrow>
          let mask = prefix_mask_u32 (pfx_bits p); start = addr AND mask
          in ix\<lparr>idx_ipv4 := idx_ipv4 ix @ [\<lparr>range_start = start, range_end = start OR NOT mask\<rparr>]\<rparr>
      | V6 addr \<Rightarrow>
          let mask = prefix_mask_u128 (pfx_bits p); start = addr AND mask
          in ix\<lparr>idx_ipv6 := idx_ipv6 ix @ [\<lparr>range_start = start, range_end = start OR NOT mask\<rparr>]\<rparr>)"

definition IpRangeIndex_new :: "IpPrefix list \<Rightarrow> IpRangeIndex" where
  "IpRangeIndex_new pfxs =
     (let ix = fold index_push pfxs \<lparr>idx_ipv4 = [], idx_ipv6 = []\<rparr>
      in \<lparr>idx_ipv4 = merge_ranges saturating_succ (idx_ipv4 ix),
          idx_ipv6 = merge_ranges saturating_succ (idx_ipv6 ix)\<rparr>)"

fun IpRangeIndex_contains :: "IpRangeIndex \<Rightarrow> IpAddr \<Rightarrow> bool" where
  "IpRangeIndex_contains ix (V4 a) = range_contains (idx_ipv4 ix) a"
| "IpRangeIndex_contains ix (V6 a) = range_contains (idx_ipv6 ix) a"

datatype IpPrefixLookup = Linear | Indexed IpRangeIndex

definition IpPrefixLookup_for_prefixes :: "IpPrefix list \<Rightarrow> IpPrefixLookup" where
  "IpPrefixLookup_for_prefixes pfxs =
     (if length pfxs < PREFIX_INDEX_MIN_PREFIXES then Linear
      else Indexed (IpRangeIndex_new pfxs))"

fun IpPrefixLookup_contains :: "IpPrefixLookup \<Rightarrow> IpPrefix list \<Rightarrow> IpAddr \<Rightarrow> bool" where
  "IpPrefixLookup_contains Linear pfxs a = list_ex (\<lambda>p. IpPrefix_contains p a) pfxs"
| "IpPrefixLookup_contains (Indexed ix) pfxs a = IpRangeIndex_contains ix a"

record SharedIpPrefixSet =
  set_prefixes :: "IpPrefix list"
  set_lookup :: IpPrefixLookup

definition SharedIpPrefixSet_new :: "IpPrefix list \<Rightarrow> SharedIpPrefixSet" where
  "SharedIpPrefixSet_new pfxs =
     \<lparr>set_prefixes = pfxs, set_lookup = IpPrefixLookup_for_prefixes pfxs\<rparr>"

definition SharedIpPrefixSet_contains :: "SharedIpPrefixSet \<Rightarrow> IpAddr \<Rightarrow> bool" where
  "SharedIpPrefixSet_contains s a = IpPrefixLookup_contains (set_lookup s) (set_prefixes s) a"

section \<open>Merging preserves the covered values\<close>

text \<open>The values a list of ranges covers, and the canonical form merging establishes.\<close>

definition covers :: "'a::linorder PrefixRange list \<Rightarrow> 'a \<Rightarrow> bool" where
  "covers ranges v \<longleftrightarrow> (\<exists>r \<in> set ranges. range_start r \<le> v \<and> v \<le> range_end r)"

fun merge_sorted :: "('a::linorder \<Rightarrow> 'a) \<Rightarrow> 'a PrefixRange \<Rightarrow> 'a PrefixRange list \<Rightarrow> 'a PrefixRange list" where
  "merge_sorted nxt p [] = [p]"
| "merge_sorted nxt p (r # rs) =
     (if range_start r \<le> nxt (range_end p)
      then merge_sorted nxt (p\<lparr>range_end := max (range_end p) (range_end r)\<rparr>) rs
      else p # merge_sorted nxt r rs)"

definition canonical :: "('a::linorder \<Rightarrow> 'a) \<Rightarrow> 'a PrefixRange list \<Rightarrow> bool" where
  "canonical nxt ranges \<longleftrightarrow>
     (\<forall>r \<in> set ranges. range_start r \<le> range_end r) \<and>
     sorted_wrt (\<lambda>a b. nxt (range_end a) < range_start b) ranges"

lemma merge_loop_refines:
  assumes "m < c" "c \<le> length rs"
    and "fold (merge_step nxt) [c..<length rs] (rs, m) = (rs', m')"
  shows "take (m' + 1) rs' = take m rs @ merge_sorted nxt (rs ! m) (drop c rs)"
  using assms
proof (induction "length rs - c" arbitrary: c rs m)
  case 0
  then show ?case by (simp add: take_Suc_conv_app_nth)
next
  case (Suc k)
  then have c: "c < length rs" by simp
  have upt: "[c..<length rs] = c # [Suc c..<length rs]" using c by (simp add: upt_rec)
  have dropc: "drop c rs = rs ! c # drop (Suc c) rs" using c by (simp add: Cons_nth_drop_Suc)
  obtain rs1 m1 where st: "merge_step nxt c (rs, m) = (rs1, m1)" by fastforce
  have run: "fold (merge_step nxt) [Suc c..<length rs1] (rs1, m1) = (rs', m')"
    using Suc.prems(3) st by (simp add: upt merge_step_def Let_def split: if_splits) (auto)
  have len: "length rs1 = length rs" and m1: "m1 < Suc c"
    using st Suc.prems(1) by (auto simp: merge_step_def Let_def split: if_splits)
  have IH: "take (m' + 1) rs' = take m1 rs1 @ merge_sorted nxt (rs1 ! m1) (drop (Suc c) rs1)"
    by (rule Suc.hyps(1)) (use Suc.hyps(2) c len m1 run in auto)
  have "take m1 rs1 @ merge_sorted nxt (rs1 ! m1) (drop (Suc c) rs1) =
      take m rs @ merge_sorted nxt (rs ! m) (rs ! c # drop (Suc c) rs)"
  proof (cases "range_start (rs ! c) \<le> nxt (range_end (rs ! m))")
    case True
    with st Suc.prems(1) c show ?thesis by (auto simp: merge_step_def Let_def)
  next
    case False
    with st have eqs: "rs1 = rs[Suc m := rs ! c]" "m1 = Suc m"
      by (auto simp: merge_step_def Let_def)
    have "Suc m < length rs" using Suc.prems(1) c by simp
    then have "take (Suc m) (rs[Suc m := rs ! c]) = take m rs @ [rs ! m]"
      by (simp add: take_Suc_conv_app_nth)
    with eqs False Suc.prems(1) c \<open>Suc m < length rs\<close> show ?thesis by simp
  qed
  with IH dropc show ?case by simp
qed

lemma merge_ranges_eq:
  "merge_ranges nxt rs =
     (case sort_key (\<lambda>r. (range_start r, range_end r)) rs of
        [] \<Rightarrow> [] | p # ps \<Rightarrow> merge_sorted nxt p ps)"
proof (cases "sort_key (\<lambda>r. (range_start r, range_end r)) rs")
  case Nil
  then show ?thesis by (simp add: merge_ranges_def)
next
  case (Cons p ps)
  obtain rs' m' where run: "fold (merge_step nxt) [1..<length (p # ps)] (p # ps, 0) = (rs', m')"
    by fastforce
  have "take (m' + 1) rs' = merge_sorted nxt p ps"
    using merge_loop_refines [OF _ _ run] by simp
  with Cons run show ?thesis by (simp add: merge_ranges_def Let_def)
qed

text \<open>What \<^verbatim>\<open>merge_ranges\<close> and \<^verbatim>\<open>range_contains\<close> rely on of a \<^verbatim>\<open>RangeValue\<close>.\<close>

locale range_value =
  fixes next_saturating :: "'a::linorder \<Rightarrow> 'a"
  assumes next_ge: "x \<le> next_saturating x"
    and next_least: "x < y \<Longrightarrow> next_saturating x \<le> y"
begin

lemma covers_extend:
  assumes "range_start p \<le> range_start r" "range_start r \<le> next_saturating (range_end p)"
    and "range_start r \<le> range_end r"
  shows "range_start p \<le> v \<and> v \<le> max (range_end p) (range_end r) \<longleftrightarrow>
    (range_start p \<le> v \<and> v \<le> range_end p) \<or> (range_start r \<le> v \<and> v \<le> range_end r)"
  using assms next_least [of "range_end p" v]
  by (cases "range_end p < v") (auto simp: le_max_iff_disj)

lemma covers_merge_sorted:
  assumes "sorted (map range_start (p # rs))" "\<forall>r \<in> set (p # rs). range_start r \<le> range_end r"
  shows "covers (merge_sorted next_saturating p rs) v \<longleftrightarrow> covers (p # rs) v"
  using assms
proof (induction rs arbitrary: p)
  case Nil
  then show ?case by simp
next
  case (Cons r rs)
  show ?case
  proof (cases "range_start r \<le> next_saturating (range_end p)")
    case True
    let ?p = "p\<lparr>range_end := max (range_end p) (range_end r)\<rparr>"
    have "covers (merge_sorted next_saturating ?p rs) v \<longleftrightarrow> covers (?p # rs) v"
      using Cons.prems by (intro Cons.IH) (auto simp: le_max_iff_disj)
    also have "\<dots> \<longleftrightarrow> covers (p # r # rs) v"
      using Cons.prems True covers_extend [of p r v] by (simp add: covers_def)
    finally show ?thesis using True by simp
  next
    case False
    have "covers (merge_sorted next_saturating r rs) v \<longleftrightarrow> covers (r # rs) v"
      using Cons.prems by (intro Cons.IH) auto
    with False show ?thesis by (simp add: covers_def)
  qed
qed

lemma merge_sorted_start:
  "sorted (map range_start (p # rs)) \<Longrightarrow> x \<in> set (merge_sorted next_saturating p rs) \<Longrightarrow>
     range_start p \<le> range_start x"
  by (induction next_saturating p rs rule: merge_sorted.induct) (auto split: if_splits)

lemma canonical_merge_sorted:
  assumes "sorted (map range_start (p # rs))" "\<forall>r \<in> set (p # rs). range_start r \<le> range_end r"
  shows "canonical next_saturating (merge_sorted next_saturating p rs)"
  using assms
proof (induction rs arbitrary: p)
  case Nil
  then show ?case by (simp add: canonical_def)
next
  case (Cons r rs)
  show ?case
  proof (cases "range_start r \<le> next_saturating (range_end p)")
    case True
    then show ?thesis using Cons.prems
      by (simp, intro Cons.IH) (auto simp: le_max_iff_disj)
  next
    case False
    have "canonical next_saturating (merge_sorted next_saturating r rs)"
      using Cons.prems by (intro Cons.IH) auto
    moreover have "next_saturating (range_end p) < range_start x"
      if "x \<in> set (merge_sorted next_saturating r rs)" for x
      using that False Cons.prems merge_sorted_start [of r rs x] by fastforce
    ultimately show ?thesis using False Cons.prems by (simp add: canonical_def)
  qed
qed

lemma sorted_start_sort_key:
  "sorted (map range_start (sort_key (\<lambda>r. (range_start r, range_end r)) rs))"
proof -
  have "sorted_wrt (\<lambda>a b. (range_start a, range_end a) \<le> (range_start b, range_end b))
      (sort_key (\<lambda>r. (range_start r, range_end r)) rs)"
    using sorted_sort_key [of "\<lambda>r. (range_start r, range_end r)" rs] by (simp only: sorted_map)
  then show ?thesis
    unfolding sorted_map by (rule sorted_wrt_mono_rel [rotated]) (auto simp: less_eq_prod_def)
qed

lemma merge_ranges_correct:
  assumes "\<forall>r \<in> set rs. range_start r \<le> range_end r"
  shows "canonical next_saturating (merge_ranges next_saturating rs)"
    and "covers (merge_ranges next_saturating rs) v \<longleftrightarrow> covers rs v"
proof -
  let ?s = "sort_key (\<lambda>r. (range_start r, range_end r)) rs"
  have set: "set ?s = set rs" by simp
  have "canonical next_saturating (merge_ranges next_saturating rs) \<and>
      (covers (merge_ranges next_saturating rs) v \<longleftrightarrow> covers ?s v)"
  proof (cases ?s)
    case Nil
    then show ?thesis by (simp add: merge_ranges_eq canonical_def)
  next
    case (Cons p ps)
    then show ?thesis
      using assms sorted_start_sort_key [of rs] set
      by (simp add: merge_ranges_eq canonical_merge_sorted covers_merge_sorted)
  qed
  then show "canonical next_saturating (merge_ranges next_saturating rs)"
    and "covers (merge_ranges next_saturating rs) v \<longleftrightarrow> covers rs v"
    using set by (simp_all add: covers_def)
qed

lemma range_contains_canonical:
  assumes "canonical next_saturating ranges"
  shows "range_contains ranges v \<longleftrightarrow> covers ranges v"
  using assms
proof (induction ranges)
  case Nil
  then show ?case by (simp add: range_contains_def covers_def)
next
  case (Cons r rs)
  have IH: "range_contains rs v \<longleftrightarrow> covers rs v"
    using Cons by (simp add: canonical_def)
  have later: "range_end r < range_start x" if "x \<in> set rs" for x
    using Cons.prems that next_ge [of "range_end r"] by (auto simp: canonical_def)
  show ?case
  proof (cases "takeWhile (\<lambda>x. range_start x \<le> v) rs")
    case Nil
    then have "\<not> covers rs v" using IH by (simp add: range_contains_def)
    with Nil show ?thesis by (auto simp: range_contains_def covers_def Let_def)
  next
    case (Cons x xs)
    then have "x \<in> set rs" and "range_start x \<le> v"
      by (metis list.set_intros(1) set_takeWhileD)+
    then have gt: "\<not> v \<le> range_end r" and "range_start r \<le> v"
      using later [of x] Cons.prems by (auto simp: canonical_def)
    with Cons IH show ?thesis by (auto simp: range_contains_def covers_def Let_def)
  qed
qed

end

interpretation sat: range_value "saturating_succ :: 'a::len word \<Rightarrow> 'a word"
proof
  show "x \<le> saturating_succ x" for x :: "'a word"
    using inc_less_eq_self_iff_eq [of x] linear [of x "x + 1"] by (auto simp: saturating_succ_def)
  show "saturating_succ x \<le> y" if "x < y" for x y :: "'a word"
    using that by (auto simp: saturating_succ_def inc_le)
qed

section \<open>The index answers like a linear scan\<close>

definition v4_range :: "IpPrefix \<Rightarrow> u32 \<Rightarrow> u32 PrefixRange" where
  "v4_range p a =
     (let start = a AND prefix_mask_u32 (pfx_bits p)
      in \<lparr>range_start = start, range_end = start OR NOT (prefix_mask_u32 (pfx_bits p))\<rparr>)"

definition v6_range :: "IpPrefix \<Rightarrow> u128 \<Rightarrow> u128 PrefixRange" where
  "v6_range p a =
     (let start = a AND prefix_mask_u128 (pfx_bits p)
      in \<lparr>range_start = start, range_end = start OR NOT (prefix_mask_u128 (pfx_bits p))\<rparr>)"

lemma fold_index_push_ipv4:
  "idx_ipv4 (fold index_push ps ix) =
     idx_ipv4 ix @ concat (map (\<lambda>p. case pfx_addr p of V4 a \<Rightarrow> [v4_range p a] | V6 _ \<Rightarrow> []) ps)"
  by (induction ps arbitrary: ix) (auto simp: v4_range_def Let_def split: IpAddr.splits)

lemma fold_index_push_ipv6:
  "idx_ipv6 (fold index_push ps ix) =
     idx_ipv6 ix @ concat (map (\<lambda>p. case pfx_addr p of V4 _ \<Rightarrow> [] | V6 a \<Rightarrow> [v6_range p a]) ps)"
  by (induction ps arbitrary: ix) (auto simp: v6_range_def Let_def split: IpAddr.splits)

lemma prefix_mask_u32_eq:
  "bits \<le> 32 \<Longrightarrow> prefix_mask_u32 bits = NOT (mask (32 - unat bits))"
  by (auto simp: prefix_mask_u32_def push_bit_minus_one_eq_not_mask mask_eq_exp_minus_1)

lemma prefix_mask_u128_eq:
  "bits \<le> 128 \<Longrightarrow> prefix_mask_u128 bits = NOT (mask (128 - unat bits))"
  by (auto simp: prefix_mask_u128_def push_bit_minus_one_eq_not_mask mask_eq_exp_minus_1)

lemma v4_range_contains:
  assumes "prefix_ok p" "pfx_addr p = V4 x"
  shows "range_start (v4_range p x) \<le> range_end (v4_range p x)"
    and "range_start (v4_range p x) \<le> y \<and> y \<le> range_end (v4_range p x) \<longleftrightarrow> IpPrefix_contains p (V4 y)"
  using assms prefix_range_iff [of "32 - unat (pfx_bits p)" x y]
  by (simp_all add: v4_range_def Let_def le_word_or2 IpPrefix_contains_drop_bit prefix_ok_def
      max_prefix_bits_def prefix_mask_u32_eq)

lemma v6_range_contains:
  assumes "prefix_ok p" "pfx_addr p = V6 x"
  shows "range_start (v6_range p x) \<le> range_end (v6_range p x)"
    and "range_start (v6_range p x) \<le> y \<and> y \<le> range_end (v6_range p x) \<longleftrightarrow> IpPrefix_contains p (V6 y)"
  using assms prefix_range_iff [of "128 - unat (pfx_bits p)" x y]
  by (simp_all add: v6_range_def Let_def le_word_or2 IpPrefix_contains_drop_bit prefix_ok_def
      max_prefix_bits_def prefix_mask_u128_eq)

lemma IpRangeIndex_new_correct:
  assumes "list_all prefix_ok ps"
  shows "IpRangeIndex_contains (IpRangeIndex_new ps) a \<longleftrightarrow> list_ex (\<lambda>p. IpPrefix_contains p a) ps"
proof (cases a)
  case (V4 y)
  let ?rs = "concat (map (\<lambda>p. case pfx_addr p of V4 a \<Rightarrow> [v4_range p a] | V6 _ \<Rightarrow> []) ps)"
  have wf: "\<forall>r \<in> set ?rs. range_start r \<le> range_end r"
    using assms by (auto simp: list_all_iff v4_range_contains split: IpAddr.splits)
  have "range_contains (merge_ranges saturating_succ ?rs) y \<longleftrightarrow> covers ?rs y"
    using sat.merge_ranges_correct [OF wf] sat.range_contains_canonical by blast
  also have "\<dots> \<longleftrightarrow> list_ex (\<lambda>p. IpPrefix_contains p (V4 y)) ps"
    using assms
    by (induction ps) (auto simp: covers_def v4_range_contains IpPrefix_contains_def split: IpAddr.splits)
  finally show ?thesis by (simp add: V4 IpRangeIndex_new_def Let_def fold_index_push_ipv4)
next
  case (V6 y)
  let ?rs = "concat (map (\<lambda>p. case pfx_addr p of V4 _ \<Rightarrow> [] | V6 a \<Rightarrow> [v6_range p a]) ps)"
  have wf: "\<forall>r \<in> set ?rs. range_start r \<le> range_end r"
    using assms by (auto simp: list_all_iff v6_range_contains split: IpAddr.splits)
  have "range_contains (merge_ranges saturating_succ ?rs) y \<longleftrightarrow> covers ?rs y"
    using sat.merge_ranges_correct [OF wf] sat.range_contains_canonical by blast
  also have "\<dots> \<longleftrightarrow> list_ex (\<lambda>p. IpPrefix_contains p (V6 y)) ps"
    using assms
    by (induction ps) (auto simp: covers_def v6_range_contains IpPrefix_contains_def split: IpAddr.splits)
  finally show ?thesis by (simp add: V6 IpRangeIndex_new_def Let_def fold_index_push_ipv6)
qed

lemma SharedIpPrefixSet_contains_iff:
  "list_all prefix_ok ps \<Longrightarrow>
     SharedIpPrefixSet_contains (SharedIpPrefixSet_new ps) a \<longleftrightarrow> list_ex (\<lambda>p. IpPrefix_contains p a) ps"
  by (simp add: SharedIpPrefixSet_contains_def SharedIpPrefixSet_new_def
      IpPrefixLookup_for_prefixes_def IpRangeIndex_new_correct)

section \<open>Properties\<close>

text \<open>
  C18. A prefix set answers membership like a scan over its prefixes, whether it is small enough
  to be scanned or large enough to be indexed by merged ranges.
\<close>

theorem SharedIpPrefixSet_contains_any:
  assumes "list_all prefix_ok ps"
  shows "SharedIpPrefixSet_contains (SharedIpPrefixSet_new ps) a \<longleftrightarrow> (\<exists>p \<in> set ps. IpPrefix_contains p a)"
  using SharedIpPrefixSet_contains_iff [OF assms] by (simp add: list_ex_iff)

theorem SharedIpPrefixSet_contains_any_witness:
  "set_lookup (SharedIpPrefixSet_new
     (map (\<lambda>i. \<lparr>pfx_addr = V4 (word_of_nat (65536 * i)), pfx_bits = 16\<rparr>) [0..<64])) \<noteq> Linear \<and>
   SharedIpPrefixSet_contains (SharedIpPrefixSet_new
     (map (\<lambda>i. \<lparr>pfx_addr = V4 (word_of_nat (65536 * i)), pfx_bits = 16\<rparr>) [0..<64])) (V4 0x10203)"
proof -
  let ?ps = "map (\<lambda>i. \<lparr>pfx_addr = V4 (word_of_nat (65536 * i)), pfx_bits = 16\<rparr>) [0..<64]"
  have "list_all prefix_ok ?ps" by (simp add: prefix_ok_def max_prefix_bits_def list_all_iff)
  moreover have "IpPrefix_contains \<lparr>pfx_addr = V4 (word_of_nat (65536 * 1)), pfx_bits = 16\<rparr> (V4 0x10203)"
    by (simp add: IpPrefix_contains_def prefix_contains_def)
  moreover have "\<lparr>pfx_addr = V4 (word_of_nat (65536 * 1)), pfx_bits = 16\<rparr> \<in> set ?ps"
    unfolding set_map by (rule image_eqI [where x = 1]) simp_all
  ultimately have "SharedIpPrefixSet_contains (SharedIpPrefixSet_new ?ps) (V4 0x10203)"
    using SharedIpPrefixSet_contains_any [of ?ps "V4 0x10203"] by blast
  then show ?thesis
    by (simp add: SharedIpPrefixSet_new_def IpPrefixLookup_for_prefixes_def PREFIX_INDEX_MIN_PREFIXES_def)
qed

text \<open>
  C20. Merging non-empty ranges in place yields ranges in ascending order with a gap of at least
  one value between neighbours, covering exactly the values the input covers.
\<close>

theorem merge_ranges_canonical:
  fixes rs :: "'a::len word PrefixRange list"
  assumes "\<forall>r \<in> set rs. range_start r \<le> range_end r"
  shows "canonical saturating_succ (merge_ranges saturating_succ rs) \<and>
    covers (merge_ranges saturating_succ rs) = covers rs"
  using sat.merge_ranges_correct [OF assms] by blast

theorem merge_ranges_canonical_witness:
  "merge_ranges saturating_succ
     [\<lparr>range_start = 5 :: u32, range_end = 6\<rparr>, \<lparr>range_start = 1, range_end = 4\<rparr>] =
     [\<lparr>range_start = 1, range_end = 6\<rparr>] \<and>
   canonical saturating_succ (merge_ranges saturating_succ
     [\<lparr>range_start = 5 :: u32, range_end = 6\<rparr>, \<lparr>range_start = 1, range_end = 4\<rparr>])"
  using merge_ranges_canonical
    [of "[\<lparr>range_start = 5 :: u32, range_end = 6\<rparr>, \<lparr>range_start = 1, range_end = 4\<rparr>]"]
  by (simp add: merge_ranges_eq saturating_succ_def)

end
