(* ===== verification/Domain_Set.thy ===== *)
theory Domain_Set
  imports Ip_Prefix
begin

text \<open>
  \<^verbatim>\<open>dae-routing/src/domain.rs\<close>: domain pattern sets with their large-set indexes, and the
  bitmap of matching sets the routing matcher and the kernel's domain map consume.

  The crates \<^verbatim>\<open>regex\<close> and \<^verbatim>\<open>aho-corasick\<close> are not part of the repository.  They are the
  parameter \<open>engines\<close>: a compiled expression, expression set or automaton is the predicate its
  \<^verbatim>\<open>is_match\<close> computes, and the constructors may fail.  What the code relies on of them is
  \<open>engines_ok\<close>.
\<close>

section \<open>Domain sets\<close>

definition DOMAIN_SET_INDEX_MIN_PATTERNS :: nat where
  "DOMAIN_SET_INDEX_MIN_PATTERNS = 32"

datatype DomainKey = Full | Keyword | Suffix | Regex

definition DomainKey_try_from :: "string \<Rightarrow> (RoutingError, DomainKey) result" where
  "DomainKey_try_from v =
     (if v = ''full'' then Inr Full
      else if v = ''keyword'' then Inr Keyword
      else if v = ''suffix'' then Inr Suffix
      else if v = ''regex'' then Inr Regex
      else Inl (InvalidDomainKey v))"

type_synonym is_match = "string \<Rightarrow> bool"

record engines =
  regex_new :: "string \<Rightarrow> is_match option"
  regex_set_new :: "string list \<Rightarrow> is_match option"
  aho_corasick_new :: "string list \<Rightarrow> (string, is_match) result"

record SuffixDomainSetIndex =
  exact_or_subdomain :: "string set"
  subdomain_only :: "string set"

datatype SharedDomainSetIndex =
    FullIndex "string set"
  | KeywordIndex is_match
  | SuffixIndex SuffixDomainSetIndex
  | RegexIndex is_match

record SharedDomainSet =
  ds_key :: DomainKey
  ds_patterns :: "string list"
  ds_regex :: "is_match list"
  ds_index :: "SharedDomainSetIndex option"

definition normalize_pattern :: "string \<Rightarrow> string" where
  "normalize_pattern pattern = to_ascii_lowercase (trim_end_char (CHR ''.'') pattern)"

fun normalize_patterns :: "string list \<Rightarrow> DomainKey \<Rightarrow> string list" where
  "normalize_patterns patterns Full = map normalize_pattern patterns"
| "normalize_patterns patterns Keyword = map normalize_pattern patterns"
| "normalize_patterns patterns Suffix = map normalize_pattern patterns"
| "normalize_patterns patterns Regex = patterns"

definition normalize_query_domain :: "string \<Rightarrow> string" where
  "normalize_query_domain domain =
     (let trimmed = trim_end_char (CHR ''.'') domain
      in if list_ex is_ascii_uppercase trimmed then to_ascii_lowercase trimmed
         else if length trimmed = length domain then domain
         else trimmed)"

definition regex_vec :: "engines \<Rightarrow> string list \<Rightarrow> (RoutingError, is_match list) result" where
  "regex_vec E patterns =
     collect_results (\<lambda>pattern. ok_or (InvalidRegex pattern) (regex_new E pattern)) patterns"

definition regex_set :: "engines \<Rightarrow> string list \<Rightarrow> (RoutingError, is_match) result" where
  "regex_set E patterns =
     (case regex_set_new E patterns of
        Some rs \<Rightarrow> Inr rs
      | None \<Rightarrow>
          Inl (case find (\<lambda>pattern. regex_new E pattern = None) patterns of
                 Some pattern \<Rightarrow> InvalidRegex pattern
               | None \<Rightarrow> InvalidFixture ''invalid regex set''))"

definition SuffixDomainSetIndex_insert :: "string \<Rightarrow> SuffixDomainSetIndex \<Rightarrow> SuffixDomainSetIndex" where
  "SuffixDomainSetIndex_insert pattern ix =
     (case strip_prefix ''.'' pattern of
        Some stripped \<Rightarrow> ix\<lparr>subdomain_only := insert stripped (subdomain_only ix)\<rparr>
      | None \<Rightarrow> ix\<lparr>exact_or_subdomain := insert pattern (exact_or_subdomain ix)\<rparr>)"

definition SuffixDomainSetIndex_new :: "string list \<Rightarrow> SuffixDomainSetIndex" where
  "SuffixDomainSetIndex_new patterns =
     fold SuffixDomainSetIndex_insert patterns \<lparr>exact_or_subdomain = {}, subdomain_only = {}\<rparr>"

function suffix_index_loop :: "SuffixDomainSetIndex \<Rightarrow> string \<Rightarrow> bool \<Rightarrow> bool" where
  "suffix_index_loop ix candidate parent_suffix =
     (if candidate \<in> exact_or_subdomain ix \<or> (parent_suffix \<and> candidate \<in> subdomain_only ix) then True
      else case split_once (CHR ''.'') candidate of
             None \<Rightarrow> False
           | Some (_, next_label) \<Rightarrow> suffix_index_loop ix next_label True)"
  by pat_completeness auto
termination
  by (relation "measure (\<lambda>(ix, candidate, parent_suffix). length candidate)") (auto simp: split_once_Some)

declare suffix_index_loop.simps [simp del]

definition SuffixDomainSetIndex_matches :: "SuffixDomainSetIndex \<Rightarrow> string \<Rightarrow> bool" where
  "SuffixDomainSetIndex_matches ix domain = suffix_index_loop ix domain False"

definition SharedDomainSetIndex_new ::
    "engines \<Rightarrow> DomainKey \<Rightarrow> string list \<Rightarrow> (RoutingError, SharedDomainSetIndex option) result" where
  "SharedDomainSetIndex_new E key patterns =
     (if length patterns < DOMAIN_SET_INDEX_MIN_PATTERNS then Inr None
      else case key of
        Full \<Rightarrow> Inr (Some (FullIndex (set (map normalize_pattern patterns))))
      | Keyword \<Rightarrow>
          if list_ex (\<lambda>pattern. pattern = []) patterns then Inr None
          else map_err (\<lambda>err. InvalidFixture (''invalid keyword domain set index: '' @ err))
                 (map_result (\<lambda>ac. Some (KeywordIndex ac)) (aho_corasick_new E patterns))
      | Suffix \<Rightarrow> Inr (Some (SuffixIndex (SuffixDomainSetIndex_new patterns)))
      | Regex \<Rightarrow> map_result (\<lambda>rs. Some (RegexIndex rs)) (regex_set E patterns))"

fun SharedDomainSetIndex_matches :: "SharedDomainSetIndex \<Rightarrow> string \<Rightarrow> bool" where
  "SharedDomainSetIndex_matches (FullIndex index) domain = (domain \<in> index)"
| "SharedDomainSetIndex_matches (KeywordIndex index) domain = index domain"
| "SharedDomainSetIndex_matches (SuffixIndex index) domain = SuffixDomainSetIndex_matches index domain"
| "SharedDomainSetIndex_matches (RegexIndex regex) domain = regex domain"

definition SharedDomainSet_from_vec ::
    "engines \<Rightarrow> string list \<Rightarrow> DomainKey \<Rightarrow> (RoutingError, SharedDomainSet) result" where
  "SharedDomainSet_from_vec E raw_patterns key =
     (let patterns = normalize_patterns raw_patterns key
      in bind_result (if key = Regex then regex_vec E patterns else Inr []) (\<lambda>regex.
         bind_result (SharedDomainSetIndex_new E key patterns) (\<lambda>index.
           Inr \<lparr>ds_key = key, ds_patterns = patterns, ds_regex = regex, ds_index = index\<rparr>)))"

definition has_label_suffix :: "string \<Rightarrow> string \<Rightarrow> bool" where
  "has_label_suffix domain sfx \<longleftrightarrow>
     length domain > length sfx \<and> ends_with domain sfx \<and>
     domain ! (length domain - length sfx - 1) = CHR ''.''"

definition suffix_matches :: "string \<Rightarrow> string \<Rightarrow> bool" where
  "suffix_matches domain pattern =
     (case strip_prefix ''.'' pattern of
        Some stripped \<Rightarrow> has_label_suffix domain stripped
      | None \<Rightarrow> domain = pattern \<or> has_label_suffix domain pattern)"

fun linear_domain_set_matches :: "DomainKey \<Rightarrow> string \<Rightarrow> string list \<Rightarrow> is_match list \<Rightarrow> bool" where
  "linear_domain_set_matches Full domain patterns regex =
     list_ex (\<lambda>pattern. eq_ignore_ascii_case domain (trim_end_char (CHR ''.'') pattern)) patterns"
| "linear_domain_set_matches Keyword domain patterns regex =
     list_ex (\<lambda>pattern. str_contains domain pattern) patterns"
| "linear_domain_set_matches Suffix domain patterns regex =
     list_ex (\<lambda>pattern. suffix_matches domain pattern) patterns"
| "linear_domain_set_matches Regex domain patterns regex = list_ex (\<lambda>re. re domain) regex"

definition SharedDomainSet_matches :: "SharedDomainSet \<Rightarrow> string \<Rightarrow> bool" where
  "SharedDomainSet_matches s domain =
     (let domain = normalize_query_domain domain
      in case ds_index s of
           Some index \<Rightarrow> SharedDomainSetIndex_matches index domain
         | None \<Rightarrow> linear_domain_set_matches (ds_key s) domain (ds_patterns s) (ds_regex s))"

section \<open>The bitmap of matching sets\<close>

record DomainSet =
  bit_index :: nat
  set_data :: SharedDomainSet

record DomainMatcher =
  bit_length :: nat
  dm_sets :: "DomainSet list"

definition DomainMatcher_new :: "nat \<Rightarrow> DomainMatcher" where
  "DomainMatcher_new n = \<lparr>bit_length = n, dm_sets = []\<rparr>"

definition add_shared_set :: "nat \<Rightarrow> SharedDomainSet \<Rightarrow> DomainMatcher \<Rightarrow> DomainMatcher" where
  "add_shared_set i data m = m\<lparr>dm_sets := dm_sets m @ [\<lparr>bit_index = i, set_data = data\<rparr>]\<rparr>"

definition add_set ::
    "engines \<Rightarrow> nat \<Rightarrow> string list \<Rightarrow> DomainKey \<Rightarrow> DomainMatcher \<Rightarrow> (RoutingError, DomainMatcher) result" where
  "add_set E i patterns key m =
     map_result (\<lambda>data. add_shared_set i data m) (SharedDomainSet_from_vec E patterns key)"

definition bitmap_has :: "u32 list \<Rightarrow> nat \<Rightarrow> bool" where
  "bitmap_has bitmap i \<longleftrightarrow>
     i div 32 < length bitmap \<and> (drop_bit (i mod 32) (bitmap ! (i div 32))) AND 1 \<noteq> 0"

definition bitmap_set :: "u32 list \<Rightarrow> nat \<Rightarrow> u32 list" where
  "bitmap_set bitmap i = bitmap[i div 32 := (bitmap ! (i div 32)) OR push_bit (i mod 32) 1]"

definition bitmap_words :: "DomainMatcher \<Rightarrow> nat" where
  "bitmap_words m = (bit_length m + 31) div 32"

definition fill_bitmap_step :: "DomainMatcher \<Rightarrow> string \<Rightarrow> DomainSet \<Rightarrow> u32 list \<Rightarrow> u32 list" where
  "fill_bitmap_step m domain s bitmap =
     (if bit_index s \<ge> bit_length m \<or> bitmap_has bitmap (bit_index s) then bitmap
      else if SharedDomainSet_matches (set_data s) domain then bitmap_set bitmap (bit_index s)
      else bitmap)"

definition fill_bitmap :: "DomainMatcher \<Rightarrow> string \<Rightarrow> u32 list \<Rightarrow> u32 list" where
  "fill_bitmap m domain bitmap =
     fold (fill_bitmap_step m (normalize_query_domain domain)) (dm_sets m) bitmap"

definition match_domain_bitmap :: "DomainMatcher \<Rightarrow> string \<Rightarrow> u32 list" where
  "match_domain_bitmap m domain = fill_bitmap m domain (replicate (bitmap_words m) 0)"

text \<open>A buffer the caller owns is returned updated, next to the result.\<close>

definition fill_domain_bitmap ::
    "DomainMatcher \<Rightarrow> string \<Rightarrow> u32 list \<Rightarrow> u32 list \<times> (RoutingError, nat) result" where
  "fill_domain_bitmap m domain bitmap =
     (let words = bitmap_words m
      in if length bitmap < words
         then (bitmap, Inl (InvalidFixture
                 (''domain bitmap buffer too short: got '' @ show_nat (length bitmap) @
                  '', want '' @ show_nat words)))
         else (fill_bitmap m domain (replicate words 0) @ drop words bitmap, Inr words))"

definition match_domain_bitmap_into ::
    "DomainMatcher \<Rightarrow> string \<Rightarrow> u32 list \<Rightarrow> u32 list \<times> u32 list" where
  "match_domain_bitmap_into m domain bitmap =
     (case fill_domain_bitmap m domain bitmap of
        (bitmap', Inr words) \<Rightarrow> (bitmap', take words bitmap')
      | (bitmap', Inl _) \<Rightarrow> (bitmap', match_domain_bitmap m domain))"

section \<open>Normal forms\<close>

lemma normalize_query_domain_eq: "normalize_query_domain d = normalize_pattern d"
proof -
  have "to_ascii_lowercase t = t" if "\<not> list_ex is_ascii_uppercase t" for t
    using that by (intro lowercase_eq_self) (auto simp: list_ex_iff)
  then show ?thesis
    by (auto simp: normalize_query_domain_def normalize_pattern_def Let_def trim_end_char_length_eq)
qed

lemma normalize_pattern_idem [simp]: "normalize_pattern (normalize_pattern p) = normalize_pattern p"
  by (simp add: normalize_pattern_def lowercase_trim_dot)

lemma lowercase_normalize [simp]: "to_ascii_lowercase (normalize_pattern p) = normalize_pattern p"
  by (simp add: normalize_pattern_def)

lemma trim_normalize [simp]: "trim_end_char (CHR ''.'') (normalize_pattern p) = normalize_pattern p"
  by (simp add: normalize_pattern_def lowercase_trim_dot)

section \<open>The suffix index\<close>

lemma has_label_suffix_iff: "has_label_suffix d s \<longleftrightarrow> (\<exists>u. d = u @ CHR ''.'' # s)"
proof
  assume l: "has_label_suffix d s"
  then have "suffix s d" and len: "length s < length d"
    by (simp_all add: has_label_suffix_def ends_with_iff)
  then obtain w where w: "d = w @ s" by (auto elim: suffixE)
  with len have ne: "w \<noteq> []" by auto
  have "d ! (length d - length s - 1) = last w"
    unfolding w using ne by (simp add: last_conv_nth nth_append)
  with l have "last w = CHR ''.''" by (simp add: has_label_suffix_def)
  with ne obtain u where "w = u @ [CHR ''.'']" by (metis append_butlast_last_id)
  with w show "\<exists>u. d = u @ CHR ''.'' # s" by simp
next
  assume "\<exists>u. d = u @ CHR ''.'' # s"
  then obtain u where u: "d = u @ CHR ''.'' # s" by blast
  then have "d = (u @ [CHR ''.'']) @ s" by simp
  then have "suffix s d" by (rule suffixI)
  with u show "has_label_suffix d s" by (simp add: has_label_suffix_def ends_with_iff)
qed

lemma label_suffix_cases:
  assumes "split_once (CHR ''.'') d = Some (a, b)"
  shows "has_label_suffix d s \<longleftrightarrow> b = s \<or> has_label_suffix b s"
  unfolding has_label_suffix_iff
proof -
  from assms have d: "d = a @ CHR ''.'' # b" and na: "CHR ''.'' \<notin> set a"
    by (simp_all add: split_once_Some)
  show "(\<exists>u. d = u @ CHR ''.'' # s) \<longleftrightarrow> b = s \<or> (\<exists>u. b = u @ CHR ''.'' # s)"
  proof
    assume "\<exists>u. d = u @ CHR ''.'' # s"
    then obtain u where "a @ CHR ''.'' # b = u @ CHR ''.'' # s" using d by auto
    then obtain us where "a = u @ us \<and> us @ CHR ''.'' # b = CHR ''.'' # s \<or>
        a @ us = u \<and> CHR ''.'' # b = us @ CHR ''.'' # s"
      unfolding append_eq_append_conv2 by blast
    with na show "b = s \<or> (\<exists>u. b = u @ CHR ''.'' # s)" by (cases us) auto
  next
    assume "b = s \<or> (\<exists>u. b = u @ CHR ''.'' # s)"
    then show "\<exists>u. d = u @ CHR ''.'' # s"
    proof
      assume "b = s"
      with d show ?thesis by blast
    next
      assume "\<exists>u. b = u @ CHR ''.'' # s"
      then obtain u where "b = u @ CHR ''.'' # s" by blast
      with d have "d = (a @ CHR ''.'' # u) @ CHR ''.'' # s" by simp
      then show ?thesis by blast
    qed
  qed
qed

lemma suffix_index_loop_iff:
  "suffix_index_loop ix d parent \<longleftrightarrow>
     d \<in> exact_or_subdomain ix \<or> (parent \<and> d \<in> subdomain_only ix) \<or>
     (\<exists>s \<in> exact_or_subdomain ix \<union> subdomain_only ix. has_label_suffix d s)"
proof (induction ix d parent rule: suffix_index_loop.induct)
  case (1 ix d parent)
  show ?case
  proof (cases "split_once (CHR ''.'') d")
    case None
    then have "\<not> has_label_suffix d s" for s by (auto simp: split_once_None has_label_suffix_iff)
    with None show ?thesis by (subst suffix_index_loop.simps) simp
  next
    case (Some ab)
    then obtain a b where ab: "split_once (CHR ''.'') d = Some (a, b)" by (cases ab) auto
    show ?thesis
    proof (cases "d \<in> exact_or_subdomain ix \<or> (parent \<and> d \<in> subdomain_only ix)")
      case True
      then show ?thesis by (subst suffix_index_loop.simps) (simp, blast)
    next
      case False
      then have "suffix_index_loop ix d parent = suffix_index_loop ix b True"
        using ab by (subst suffix_index_loop.simps) (simp, blast)
      also have "\<dots> \<longleftrightarrow> b \<in> exact_or_subdomain ix \<union> subdomain_only ix \<or>
          (\<exists>s \<in> exact_or_subdomain ix \<union> subdomain_only ix. has_label_suffix b s)"
        using 1 [OF False ab refl] by simp
      finally show ?thesis using False unfolding label_suffix_cases [OF ab] by blast
    qed
  qed
qed

lemma SuffixDomainSetIndex_fold:
  "exact_or_subdomain (fold SuffixDomainSetIndex_insert ps ix) =
     exact_or_subdomain ix \<union> {p \<in> set ps. strip_prefix ''.'' p = None}"
  "subdomain_only (fold SuffixDomainSetIndex_insert ps ix) =
     subdomain_only ix \<union> {s. \<exists>p \<in> set ps. strip_prefix ''.'' p = Some s}"
  by (induction ps arbitrary: ix)
    (auto simp: SuffixDomainSetIndex_insert_def split: option.splits)

lemma suffix_matches_split:
  "suffix_matches d p \<longleftrightarrow>
     (strip_prefix ''.'' p = None \<and> (d = p \<or> has_label_suffix d p)) \<or>
     (\<exists>s. strip_prefix ''.'' p = Some s \<and> has_label_suffix d s)"
  by (simp add: suffix_matches_def split: option.split)

lemma SuffixDomainSetIndex_matches_iff:
  "SuffixDomainSetIndex_matches (SuffixDomainSetIndex_new ps) d \<longleftrightarrow> list_ex (suffix_matches d) ps"
  unfolding SuffixDomainSetIndex_matches_def SuffixDomainSetIndex_new_def suffix_index_loop_iff
    SuffixDomainSetIndex_fold list_ex_iff suffix_matches_split
  by (simp only: SuffixDomainSetIndex.simps Un_empty_left simp_thms) blast

section \<open>Indexed and linear matching agree\<close>

text \<open>
  The documented contract of the engines: an automaton reports whether one of its non-empty
  patterns occurs in the text, and an expression set compiles only if each of its expressions
  does and matches if one of them does.
\<close>

definition engines_ok :: "engines \<Rightarrow> bool" where
  "engines_ok E \<longleftrightarrow>
     (\<forall>ps ac d. aho_corasick_new E ps = Inr ac \<longrightarrow> [] \<notin> set ps \<longrightarrow>
        ac d = list_ex (str_contains d) ps) \<and>
     (\<forall>ps rs d. regex_set_new E ps = Some rs \<longrightarrow>
        rs d = list_ex (\<lambda>p. case regex_new E p of Some re \<Rightarrow> re d | None \<Rightarrow> False) ps)"

text \<open>What a pattern of each kind means, on a normalised domain.\<close>

fun pattern_matches :: "engines \<Rightarrow> DomainKey \<Rightarrow> string \<Rightarrow> string \<Rightarrow> bool" where
  "pattern_matches E Full p d \<longleftrightarrow> d = normalize_pattern p"
| "pattern_matches E Keyword p d \<longleftrightarrow> (\<exists>u v. d = u @ normalize_pattern p @ v)"
| "pattern_matches E Suffix p d \<longleftrightarrow>
     (case strip_prefix ''.'' (normalize_pattern p) of
        Some s \<Rightarrow> (\<exists>u. d = u @ CHR ''.'' # s)
      | None \<Rightarrow> d = normalize_pattern p \<or> (\<exists>u. d = u @ CHR ''.'' # normalize_pattern p))"
| "pattern_matches E Regex p d \<longleftrightarrow> (\<exists>re. regex_new E p = Some re \<and> re d)"

lemma from_vec_fields:
  assumes "SharedDomainSet_from_vec E raw key = Inr s"
  shows "ds_key s = key" "ds_patterns s = normalize_patterns raw key"
    "SharedDomainSetIndex_new E key (normalize_patterns raw key) = Inr (ds_index s)"
    "key = Regex \<Longrightarrow> list_all2 (\<lambda>p re. regex_new E p = Some re) raw (ds_regex s)"
  using assms by (auto simp: SharedDomainSet_from_vec_def Let_def bind_result_Inr regex_vec_def
      collect_results_Inr ok_or_Inr)

lemma linear_matches_iff:
  assumes "SharedDomainSet_from_vec E raw key = Inr s"
  shows "linear_domain_set_matches key (normalize_pattern d) (ds_patterns s) (ds_regex s) \<longleftrightarrow>
    (\<exists>p \<in> set raw. pattern_matches E key p (normalize_pattern d))"
proof (cases key)
  case Regex
  from from_vec_fields(4) [OF assms Regex] show ?thesis
    unfolding Regex by (induction rule: list_all2_induct) auto
qed (simp_all add: from_vec_fields(2) [OF assms] list_ex_iff eq_ignore_ascii_case_def
      str_contains_iff suffix_matches_def has_label_suffix_iff cong: option.case_cong)

lemma index_matches_linear:
  assumes "engines_ok E" "SharedDomainSet_from_vec E raw key = Inr s" "ds_index s = Some ix"
  shows "SharedDomainSetIndex_matches ix (normalize_pattern d) \<longleftrightarrow>
    linear_domain_set_matches key (normalize_pattern d) (ds_patterns s) (ds_regex s)"
proof -
  let ?ps = "normalize_patterns raw key"
  note s = from_vec_fields(2) [OF assms(2)] and ix = from_vec_fields(3) [OF assms(2)]
  have len: "\<not> length ?ps < DOMAIN_SET_INDEX_MIN_PATTERNS"
    using ix assms(3) by (auto simp: SharedDomainSetIndex_new_def split: if_splits)
  show ?thesis
  proof (cases key)
    case Full
    with ix len assms(3) s show ?thesis
      by (auto simp: SharedDomainSetIndex_new_def list_ex_iff eq_ignore_ascii_case_def)
  next
    case Keyword
    with ix len assms(3) obtain ac where ac: "ix = KeywordIndex ac"
      "aho_corasick_new E ?ps = Inr ac" "[] \<notin> set ?ps"
      by (auto simp: SharedDomainSetIndex_new_def list_ex_iff map_err_Inr map_result_Inr split: if_splits)
    then show ?thesis using assms(1) s Keyword by (simp add: engines_ok_def)
  next
    case Suffix
    with ix len assms(3) s show ?thesis
      by (auto simp: SharedDomainSetIndex_new_def SuffixDomainSetIndex_matches_iff)
  next
    case Regex
    with ix len assms(3) obtain rs where rs: "ix = RegexIndex rs" "regex_set_new E ?ps = Some rs"
      by (auto simp: SharedDomainSetIndex_new_def regex_set_def map_result_Inr split: option.splits)
    then have "rs (normalize_pattern d) \<longleftrightarrow>
        list_ex (\<lambda>p. case regex_new E p of Some re \<Rightarrow> re (normalize_pattern d) | None \<Rightarrow> False) raw"
      using assms(1) Regex by (simp add: engines_ok_def)
    also have "\<dots> \<longleftrightarrow> (\<exists>p \<in> set raw. pattern_matches E key p (normalize_pattern d))"
      unfolding Regex by (induction raw) (auto split: option.splits)
    finally have "rs (normalize_pattern d) \<longleftrightarrow>
        (\<exists>p \<in> set raw. pattern_matches E key p (normalize_pattern d))" .
    with rs linear_matches_iff [OF assms(2)] show ?thesis by simp
  qed
qed

lemma SharedDomainSet_matches_iff:
  assumes "engines_ok E" "SharedDomainSet_from_vec E raw key = Inr s"
  shows "SharedDomainSet_matches s d \<longleftrightarrow> (\<exists>p \<in> set raw. pattern_matches E key p (normalize_pattern d))"
  using assms from_vec_fields(1) [OF assms(2)]
  by (simp add: SharedDomainSet_matches_def normalize_query_domain_eq index_matches_linear
      linear_matches_iff Let_def split: option.split)

lemma SharedDomainSet_matches_normalize:
  "SharedDomainSet_matches s (normalize_pattern d) = SharedDomainSet_matches s d"
  by (simp add: SharedDomainSet_matches_def normalize_query_domain_eq)

section \<open>Bitmaps\<close>

lemma bitmap_has_bit: "bitmap_has b i \<longleftrightarrow> i div 32 < length b \<and> bit (b ! (i div 32)) (i mod 32)"
  by (auto simp: bitmap_has_def bit_iff_odd_drop_bit and_one_eq odd_iff_mod_2_eq_one)

lemma length_bitmap_set [simp]: "length (bitmap_set b i) = length b"
  by (simp add: bitmap_set_def)

lemma bitmap_has_set:
  assumes "i div 32 < length b"
  shows "bitmap_has (bitmap_set b i) j \<longleftrightarrow> j = i \<or> bitmap_has b j"
proof (cases "j div 32 = i div 32")
  case True
  have "j mod 32 < 32" "i mod 32 < 32" by simp_all
  moreover have "j = i \<longleftrightarrow> j mod 32 = i mod 32" using True by (metis div_mult_mod_eq)
  ultimately show ?thesis using True assms
    by (auto simp: bitmap_has_bit bitmap_set_def bit_simps)
next
  case False
  then show ?thesis by (auto simp: bitmap_has_bit bitmap_set_def)
qed

lemma bit_word_in_range:
  "i < bit_length m \<Longrightarrow> length b = bitmap_words m \<Longrightarrow> i div 32 < length b"
  by (simp add: bitmap_words_def)

lemma length_fill_bitmap_step [simp]: "length (fill_bitmap_step m d s b) = length b"
  by (simp add: fill_bitmap_step_def)

lemma length_fold_fill [simp]: "length (fold (fill_bitmap_step m d) ss b) = length b"
  by (induction ss arbitrary: b) simp_all

lemma fold_fill_bitmap:
  assumes "length b = bitmap_words m"
  shows "bitmap_has (fold (fill_bitmap_step m d) ss b) i \<longleftrightarrow>
    bitmap_has b i \<or> (i < bit_length m \<and>
      (\<exists>s \<in> set ss. bit_index s = i \<and> SharedDomainSet_matches (set_data s) d))"
  using assms
proof (induction ss arbitrary: b)
  case (Cons s ss)
  let ?hit = "bit_index s < bit_length m \<and> SharedDomainSet_matches (set_data s) d"
  have step: "bitmap_has (fill_bitmap_step m d s b) i \<longleftrightarrow> bitmap_has b i \<or> (bit_index s = i \<and> ?hit)"
  proof (cases "?hit \<and> \<not> bitmap_has b (bit_index s)")
    case True
    then have "bit_index s div 32 < length b" using bit_word_in_range Cons.prems by blast
    with True show ?thesis by (simp add: fill_bitmap_step_def bitmap_has_set) blast
  next
    case False
    then have "fill_bitmap_step m d s b = b \<and> (?hit \<longrightarrow> bitmap_has b (bit_index s))"
      by (auto simp: fill_bitmap_step_def)
    then show ?thesis by (metis (no_types))
  qed
  have "bitmap_has (fold (fill_bitmap_step m d) ss (fill_bitmap_step m d s b)) i \<longleftrightarrow>
      bitmap_has (fill_bitmap_step m d s b) i \<or> (i < bit_length m \<and>
        (\<exists>s \<in> set ss. bit_index s = i \<and> SharedDomainSet_matches (set_data s) d))"
    by (rule Cons.IH) (simp add: Cons.prems)
  then show ?case unfolding step by simp blast
qed simp

lemma bitmap_has_zero [simp]: "\<not> bitmap_has (replicate n 0) i"
  by (auto simp: bitmap_has_bit)

lemma match_domain_bitmap_bit:
  "bitmap_has (match_domain_bitmap m d) i \<longleftrightarrow>
     i < bit_length m \<and> (\<exists>s \<in> set (dm_sets m). bit_index s = i \<and> SharedDomainSet_matches (set_data s) d)"
  by (simp add: match_domain_bitmap_def fill_bitmap_def fold_fill_bitmap
      normalize_query_domain_eq SharedDomainSet_matches_normalize)

section \<open>Properties\<close>

text \<open>Engines that read every regular expression as a literal text.\<close>

definition literal_engines :: engines where
  "literal_engines =
     \<lparr>regex_new = (\<lambda>p. Some (\<lambda>d. str_contains d p)),
      regex_set_new = (\<lambda>ps. Some (\<lambda>d. list_ex (str_contains d) ps)),
      aho_corasick_new = (\<lambda>ps. Inr (\<lambda>d. list_ex (str_contains d) ps))\<rparr>"

lemma literal_engines_ok: "engines_ok literal_engines"
  by (auto simp: engines_ok_def literal_engines_def)

text \<open>
  C19. A domain set matches a domain exactly when one of the configured patterns does, by the
  meaning of its kind on the normalised domain (full name, substring, label suffix, regular
  expression), whether the set is scanned or answered by an index.
\<close>

theorem domain_set_matches_patterns:
  assumes "engines_ok E" and "SharedDomainSet_from_vec E raw key = Inr s"
  shows "SharedDomainSet_matches s d \<longleftrightarrow> (\<exists>p \<in> set raw. pattern_matches E key p (normalize_pattern d))"
  by (rule SharedDomainSet_matches_iff [OF assms])

theorem domain_set_matches_patterns_witness:
  "\<exists>s. SharedDomainSet_from_vec literal_engines (replicate 31 ''com'' @ [''Example.com.'']) Suffix = Inr s \<and>
    ds_index s \<noteq> None \<and> SharedDomainSet_matches s ''WWW.example.com''"
proof -
  let ?raw = "replicate 31 ''com'' @ [''Example.com.'']"
  obtain s where s: "SharedDomainSet_from_vec literal_engines ?raw Suffix = Inr s" and "ds_index s \<noteq> None"
    by (simp add: SharedDomainSet_from_vec_def SharedDomainSetIndex_new_def DOMAIN_SET_INDEX_MIN_PATTERNS_def Let_def)
  have n: "normalize_pattern ''WWW.example.com'' = ''www'' @ CHR ''.'' # ''example.com''"
    "normalize_pattern ''Example.com.'' = ''example.com''"
    by code_simp+
  have "pattern_matches literal_engines Suffix ''Example.com.'' (normalize_pattern ''WWW.example.com'')"
    unfolding pattern_matches.simps n by (simp only: strip_prefix.simps option.case char.inject) auto
  then have "SharedDomainSet_matches s ''WWW.example.com''"
    using domain_set_matches_patterns [OF literal_engines_ok s] by auto
  with s \<open>ds_index s \<noteq> None\<close> show ?thesis by blast
qed

text \<open>
  C22. Bit \<^verbatim>\<open>i\<close> of the domain bitmap is set exactly when \<^verbatim>\<open>i\<close> is below the bit length and some set
  registered under \<^verbatim>\<open>i\<close> matches; no other bit of the buffer is ever set.
\<close>

theorem match_domain_bitmap_bits:
  "bitmap_has (match_domain_bitmap m d) i \<longleftrightarrow>
     i < bit_length m \<and> (\<exists>s \<in> set (dm_sets m). bit_index s = i \<and> SharedDomainSet_matches (set_data s) d)"
  by (rule match_domain_bitmap_bit)

text \<open>
  C23. Reusing a buffer gives the bitmap of a fresh one, whatever the buffer held before and
  however short it is; a long buffer keeps its words behind the bitmap.
\<close>

theorem match_domain_bitmap_into_fresh:
  "match_domain_bitmap_into m d buf =
     (if length buf < bitmap_words m then buf else match_domain_bitmap m d @ drop (bitmap_words m) buf,
      match_domain_bitmap m d)"
  by (auto simp: match_domain_bitmap_into_def fill_domain_bitmap_def match_domain_bitmap_def Let_def
      fill_bitmap_def)

end
