(* ===== verification/Byte_Order.thy ===== *)
theory Byte_Order
  imports Ip_Prefix
begin

text \<open>
  Octet views of machine integers: \<^verbatim>\<open>to_be_bytes\<close>, \<^verbatim>\<open>from_be_bytes\<close>, \<^verbatim>\<open>from_ne_bytes\<close> and
  \<^verbatim>\<open>to_ne_bytes\<close>.  The native order of the supported targets is little endian.  The leading
  bits of a word agree with the leading bits of its big-endian octets, which connects
  address words with the keys of longest-prefix-match maps.
\<close>

definition str_bytes :: "string \<Rightarrow> bytes" where
  "str_bytes s = map of_char s"

definition bytes_str :: "bytes \<Rightarrow> string" where
  "bytes_str bs = map (\<lambda>b. char_of (unat b)) bs"

definition be_word :: "bytes \<Rightarrow> 'a::len word" where
  "be_word bs = foldl (\<lambda>acc b. push_bit 8 acc OR ucast b) 0 bs"

definition le_word :: "bytes \<Rightarrow> 'a::len word" where
  "le_word bs = be_word (rev bs)"

definition le_bytes :: "nat \<Rightarrow> 'a::len word \<Rightarrow> bytes" where
  "le_bytes n w = map (\<lambda>i. ucast (drop_bit (8 * i) w)) [0..<n]"

definition be_bytes :: "nat \<Rightarrow> 'a::len word \<Rightarrow> bytes" where
  "be_bytes n w = rev (le_bytes n w)"

lemma of_char_word: "(of_char c :: 'a::len word) = word_of_nat (of_char c)"
  by (rule of_nat_of_char [symmetric])

lemma unat_of_char: "unat (of_char c :: u8) = of_char c"
proof -
  have "(of_char c :: nat) = of_char c mod 256" by (metis char_of_char of_char_of)
  then have "(of_char c :: nat) < 256" by simp
  then show ?thesis by (simp add: of_char_word unat_of_nat)
qed

lemma bytes_str_bytes [simp]: "bytes_str (str_bytes s) = s"
  by (simp add: bytes_str_def str_bytes_def comp_def unat_of_char)

lemma str_bytes_str [simp]: "str_bytes (bytes_str bs) = bs"
proof -
  have "of_char (char_of (unat b) :: char) = b" for b :: u8
    using unsigned_less [of b, where 'a = nat] by (simp add: of_char_word)
  then show ?thesis by (simp add: bytes_str_def str_bytes_def comp_def map_idI)
qed

lemma length_str_bytes [simp]: "length (str_bytes s) = length s"
  by (simp add: str_bytes_def)

section \<open>Bits of octet strings\<close>

lemma bit_le_word_snoc:
  "bit (be_word (bs @ [b]) :: 'a::len word) i \<longleftrightarrow>
     i < LENGTH('a) \<and> (if i < 8 then bit b i else bit (be_word bs :: 'a word) (i - 8))"
proof -
  have "bit b i \<Longrightarrow> i < 8" by (auto dest: bit_imp_le_length)
  then show ?thesis by (auto simp: be_word_def bit_simps)
qed

lemma bit_be_word:
  "bit (be_word bs :: 'a::len word) i \<longleftrightarrow>
     i < LENGTH('a) \<and> i div 8 < length bs \<and> bit (rev bs ! (i div 8)) (i mod 8)"
proof (induction bs arbitrary: i rule: rev_induct)
  case Nil
  then show ?case by (simp add: be_word_def)
next
  case (snoc b bs)
  show ?case
  proof (cases "i < 8")
    case True
    then show ?thesis by (simp add: bit_le_word_snoc)
  next
    case False
    then have "i div 8 = Suc ((i - 8) div 8)" "(i - 8) mod 8 = i mod 8"
      by (simp_all add: le_div_geq le_mod_geq)
    with False show ?thesis by (auto simp: bit_le_word_snoc snoc.IH)
  qed
qed

lemma bit_le_word:
  "bit (le_word bs :: 'a::len word) i \<longleftrightarrow>
     i < LENGTH('a) \<and> i div 8 < length bs \<and> bit (bs ! (i div 8)) (i mod 8)"
  by (simp add: le_word_def bit_be_word)

lemma le_bytes_le_word:
  assumes "LENGTH('a) = 8 * length bs"
  shows "le_bytes (length bs) (le_word bs :: 'a::len word) = bs"
proof (rule nth_equalityI)
  fix i assume "i < length (le_bytes (length bs) (le_word bs :: 'a word))"
  then have i: "i < length bs" by (simp add: le_bytes_def)
  have "ucast (drop_bit (8 * i) (le_word bs :: 'a word)) = bs ! i"
  proof (rule bit_word_eqI)
    fix j assume "j < LENGTH(8)"
    then have j: "j < 8" by simp
    with i assms show "bit (ucast (drop_bit (8 * i) (le_word bs :: 'a word)) :: u8) j = bit (bs ! i) j"
      by (auto simp: bit_simps bit_le_word)
  qed
  with i show "le_bytes (length bs) (le_word bs :: 'a word) ! i = bs ! i" by (simp add: le_bytes_def)
qed (simp add: le_bytes_def)

lemma le_word_le_bytes:
  assumes "LENGTH('a) = 8 * n"
  shows "le_word (le_bytes n w) = (w :: 'a::len word)"
proof (rule bit_word_eqI)
  fix i assume "i < LENGTH('a)"
  with assms have "i div 8 < n" by simp
  moreover have "8 * (i div 8) + i mod 8 = i" by simp
  ultimately show "bit (le_word (le_bytes n w) :: 'a word) i = bit w i"
    using \<open>i < LENGTH('a)\<close> by (simp add: bit_le_word le_bytes_def bit_simps)
qed

lemma length_le_bytes [simp]: "length (le_bytes n w) = n"
  by (simp add: le_bytes_def)

lemma length_be_bytes [simp]: "length (be_bytes n w) = n"
  by (simp add: be_bytes_def)

lemma be_bytes_be_word:
  assumes "LENGTH('a) = 8 * length bs"
  shows "be_bytes (length bs) (be_word bs :: 'a::len word) = bs"
  using le_bytes_le_word [of "rev bs", where 'a = 'a] assms
  by (simp add: be_bytes_def le_word_def)

lemma be_word_be_bytes:
  assumes "LENGTH('a) = 8 * n"
  shows "be_word (be_bytes n w) = (w :: 'a::len word)"
  using le_word_le_bytes [OF assms, of w] by (simp add: be_bytes_def le_word_def)

definition octet_bits :: "bytes \<Rightarrow> bool list" where
  "octet_bits bs = concat (map word_bits_be bs)"

lemma octet_bits_append: "octet_bits (xs @ ys) = octet_bits xs @ octet_bits ys"
  by (simp add: octet_bits_def)

lemma length_octet_bits [simp]: "length (octet_bits bs) = 8 * length bs"
  by (induction bs) (simp_all add: octet_bits_def)

lemma nth_octet_bits:
  "i < 8 * length bs \<Longrightarrow> octet_bits bs ! i = bit (bs ! (i div 8)) (7 - i mod 8)"
proof (induction bs arbitrary: i)
  case (Cons b bs)
  show ?case
  proof (cases "i < 8")
    case True
    then show ?thesis by (simp add: octet_bits_def nth_append)
  next
    case False
    then have "i div 8 = Suc ((i - 8) div 8)" "(i - 8) mod 8 = i mod 8"
      by (simp_all add: le_div_geq le_mod_geq)
    moreover have "octet_bits bs ! (i - 8) = bit (bs ! ((i - 8) div 8)) (7 - (i - 8) mod 8)"
      using False Cons.prems by (intro Cons.IH) simp
    ultimately show ?thesis using False by (simp add: octet_bits_def nth_append)
  qed
qed simp

lemma mirror_octet:
  fixes i n :: nat
  assumes "i < 8 * n"
  shows "(8 * n - 1 - i) div 8 = n - 1 - i div 8" and "(8 * n - 1 - i) mod 8 = 7 - i mod 8"
proof -
  define q r where "q = i div 8" and "r = i mod 8"
  have i: "i = 8 * q + r" and r: "r < 8" by (simp_all add: q_def r_def)
  have q: "q < n" using assms q_def by simp
  have "8 * n - 1 - i = 8 * (n - 1 - q) + (7 - r)" using i r q by linarith
  moreover have "(8 * k + s) div 8 = k" "(8 * k + s) mod 8 = s" if "s < 8" for k s :: nat
    using that by simp_all
  moreover have "7 - r < 8" by simp
  ultimately show "(8 * n - 1 - i) div 8 = n - 1 - i div 8" "(8 * n - 1 - i) mod 8 = 7 - i mod 8"
    unfolding q_def [symmetric] r_def [symmetric] by metis+
qed

lemma word_bits_be_be_word:
  assumes "LENGTH('a) = 8 * length bs"
  shows "word_bits_be (be_word bs :: 'a::len word) = octet_bits bs"
proof (rule nth_equalityI)
  fix i assume "i < length (word_bits_be (be_word bs :: 'a word))"
  then have i: "i < 8 * length bs" using assms by simp
  let ?j = "8 * length bs - 1 - i"
  note d = mirror_octet(1) [OF i] and m = mirror_octet(2) [OF i]
  have "0 < length bs" using i by (cases bs) simp_all
  have "rev bs ! (length bs - 1 - i div 8) = bs ! (i div 8)"
    using i by (simp add: rev_nth)
  then show "word_bits_be (be_word bs :: 'a word) ! i = octet_bits bs ! i"
    using i assms d m \<open>0 < length bs\<close> by (simp add: bit_be_word nth_octet_bits)
qed (simp add: assms)

lemma octet_bits_be_bytes:
  assumes "LENGTH('a) = 8 * n"
  shows "octet_bits (be_bytes n w) = word_bits_be (w :: 'a::len word)"
  using word_bits_be_be_word [of "be_bytes n w", where 'a = 'a] assms
  by (simp add: be_word_be_bytes)

end
