(* ===== verification/Routing_Matcher.thy ===== *)
theory Routing_Matcher
  imports Rule_Semantics Ip_Index Domain_Set Byte_Order
begin

text \<open>
  \<^verbatim>\<open>dae-routing/src/userspace\<close>: the userspace routing matcher.  A \<open>Query\<close> is matched against a
  flat list of match sets; the domain predicates are answered by the bitmap of
  \<^verbatim>\<open>Domain_Set\<close>, the address predicates by the prefix sets of \<^verbatim>\<open>Ip_Index\<close>.  The loader of golden
  JSON fixtures is modelled up to its access to \<^verbatim>\<open>serde_json\<close> values.
\<close>

section \<open>Queries\<close>

definition L4_TCP :: u8 where "L4_TCP = 1"
definition L4_UDP :: u8 where "L4_UDP = 2"
definition IP_VERSION_4 :: u8 where "IP_VERSION_4 = 1"
definition IP_VERSION_6 :: u8 where "IP_VERSION_6 = 2"

record Query =
  q_source :: "IpAddr option"
  q_dest :: IpAddr
  q_source_port :: "u16 option"
  q_dest_port :: u16
  q_ip_version :: "u8 option"
  q_l4proto :: "u8 option"
  q_domain :: string
  q_process_name :: "string option"
  q_dscp :: "u8 option"
  q_mac :: "bytes option"

definition Query_default :: Query where
  "Query_default =
     \<lparr>q_source = None, q_dest = V4 0, q_source_port = None, q_dest_port = 0, q_ip_version = None,
      q_l4proto = None, q_domain = [], q_process_name = None, q_dscp = None, q_mac = None\<rparr>"

definition Query_tcp :: "IpAddr \<Rightarrow> u16 \<Rightarrow> string \<Rightarrow> Query" where
  "Query_tcp dest port domain =
     Query_default\<lparr>q_dest := dest, q_dest_port := port, q_l4proto := Some L4_TCP, q_domain := domain\<rparr>"

definition Query_udp :: "IpAddr \<Rightarrow> u16 \<Rightarrow> string \<Rightarrow> Query" where
  "Query_udp dest port domain =
     Query_default\<lparr>q_dest := dest, q_dest_port := port, q_l4proto := Some L4_UDP, q_domain := domain\<rparr>"

definition effective_ip_version :: "Query \<Rightarrow> u8" where
  "effective_ip_version q =
     (case q_ip_version q of
        Some v \<Rightarrow> v
      | None \<Rightarrow> if is_ipv4 (q_dest q) then IP_VERSION_4 else IP_VERSION_6)"

text \<open>A name in a fixed 16-byte field: cut off at 16 bytes, padded with zeroes.\<close>

definition process_name_bytes :: "string \<Rightarrow> bytes" where
  "process_name_bytes name =
     (let raw = str_bytes name; n = min (length raw) 16 in take n raw @ replicate (16 - n) 0)"

definition Query_process_name_bytes :: "Query \<Rightarrow> bytes option" where
  "Query_process_name_bytes q =
     (case q_process_name q of
        None \<Rightarrow> None
      | Some name \<Rightarrow> if name = [] then None else Some (process_name_bytes name))"

definition mac_addr :: "Query \<Rightarrow> IpAddr option" where
  "mac_addr q = map_option (\<lambda>mac. V6 (be_word (replicate 10 0 @ mac))) (q_mac q)"

section \<open>Match sets\<close>

datatype RoutingMatchKind =
    KDomainSet
  | KIpSet u32
  | KSourceIpSet u32
  | KPort u16 u16
  | KSourcePort u16 u16
  | KL4Proto u8
  | KIpVersion u8
  | KMac u32
  | KProcessName bytes
  | KDscp u8
  | KFallback

record RoutingMatchSet =
  rms_kind :: RoutingMatchKind
  rms_outbound :: OutboundIndex
  rms_not :: bool
  rms_mark :: u32
  rms_must :: bool

datatype MatchType =
    MDomainSet | MIpSet | MSourceIpSet | MPort | MSourcePort | ML4Proto | MIpVersion | MMac
  | MProcessName | MDscp | MFallback

record MatchSet =
  ms_match_type :: MatchType
  ms_outbound :: OutboundIndex
  ms_not :: bool
  ms_mark :: u32
  ms_must :: bool
  ms_lpm_index :: "u32 option"
  ms_port_start :: "u16 option"
  ms_port_end :: "u16 option"
  ms_value_u8 :: "u8 option"
  ms_process_name :: "bytes option"

definition MatchSet_from_typed_set :: "RoutingMatchSet \<Rightarrow> MatchSet" where
  "MatchSet_from_typed_set s =
     (let out = \<lparr>ms_match_type = MFallback, ms_outbound = rms_outbound s, ms_not = rms_not s,
                 ms_mark = rms_mark s, ms_must = rms_must s, ms_lpm_index = None,
                 ms_port_start = None, ms_port_end = None, ms_value_u8 = None,
                 ms_process_name = None\<rparr>
      in case rms_kind s of
           KDomainSet \<Rightarrow> out\<lparr>ms_match_type := MDomainSet\<rparr>
         | KIpSet i \<Rightarrow> out\<lparr>ms_match_type := MIpSet, ms_lpm_index := Some i\<rparr>
         | KSourceIpSet i \<Rightarrow> out\<lparr>ms_match_type := MSourceIpSet, ms_lpm_index := Some i\<rparr>
         | KPort a b \<Rightarrow> out\<lparr>ms_match_type := MPort, ms_port_start := Some a, ms_port_end := Some b\<rparr>
         | KSourcePort a b \<Rightarrow>
             out\<lparr>ms_match_type := MSourcePort, ms_port_start := Some a, ms_port_end := Some b\<rparr>
         | KL4Proto v \<Rightarrow> out\<lparr>ms_match_type := ML4Proto, ms_value_u8 := Some v\<rparr>
         | KIpVersion v \<Rightarrow> out\<lparr>ms_match_type := MIpVersion, ms_value_u8 := Some v\<rparr>
         | KMac i \<Rightarrow> out\<lparr>ms_match_type := MMac, ms_lpm_index := Some i\<rparr>
         | KProcessName v \<Rightarrow> out\<lparr>ms_match_type := MProcessName, ms_process_name := Some v\<rparr>
         | KDscp v \<Rightarrow> out\<lparr>ms_match_type := MDscp, ms_value_u8 := Some v\<rparr>
         | KFallback \<Rightarrow> out)"

definition zip_option :: "'a option \<Rightarrow> 'b option \<Rightarrow> ('a \<times> 'b) option" where
  "zip_option x y = Option.bind x (\<lambda>a. map_option (\<lambda>b. (a, b)) y)"

definition is_some_and :: "('a \<Rightarrow> bool) \<Rightarrow> 'a option \<Rightarrow> bool" where
  "is_some_and P x = (case x of None \<Rightarrow> False | Some a \<Rightarrow> P a)"

definition port_in_range :: "MatchSet \<Rightarrow> u16 \<Rightarrow> bool" where
  "port_in_range m port =
     (let start = (case ms_port_start m of Some s \<Rightarrow> s | None \<Rightarrow> 0);
          end_port = (case ms_port_end m of Some e \<Rightarrow> e | None \<Rightarrow> start)
      in start \<le> port \<and> port \<le> end_port)"

definition MatchSet_matches ::
    "MatchSet \<Rightarrow> nat \<Rightarrow> Query \<Rightarrow> u32 list \<Rightarrow> (u32 \<rightharpoonup> SharedIpPrefixSet) \<Rightarrow> bool" where
  "MatchSet_matches m index q domain_bitmap lpm_sets =
     (let lpm = Option.bind (ms_lpm_index m) lpm_sets
      in case ms_match_type m of
           MDomainSet \<Rightarrow> bitmap_has domain_bitmap index
         | MIpSet \<Rightarrow> is_some_and (\<lambda>pfxs. SharedIpPrefixSet_contains pfxs (q_dest q)) lpm
         | MSourceIpSet \<Rightarrow>
             is_some_and (\<lambda>(pfxs, source). SharedIpPrefixSet_contains pfxs source)
               (zip_option lpm (q_source q))
         | MMac \<Rightarrow>
             is_some_and (\<lambda>(pfxs, mac). SharedIpPrefixSet_contains pfxs mac)
               (zip_option lpm (mac_addr q))
         | MPort \<Rightarrow> port_in_range m (q_dest_port q)
         | MSourcePort \<Rightarrow>
             (case q_source_port q of None \<Rightarrow> False | Some port \<Rightarrow> port_in_range m port)
         | ML4Proto \<Rightarrow>
             is_some_and (\<lambda>(got, want). got AND want \<noteq> 0) (zip_option (q_l4proto q) (ms_value_u8 m))
         | MIpVersion \<Rightarrow> is_some_and (\<lambda>want. effective_ip_version q AND want \<noteq> 0) (ms_value_u8 m)
         | MProcessName \<Rightarrow>
             is_some_and (\<lambda>(want, got). got ! 0 \<noteq> 0 \<and> want = got)
               (zip_option (ms_process_name m) (Query_process_name_bytes q))
         | MDscp \<Rightarrow> is_some_and (\<lambda>(got, want). got = want) (zip_option (q_dscp q) (ms_value_u8 m))
         | MFallback \<Rightarrow> True)"

section \<open>The matcher\<close>

record RoutingMatcher =
  rm_lpm_sets :: "u32 \<rightharpoonup> SharedIpPrefixSet"
  rm_domain_matcher :: DomainMatcher
  rm_matches :: "MatchSet list"

record RoutingDomainSet =
  rds_bit :: nat
  rds_key :: DomainKey
  rds_patterns :: "string list"

record RoutingSharedDomainSet =
  rsds_bit :: nat
  rsds_patterns :: SharedDomainSet

record RoutingLpmSet =
  rls_index :: u32
  rls_prefixes :: "IpPrefix list"

record RoutingSharedLpmSet =
  rsls_index :: u32
  rsls_prefixes :: SharedIpPrefixSet

definition from_shared_typed_sets ::
    "RoutingSharedDomainSet list \<Rightarrow> RoutingSharedLpmSet list \<Rightarrow> RoutingMatchSet list \<Rightarrow> RoutingMatcher" where
  "from_shared_typed_sets domain_sets lpm_sets matches =
     (let max_domain_bit = fold (\<lambda>s acc. max acc (rsds_bit s + 1)) domain_sets 0;
          domain_matcher =
            fold (\<lambda>s. add_shared_set (rsds_bit s) (rsds_patterns s)) domain_sets
              (DomainMatcher_new (max (max max_domain_bit (length matches)) 1))
      in \<lparr>rm_lpm_sets = fold (\<lambda>s m. m(rsls_index s \<mapsto> rsls_prefixes s)) lpm_sets Map.empty,
          rm_domain_matcher = domain_matcher,
          rm_matches = map MatchSet_from_typed_set matches\<rparr>)"

definition from_typed_sets ::
    "engines \<Rightarrow> RoutingDomainSet list \<Rightarrow> RoutingLpmSet list \<Rightarrow> RoutingMatchSet list \<Rightarrow>
      (RoutingError, RoutingMatcher) result" where
  "from_typed_sets E domain_sets lpm_sets matches =
     bind_result
       (collect_results
          (\<lambda>s. map_result (\<lambda>patterns. \<lparr>rsds_bit = rds_bit s, rsds_patterns = patterns\<rparr>)
                 (SharedDomainSet_from_vec E (rds_patterns s) (rds_key s))) domain_sets)
       (\<lambda>shared.
          Inr (from_shared_typed_sets shared
                 (map (\<lambda>s. \<lparr>rsls_index = rls_index s,
                             rsls_prefixes = SharedIpPrefixSet_new (rls_prefixes s)\<rparr>) lpm_sets)
                 matches))"

text \<open>
  The loop of \<^verbatim>\<open>match_query_detail_with_prepared_domain_bitmap\<close>, from the match set with the
  given index on.
\<close>

fun match_loop ::
    "RoutingMatcher \<Rightarrow> Query \<Rightarrow> u32 list \<Rightarrow> bool \<Rightarrow> bool \<Rightarrow> bool \<Rightarrow> nat \<Rightarrow> MatchSet list \<Rightarrow>
      (RoutingError, MatchOutcome) result" where
  "match_loop M q domain_bitmap good_subrule bad_rule must_rules_hit index [] =
     Inl (InvalidFixture ''no match set hit'')"
| "match_loop M q domain_bitmap good_subrule bad_rule must_rules_hit index (m # ms) =
     (let good_subrule =
            (if \<not> bad_rule \<and> \<not> good_subrule \<and> MatchSet_matches m index q domain_bitmap (rm_lpm_sets M)
             then True else good_subrule);
          outbound = ms_outbound m;
          (good_subrule, bad_rule) =
            (if outbound \<noteq> LOGICAL_OR
             then (False, if good_subrule = ms_not m then True else bad_rule)
             else (good_subrule, bad_rule))
      in if outbound AND LOGICAL_MASK \<noteq> LOGICAL_MASK
         then if \<not> bad_rule
              then if outbound = MUST_RULES
                   then match_loop M q domain_bitmap good_subrule bad_rule True (Suc index) ms
                   else Inr \<lparr>outcome_outbound = outbound, outcome_mark = ms_mark m,
                             outcome_must = ms_must m \<or> must_rules_hit\<rparr>
              else match_loop M q domain_bitmap good_subrule False must_rules_hit (Suc index) ms
         else match_loop M q domain_bitmap good_subrule bad_rule must_rules_hit (Suc index) ms)"

definition match_query_detail_with_prepared_domain_bitmap ::
    "RoutingMatcher \<Rightarrow> Query \<Rightarrow> u32 list \<Rightarrow> (RoutingError, MatchOutcome) result" where
  "match_query_detail_with_prepared_domain_bitmap M q domain_bitmap =
     match_loop M q domain_bitmap False False False 0 (rm_matches M)"

definition domain_bitmap_words :: "RoutingMatcher \<Rightarrow> nat" where
  "domain_bitmap_words M = bitmap_words (rm_domain_matcher M)"

text \<open>Operations on a caller's buffer return the buffer as they leave it, next to the result.\<close>

definition prepare_domain_bitmap ::
    "RoutingMatcher \<Rightarrow> Query \<Rightarrow> u32 list \<Rightarrow> u32 list \<times> (RoutingError, u32 list) result" where
  "prepare_domain_bitmap M q buf =
     (if q_domain q = []
      then let words = domain_bitmap_words M
           in if length buf < words
              then (buf, Inl (InvalidFixture
                      (''domain bitmap buffer too short: got '' @ show_nat (length buf) @
                       '', want '' @ show_nat words)))
              else (replicate words 0 @ drop words buf, Inr (replicate words 0))
      else case fill_domain_bitmap (rm_domain_matcher M) (q_domain q) buf of
             (buf', Inl e) \<Rightarrow> (buf', Inl e)
           | (buf', Inr words) \<Rightarrow> (buf', Inr (take words buf')))"

definition match_query_detail_with_bitmap ::
    "RoutingMatcher \<Rightarrow> Query \<Rightarrow> u32 list \<Rightarrow> u32 list \<times> (RoutingError, MatchOutcome) result" where
  "match_query_detail_with_bitmap M q buf =
     (case prepare_domain_bitmap M q buf of
        (buf', r) \<Rightarrow>
          (buf', bind_result r (match_query_detail_with_prepared_domain_bitmap M q)))"

definition resize :: "nat \<Rightarrow> 'a \<Rightarrow> 'a list \<Rightarrow> 'a list" where
  "resize n v xs = take n xs @ replicate (n - length xs) v"

definition match_query_detail_into ::
    "RoutingMatcher \<Rightarrow> Query \<Rightarrow> u32 list \<Rightarrow> u32 list \<times> (RoutingError, MatchOutcome) result" where
  "match_query_detail_into M q buf =
     match_query_detail_with_bitmap M q (resize (domain_bitmap_words M) 0 buf)"

definition match_query_detail :: "RoutingMatcher \<Rightarrow> Query \<Rightarrow> (RoutingError, MatchOutcome) result" where
  "match_query_detail M q = snd (match_query_detail_into M q [])"

definition match_query :: "RoutingMatcher \<Rightarrow> Query \<Rightarrow> (RoutingError, OutboundIndex) result" where
  "match_query M q = map_result outcome_outbound (match_query_detail M q)"

definition domain_bitmap_for_domain_into ::
    "RoutingMatcher \<Rightarrow> string \<Rightarrow> u32 list \<Rightarrow> u32 list \<times> (RoutingError, u32 list) result" where
  "domain_bitmap_for_domain_into M domain buf =
     (case fill_domain_bitmap (rm_domain_matcher M) domain (resize (domain_bitmap_words M) 0 buf) of
        (buf', r) \<Rightarrow> (buf', map_result (\<lambda>words. take words buf') r))"

definition domain_bitmap_for_domain :: "RoutingMatcher \<Rightarrow> string \<Rightarrow> (RoutingError, u32 list) result" where
  "domain_bitmap_for_domain M domain =
     (case domain_bitmap_for_domain_into M domain [] of (buf', r) \<Rightarrow> map_result (\<lambda>_. buf') r)"

section \<open>Fixture syntax\<close>

definition MatchType_try_from :: "string \<Rightarrow> (RoutingError, MatchType) result" where
  "MatchType_try_from v =
     (if v = ''domain_set'' then Inr MDomainSet
      else if v = ''ip_set'' then Inr MIpSet
      else if v = ''source_ip_set'' then Inr MSourceIpSet
      else if v = ''port'' then Inr MPort
      else if v = ''source_port'' then Inr MSourcePort
      else if v = ''l4proto'' then Inr ML4Proto
      else if v = ''ipversion'' then Inr MIpVersion
      else if v = ''mac'' then Inr MMac
      else if v = ''process_name'' then Inr MProcessName
      else if v = ''dscp'' then Inr MDscp
      else if v = ''fallback'' then Inr MFallback
      else Inl (UnknownMatchType v))"

definition outbound_from_fixture :: "string \<Rightarrow> (RoutingError, OutboundIndex) result" where
  "outbound_from_fixture v =
     (let index = (\<lambda>s. map_err (\<lambda>_. UnknownOutbound v) (map_result word_of_nat (parse_uint 10 255 s)))
      in if v = ''direct'' then Inr DIRECT
         else if v = ''block'' then Inr BLOCK
         else if v = ''must_rules'' then Inr MUST_RULES
         else if v = ''logical_or'' then Inr LOGICAL_OR
         else if v = ''logical_and'' then Inr LOGICAL_AND
         else if v = ''<OR>'' then Inr LOGICAL_OR
         else if v = ''<AND>'' then Inr LOGICAL_AND
         else case strip_prefix ''index:'' v of
                Some s \<Rightarrow> index s
              | None \<Rightarrow>
                  (case strip_prefix ''user:'' v of
                     Some s \<Rightarrow> index s
                   | None \<Rightarrow> Inl (UnknownOutbound v)))"

fun or_flags :: "RoutingError \<Rightarrow> (string \<Rightarrow> u8 option) \<Rightarrow> u8 \<Rightarrow> string list \<Rightarrow> (RoutingError, u8) result" where
  "or_flags err flag out [] = Inr out"
| "or_flags err flag out (item # items) =
     (case flag item of None \<Rightarrow> Inl err | Some f \<Rightarrow> or_flags err flag (out OR f) items)"

definition parse_l4proto :: "string \<Rightarrow> (RoutingError, u8) result" where
  "parse_l4proto v =
     or_flags (InvalidFixture (''invalid l4proto: '' @ v))
       (\<lambda>item. if item = ''tcp'' then Some L4_TCP else if item = ''udp'' then Some L4_UDP else None)
       0 (split_on (CHR ''|'') v)"

definition parse_ip_version :: "string \<Rightarrow> (RoutingError, u8) result" where
  "parse_ip_version v =
     or_flags (InvalidFixture (''invalid ipversion: '' @ v))
       (\<lambda>item. if item = ''4'' then Some IP_VERSION_4
                else if item = ''6'' then Some IP_VERSION_6 else None)
       0 (split_on (CHR ''|'') v)"

section \<open>The buffer does not matter\<close>

definition query_bitmap :: "RoutingMatcher \<Rightarrow> Query \<Rightarrow> u32 list" where
  "query_bitmap M q =
     (if q_domain q = [] then replicate (domain_bitmap_words M) 0
      else match_domain_bitmap (rm_domain_matcher M) (q_domain q))"

lemma length_fill_bitmap [simp]: "length (fill_bitmap m d b) = length b"
  by (simp add: fill_bitmap_def)

lemma length_match_domain_bitmap [simp]: "length (match_domain_bitmap m d) = bitmap_words m"
  by (simp add: match_domain_bitmap_def)

lemma length_resize [simp]: "length (resize n v xs) = n"
  by (simp add: resize_def)

lemma fill_domain_bitmap_enough:
  "bitmap_words m \<le> length buf \<Longrightarrow>
     fill_domain_bitmap m d buf = (match_domain_bitmap m d @ drop (bitmap_words m) buf, Inr (bitmap_words m))"
  by (simp add: fill_domain_bitmap_def match_domain_bitmap_def Let_def)

lemma prepare_domain_bitmap_enough:
  "domain_bitmap_words M \<le> length buf \<Longrightarrow>
     prepare_domain_bitmap M q buf =
       (query_bitmap M q @ drop (domain_bitmap_words M) buf, Inr (query_bitmap M q))"
  by (simp add: prepare_domain_bitmap_def query_bitmap_def fill_domain_bitmap_enough
      domain_bitmap_words_def Let_def)

lemma match_query_detail_with_bitmap_enough:
  "domain_bitmap_words M \<le> length buf \<Longrightarrow>
     snd (match_query_detail_with_bitmap M q buf) =
       match_query_detail_with_prepared_domain_bitmap M q (query_bitmap M q)"
  by (simp add: match_query_detail_with_bitmap_def prepare_domain_bitmap_enough)

lemma match_query_detail_eq:
  "match_query_detail M q = match_query_detail_with_prepared_domain_bitmap M q (query_bitmap M q)"
  by (simp add: match_query_detail_def match_query_detail_into_def match_query_detail_with_bitmap_enough)

lemma query_bitmap_bit:
  "bitmap_has (query_bitmap M q) i \<longleftrightarrow>
     q_domain q \<noteq> [] \<and> i < bit_length (rm_domain_matcher M) \<and>
     (\<exists>s \<in> set (dm_sets (rm_domain_matcher M)).
        bit_index s = i \<and> SharedDomainSet_matches (set_data s) (q_domain q))"
  by (simp add: query_bitmap_def match_domain_bitmap_bit)

section \<open>The loop decides by rules\<close>

definition set_clause :: "RoutingMatcher \<Rightarrow> Query \<Rightarrow> u32 list \<Rightarrow> nat \<Rightarrow> MatchSet \<Rightarrow> clause" where
  "set_clause M q bm i m =
     \<lparr>cl_hit = MatchSet_matches m i q bm (rm_lpm_sets M), cl_out = ms_outbound m, cl_not = ms_not m,
      cl_mark = ms_mark m, cl_must = ms_must m\<rparr>"

definition outcome_result :: "MatchOutcome option \<Rightarrow> (RoutingError, MatchOutcome) result" where
  "outcome_result d = ok_or (InvalidFixture ''no match set hit'') d"

lemma match_loop_clauses:
  "match_loop M q bm good bad must i ms =
     outcome_result (clause_loop good bad must (map (\<lambda>(j, m). set_clause M q bm j m) (enumerate i ms)))"
proof (induction ms arbitrary: good bad must i)
  case Nil
  then show ?case by (simp add: outcome_result_def)
next
  case (Cons m ms)
  let ?c = "set_clause M q bm i m"
  have sel: "cl_out ?c = ms_outbound m" "cl_not ?c = ms_not m" "cl_mark ?c = ms_mark m"
    "cl_must ?c = ms_must m" "cl_hit ?c = MatchSet_matches m i q bm (rm_lpm_sets M)"
    by (simp_all add: set_clause_def)
  have out: "rule_outcome mst ?c = \<lparr>outcome_outbound = ms_outbound m, outcome_mark = ms_mark m,
      outcome_must = ms_must m \<or> mst\<rparr>" for mst
    by (simp add: rule_outcome_def set_clause_def)
  show ?case
    by (cases good; cases bad; cases "cl_hit ?c"; cases "ms_not m"; cases "ms_outbound m = LOGICAL_OR")
      (simp_all add: Cons.IH logical_mask_iff ends_rule_def sel out outcome_result_def Let_def)
qed

lemma match_query_detail_decide:
  "match_query_detail M q =
     outcome_result (decide False (rules_of
       (map (\<lambda>(j, m). set_clause M q (query_bitmap M q) j m) (enumerate 0 (rm_matches M)))))"
  by (simp add: match_query_detail_eq match_query_detail_with_prepared_domain_bitmap_def
      match_loop_clauses clause_loop_decide)

section \<open>From the typed configuration to the decision\<close>

text \<open>The prefixes a match set index refers to: a later set with the same index replaces an earlier one.\<close>

definition lpm_prefixes :: "RoutingLpmSet list \<Rightarrow> u32 \<Rightarrow> IpPrefix list" where
  "lpm_prefixes ls i = (case find (\<lambda>s. rls_index s = i) (rev ls) of None \<Rightarrow> [] | Some s \<Rightarrow> rls_prefixes s)"

definition any_prefix :: "RoutingLpmSet list \<Rightarrow> u32 \<Rightarrow> IpAddr \<Rightarrow> bool" where
  "any_prefix ls i a \<longleftrightarrow> (\<exists>p \<in> set (lpm_prefixes ls i). IpPrefix_contains p a)"

fun kind_holds ::
    "engines \<Rightarrow> RoutingDomainSet list \<Rightarrow> RoutingLpmSet list \<Rightarrow> Query \<Rightarrow> nat \<Rightarrow> RoutingMatchKind \<Rightarrow> bool" where
  "kind_holds E ds ls q i KDomainSet \<longleftrightarrow>
     q_domain q \<noteq> [] \<and> (\<exists>s \<in> set ds. rds_bit s = i \<and>
       (\<exists>p \<in> set (rds_patterns s). pattern_matches E (rds_key s) p (normalize_pattern (q_domain q))))"
| "kind_holds E ds ls q i (KIpSet j) \<longleftrightarrow> any_prefix ls j (q_dest q)"
| "kind_holds E ds ls q i (KSourceIpSet j) \<longleftrightarrow> (\<exists>a. q_source q = Some a \<and> any_prefix ls j a)"
| "kind_holds E ds ls q i (KPort a b) \<longleftrightarrow> a \<le> q_dest_port q \<and> q_dest_port q \<le> b"
| "kind_holds E ds ls q i (KSourcePort a b) \<longleftrightarrow> (\<exists>p. q_source_port q = Some p \<and> a \<le> p \<and> p \<le> b)"
| "kind_holds E ds ls q i (KL4Proto v) \<longleftrightarrow> (\<exists>p. q_l4proto q = Some p \<and> p AND v \<noteq> 0)"
| "kind_holds E ds ls q i (KIpVersion v) \<longleftrightarrow> effective_ip_version q AND v \<noteq> 0"
| "kind_holds E ds ls q i (KMac j) \<longleftrightarrow> (\<exists>a. mac_addr q = Some a \<and> any_prefix ls j a)"
| "kind_holds E ds ls q i (KProcessName v) \<longleftrightarrow>
     (\<exists>n. q_process_name q = Some n \<and> n \<noteq> [] \<and> v = process_name_bytes n \<and> v ! 0 \<noteq> 0)"
| "kind_holds E ds ls q i (KDscp v) \<longleftrightarrow> q_dscp q = Some v"
| "kind_holds E ds ls q i KFallback \<longleftrightarrow> True"

definition typed_clause ::
    "engines \<Rightarrow> RoutingDomainSet list \<Rightarrow> RoutingLpmSet list \<Rightarrow> Query \<Rightarrow> nat \<Rightarrow> RoutingMatchSet \<Rightarrow> clause" where
  "typed_clause E ds ls q i s =
     \<lparr>cl_hit = kind_holds E ds ls q i (rms_kind s), cl_out = rms_outbound s, cl_not = rms_not s,
      cl_mark = rms_mark s, cl_must = rms_must s\<rparr>"

lemma fold_max_acc: "acc \<le> fold (\<lambda>s acc. max acc (f s)) xs (acc :: nat)"
proof (induction xs arbitrary: acc)
  case (Cons y ys)
  have "acc \<le> max acc (f y)" by simp
  also have "\<dots> \<le> fold (\<lambda>s acc. max acc (f s)) ys (max acc (f y))" by (rule Cons.IH)
  finally show ?case by simp
qed simp

lemma fold_max_ge: "x \<in> set xs \<Longrightarrow> f x \<le> fold (\<lambda>s acc. max acc (f s)) xs (acc :: nat)"
proof (induction xs arbitrary: acc)
  case (Cons y ys)
  show ?case
  proof (cases "x = y")
    case True
    have "f y \<le> max acc (f y)" by simp
    also have "\<dots> \<le> fold (\<lambda>s acc. max acc (f s)) ys (max acc (f y))" by (rule fold_max_acc)
    finally show ?thesis by (simp add: True)
  next
    case False
    with Cons show ?thesis by simp
  qed
qed simp

lemma fold_add_shared_set:
  "bit_length (fold (\<lambda>s. add_shared_set (f s) (g s)) xs m) = bit_length m"
  "dm_sets (fold (\<lambda>s. add_shared_set (f s) (g s)) xs m) =
     dm_sets m @ map (\<lambda>s. \<lparr>bit_index = f s, set_data = g s\<rparr>) xs"
  by (induction xs arbitrary: m) (simp_all add: add_shared_set_def)

lemma fold_map_update:
  "fold (\<lambda>s m. m(f s \<mapsto> g s)) xs m k =
     (case find (\<lambda>s. f s = k) (rev xs) of None \<Rightarrow> m k | Some s \<Rightarrow> Some (g s))"
proof (induction xs rule: rev_induct)
  case (snoc x xs)
  then show ?case by (simp split: option.split)
qed simp

lemma find_map: "find P (map f xs) = map_option f (find (\<lambda>x. P (f x)) xs)"
  by (induction xs) auto

lemma from_typed_sets_shared:
  assumes "from_typed_sets E ds ls ms = Inr M"
  obtains shared where
    "list_all2 (\<lambda>d s. rsds_bit s = rds_bit d \<and>
       SharedDomainSet_from_vec E (rds_patterns d) (rds_key d) = Inr (rsds_patterns s)) ds shared"
    "M = from_shared_typed_sets shared
       (map (\<lambda>s. \<lparr>rsls_index = rls_index s, rsls_prefixes = SharedIpPrefixSet_new (rls_prefixes s)\<rparr>) ls) ms"
proof -
  let ?f = "\<lambda>s. map_result (\<lambda>patterns. \<lparr>rsds_bit = rds_bit s, rsds_patterns = patterns\<rparr>)
    (SharedDomainSet_from_vec E (rds_patterns s) (rds_key s))"
  from assms obtain shared where c: "collect_results ?f ds = Inr shared" and
    M: "M = from_shared_typed_sets shared
       (map (\<lambda>s. \<lparr>rsls_index = rls_index s, rsls_prefixes = SharedIpPrefixSet_new (rls_prefixes s)\<rparr>) ls) ms"
    unfolding from_typed_sets_def bind_result_Inr by auto
  from c have "list_all2 (\<lambda>d s. ?f d = Inr s) ds shared" by (simp only: collect_results_Inr)
  then have "list_all2 (\<lambda>d s. rsds_bit s = rds_bit d \<and>
      SharedDomainSet_from_vec E (rds_patterns d) (rds_key d) = Inr (rsds_patterns s)) ds shared"
    by (rule list_all2_mono) (auto simp: map_result_Inr)
  with M show ?thesis by (rule that [rotated])
qed

lemma rm_lpm_sets_lookup:
  assumes "from_typed_sets E ds ls ms = Inr M"
  shows "rm_lpm_sets M i =
    map_option (\<lambda>s. SharedIpPrefixSet_new (rls_prefixes s)) (find (\<lambda>s. rls_index s = i) (rev ls))"
proof -
  from assms obtain shared where "M = from_shared_typed_sets shared
      (map (\<lambda>s. \<lparr>rsls_index = rls_index s, rsls_prefixes = SharedIpPrefixSet_new (rls_prefixes s)\<rparr>) ls) ms"
    by (rule from_typed_sets_shared)
  then show ?thesis
    by (cases "find (\<lambda>s. rls_index s = i) (rev ls)")
      (simp_all add: from_shared_typed_sets_def Let_def fold_map_update rev_map find_map)
qed

lemma lpm_lookup_contains:
  assumes "from_typed_sets E ds ls ms = Inr M" "\<forall>s \<in> set ls. list_all prefix_ok (rls_prefixes s)"
  shows "is_some_and (\<lambda>pfxs. SharedIpPrefixSet_contains pfxs a) (rm_lpm_sets M i) \<longleftrightarrow> any_prefix ls i a"
proof (cases "find (\<lambda>s. rls_index s = i) (rev ls)")
  case None
  then show ?thesis
    by (simp add: rm_lpm_sets_lookup [OF assms(1)] is_some_and_def any_prefix_def lpm_prefixes_def)
next
  case (Some s)
  then have "s \<in> set ls" by (metis find_Some_iff nth_mem set_rev)
  with assms(2) Some show ?thesis
    by (simp add: rm_lpm_sets_lookup [OF assms(1)] is_some_and_def any_prefix_def lpm_prefixes_def
        SharedIpPrefixSet_contains_iff list_ex_iff)
qed

lemma domain_sets_match:
  assumes "from_typed_sets E ds ls ms = Inr M" "engines_ok E"
  shows "bitmap_has (query_bitmap M q) i \<longleftrightarrow> kind_holds E ds ls q i KDomainSet"
proof -
  let ?rel = "\<lambda>d s. rsds_bit s = rds_bit d \<and>
    SharedDomainSet_from_vec E (rds_patterns d) (rds_key d) = Inr (rsds_patterns s)"
  from assms(1) obtain shared where rel: "list_all2 ?rel ds shared"
    and M: "M = from_shared_typed_sets shared
      (map (\<lambda>s. \<lparr>rsls_index = rls_index s, rsls_prefixes = SharedIpPrefixSet_new (rls_prefixes s)\<rparr>) ls) ms"
    by (rule from_typed_sets_shared)
  have sets: "dm_sets (rm_domain_matcher M) =
      map (\<lambda>s. \<lparr>bit_index = rsds_bit s, set_data = rsds_patterns s\<rparr>) shared"
    by (simp add: M from_shared_typed_sets_def Let_def fold_add_shared_set DomainMatcher_new_def)
  have len: "rsds_bit s < bit_length (rm_domain_matcher M)" if "s \<in> set shared" for s
    using fold_max_ge [of s shared "\<lambda>s. rsds_bit s + 1" 0] that
    by (simp add: M from_shared_typed_sets_def Let_def fold_add_shared_set DomainMatcher_new_def)
  have match: "(\<exists>s \<in> set shared. rsds_bit s = i \<and> SharedDomainSet_matches (rsds_patterns s) dom) \<longleftrightarrow>
      (\<exists>d \<in> set ds. rds_bit d = i \<and>
        (\<exists>p \<in> set (rds_patterns d). pattern_matches E (rds_key d) p (normalize_pattern dom)))" for dom
    using rel
  proof (induction rule: list_all2_induct)
    case (Cons d ds' s ss)
    then have "SharedDomainSet_from_vec E (rds_patterns d) (rds_key d) = Inr (rsds_patterns s)" by simp
    with Cons show ?case by (simp add: SharedDomainSet_matches_iff [OF assms(2)])
  qed simp
  have "bitmap_has (query_bitmap M q) i \<longleftrightarrow> q_domain q \<noteq> [] \<and>
      (\<exists>s \<in> set shared. rsds_bit s = i \<and> SharedDomainSet_matches (rsds_patterns s) (q_domain q))"
    using len by (auto simp: query_bitmap_bit sets)
  then show ?thesis by (simp only: match kind_holds.simps)
qed

lemma is_some_and_zip:
  "is_some_and (\<lambda>(x, y). P x y) (zip_option u v) \<longleftrightarrow> (\<exists>y. v = Some y \<and> is_some_and (\<lambda>x. P x y) u)"
  by (cases u; cases v) (simp_all add: is_some_and_def zip_option_def)

lemma is_some_and_iff: "is_some_and P u \<longleftrightarrow> (\<exists>x. u = Some x \<and> P x)"
  by (cases u) (simp_all add: is_some_and_def)

lemma process_name_hit:
  "(\<exists>got. Query_process_name_bytes q = Some got \<and> got ! 0 \<noteq> 0 \<and> v = got) \<longleftrightarrow>
     (\<exists>n. q_process_name q = Some n \<and> n \<noteq> [] \<and> v = process_name_bytes n \<and> v ! 0 \<noteq> 0)"
  by (auto simp: Query_process_name_bytes_def split: option.splits if_splits)

lemma typed_set_hit:
  assumes "from_typed_sets E ds ls ms = Inr M" "engines_ok E"
    and "\<forall>s \<in> set ls. list_all prefix_ok (rls_prefixes s)"
  shows "MatchSet_matches (MatchSet_from_typed_set s) i q (query_bitmap M q) (rm_lpm_sets M) \<longleftrightarrow>
    kind_holds E ds ls q i (rms_kind s)"
proof -
  have lpm: "is_some_and (\<lambda>pfxs. SharedIpPrefixSet_contains pfxs a) (rm_lpm_sets M j) \<longleftrightarrow> any_prefix ls j a"
    for a j by (rule lpm_lookup_contains [OF assms(1,3)])
  note defs = MatchSet_from_typed_set_def MatchSet_matches_def Let_def is_some_and_zip lpm
  show ?thesis
  proof (cases "rms_kind s")
    case KDomainSet
    then show ?thesis
      using domain_sets_match [OF assms(1,2), of q i] by (simp add: defs del: kind_holds.simps(1))
  next
    case (KProcessName v)
    have "is_some_and (\<lambda>(want, got). got ! 0 \<noteq> 0 \<and> want = got)
        (zip_option (Some v) (Query_process_name_bytes q)) \<longleftrightarrow>
        (\<exists>got. Query_process_name_bytes q = Some got \<and> got ! 0 \<noteq> 0 \<and> v = got)"
      unfolding is_some_and_zip by (simp add: is_some_and_def)
    with KProcessName process_name_hit [of q v] show ?thesis
      by (simp add: MatchSet_from_typed_set_def MatchSet_matches_def Let_def)
  next
    case (KSourcePort a b)
    then show ?thesis by (cases "q_source_port q") (simp_all add: defs port_in_range_def)
  next
    case (KL4Proto v)
    then show ?thesis by (cases "q_l4proto q") (simp_all add: defs is_some_and_def zip_option_def)
  next
    case (KDscp v)
    then show ?thesis by (cases "q_dscp q") (simp_all add: defs is_some_and_def zip_option_def)
  qed (simp_all add: defs port_in_range_def, simp_all add: is_some_and_def)
qed

lemma typed_set_fields:
  "ms_outbound (MatchSet_from_typed_set s) = rms_outbound s"
  "ms_not (MatchSet_from_typed_set s) = rms_not s"
  "ms_mark (MatchSet_from_typed_set s) = rms_mark s"
  "ms_must (MatchSet_from_typed_set s) = rms_must s"
  by (simp_all add: MatchSet_from_typed_set_def Let_def split: RoutingMatchKind.split)

lemma typed_clauses:
  assumes "from_typed_sets E ds ls ms = Inr M" "engines_ok E"
    and "\<forall>s \<in> set ls. list_all prefix_ok (rls_prefixes s)"
  shows "map (\<lambda>(j, m). set_clause M q (query_bitmap M q) j m) (enumerate 0 (rm_matches M)) =
    map (\<lambda>(j, s). typed_clause E ds ls q j s) (enumerate 0 ms)"
proof -
  have "rm_matches M = map MatchSet_from_typed_set ms"
    using assms(1) by (rule from_typed_sets_shared) (simp add: from_shared_typed_sets_def Let_def)
  moreover have "map (\<lambda>(j, m). set_clause M q (query_bitmap M q) j m) (enumerate k (map MatchSet_from_typed_set xs)) =
      map (\<lambda>(j, s). typed_clause E ds ls q j s) (enumerate k xs)" for k xs
    by (induction xs arbitrary: k)
      (simp_all add: set_clause_def typed_clause_def typed_set_fields typed_set_hit [OF assms])
  ultimately show ?thesis by simp
qed

section \<open>Properties\<close>

text \<open>
  C1. A matcher built from typed domain sets, prefix sets and match sets decides every query by
  its configuration: the flat list is read as rules of negatable alternatives, each predicate
  has the meaning of its kind on the configured patterns and prefixes, the first rule that
  holds decides, \<^verbatim>\<open>must_rules\<close> marks the decision of a later rule, and only a list without a
  deciding rule is an error.
\<close>

theorem match_query_by_rules:
  assumes "engines_ok E" and "\<forall>s \<in> set ls. list_all prefix_ok (rls_prefixes s)"
    and "from_typed_sets E ds ls ms = Inr M"
  shows "match_query_detail M q =
    outcome_result (decide False (rules_of (map (\<lambda>(i, s). typed_clause E ds ls q i s) (enumerate 0 ms))))"
  by (simp only: match_query_detail_decide typed_clauses [OF assms(3,1,2)])

theorem match_query_by_rules_witness:
  "\<exists>M. from_typed_sets literal_engines
      [\<lparr>rds_bit = 0, rds_key = Suffix, rds_patterns = [''example.com'']\<rparr>]
      [\<lparr>rls_index = 7, rls_prefixes = [\<lparr>pfx_addr = V4 0x0A000000, pfx_bits = 8\<rparr>]\<rparr>]
      [\<lparr>rms_kind = KDomainSet, rms_outbound = 2, rms_not = False, rms_mark = 0, rms_must = False\<rparr>,
       \<lparr>rms_kind = KIpSet 7, rms_outbound = LOGICAL_AND, rms_not = False, rms_mark = 0, rms_must = False\<rparr>,
       \<lparr>rms_kind = KPort 80 90, rms_outbound = 3, rms_not = True, rms_mark = 9, rms_must = False\<rparr>,
       \<lparr>rms_kind = KFallback, rms_outbound = DIRECT, rms_not = False, rms_mark = 0, rms_must = False\<rparr>] = Inr M \<and>
    match_query_detail M (Query_tcp (V4 0x0A010203) 443 []) =
      Inr \<lparr>outcome_outbound = 3, outcome_mark = 9, outcome_must = False\<rparr>"
    (is "\<exists>M. from_typed_sets _ ?ds ?ls ?ms = Inr M \<and> match_query_detail M ?q = _")
proof -
  obtain M where M: "from_typed_sets literal_engines ?ds ?ls ?ms = Inr M"
    by (simp add: from_typed_sets_def SharedDomainSet_from_vec_def SharedDomainSetIndex_new_def
        DOMAIN_SET_INDEX_MIN_PATTERNS_def)
  have ok: "\<forall>s \<in> set ?ls. list_all prefix_ok (rls_prefixes s)"
    by (simp add: prefix_ok_def max_prefix_bits_def)
  have "any_prefix ?ls 7 (V4 0x0A010203)"
    by (simp add: any_prefix_def lpm_prefixes_def IpPrefix_contains_def prefix_contains_def)
  then have "match_query_detail M ?q = Inr \<lparr>outcome_outbound = 3, outcome_mark = 9, outcome_must = False\<rparr>"
    unfolding match_query_by_rules [OF literal_engines_ok ok M]
    by (simp add: typed_clause_def Query_tcp_def Query_default_def rules_of_def ends_rule_def
        rule_holds_from outbound_consts outcome_result_def rule_outcome_def)
  with M show ?thesis by blast
qed

text \<open>
  C21. A matcher whose last match set is a non-negated fallback that stands as a rule of its own
  and decides (it is neither a connective nor \<^verbatim>\<open>must_rules\<close>) answers every query.
\<close>

theorem match_query_fallback_total:
  assumes "rm_matches M = ms @ [f]"
    and "ms = [] \<or> ms_outbound (last ms) \<notin> {LOGICAL_OR, LOGICAL_AND}"
    and "ms_match_type f = MFallback" "\<not> ms_not f"
    and "ms_outbound f \<notin> {LOGICAL_OR, LOGICAL_AND, MUST_RULES}"
  shows "\<exists>out. match_query_detail M q = Inr out"
proof -
  let ?c = "\<lambda>(j, m). set_clause M q (query_bitmap M q) j m"
  let ?cs = "map ?c (enumerate 0 ms)" and ?f = "?c (length ms, f)"
  have "?cs = [] \<or> ends_rule (last ?cs)"
    using assms(2)
    by (cases ms rule: rev_cases) (auto simp: enumerate_append_eq ends_rule_def set_clause_def)
  moreover have "cl_hit ?f" "\<not> cl_not ?f" "ends_rule ?f" "cl_out ?f \<noteq> MUST_RULES"
    using assms(3-5) by (simp_all add: set_clause_def MatchSet_matches_def ends_rule_def)
  ultimately obtain d where "decide False (rules_of (?cs @ [?f])) = Some d"
    using decide_fallback by blast
  then show ?thesis by (simp add: match_query_detail_decide assms(1) enumerate_append_eq outcome_result_def)
qed

theorem match_query_fallback_total_witness:
  "\<exists>out. match_query_detail
      \<lparr>rm_lpm_sets = Map.empty, rm_domain_matcher = DomainMatcher_new 1,
       rm_matches = map MatchSet_from_typed_set
         [\<lparr>rms_kind = KDscp 4, rms_outbound = MUST_RULES, rms_not = True, rms_mark = 0, rms_must = False\<rparr>,
          \<lparr>rms_kind = KFallback, rms_outbound = 2, rms_not = False, rms_mark = 0, rms_must = False\<rparr>]\<rparr>
      Query_default = Inr out"
  by (rule match_query_fallback_total [where
        ms = "map MatchSet_from_typed_set
         [\<lparr>rms_kind = KDscp 4, rms_outbound = MUST_RULES, rms_not = True, rms_mark = 0, rms_must = False\<rparr>]"
        and f = "MatchSet_from_typed_set
          \<lparr>rms_kind = KFallback, rms_outbound = 2, rms_not = False, rms_mark = 0, rms_must = False\<rparr>"])
    (simp_all add: MatchSet_from_typed_set_def outbound_consts)

text \<open>
  C24. The caller's bitmap buffer is scratch space: with any buffer, of any length and content,
  the query is decided as with a fresh one.
\<close>

theorem match_query_buffer_irrelevant:
  "snd (match_query_detail_into M q buf) = match_query_detail M q"
  by (simp add: match_query_detail_eq match_query_detail_into_def match_query_detail_with_bitmap_enough)

end
