(* ===== verification/Bpf_Abi.thy ===== *)
theory Bpf_Abi
  imports Core_Types Byte_Order
begin

text \<open>
  \<^verbatim>\<open>dae-ebpf-abi/src/lib.rs\<close> and \<^verbatim>\<open>dae-ebpf-program/src/abi.rs\<close>: the structures shared between
  the eBPF programs and userspace, the keys of the longest-prefix-match tries, and the
  parameters the loader writes into the programs' read-only data.  Arrays are lists of their
  declared length; a socket address field is its 16 octets.
\<close>

text \<open>Signed 64-bit values are 64-bit words read by \<^const>\<open>sint\<close>.\<close>

type_synonym i64 = "64 word"

section \<open>Parameters\<close>

definition UDP_STATE_SATURATION_POLICY_FAIL_CLOSED :: u32 where
  "UDP_STATE_SATURATION_POLICY_FAIL_CLOSED = 0"
definition UDP_STATE_IDLE_TIMEOUT_NS_DEFAULT :: u64 where
  "UDP_STATE_IDLE_TIMEOUT_NS_DEFAULT = 300000000000"
definition BPF_DAE_PARAM_ABI_VERSION :: u32 where "BPF_DAE_PARAM_ABI_VERSION = 2"
definition REDIRECT_TRACK_ABI_VERSION :: u8 where "REDIRECT_TRACK_ABI_VERSION = 3"

record BpfDaeParam =
  tproxy_port :: u32
  control_plane_pid :: u32
  dae0_ifindex :: u32
  dae_netns_id :: u32
  dae0peer_mac :: bytes
  has_bpf_get_current_task :: u8
  tproxy_port_protect :: u8
  task_struct_mm_offset :: u32
  mm_struct_arg_start_offset :: u32
  abi_version :: u32
  udp_state_saturation_policy :: u32
  udp_state_idle_timeout_ns :: u64

definition BpfDaeParam_zeroed :: BpfDaeParam where
  "BpfDaeParam_zeroed =
     \<lparr>tproxy_port = 0, control_plane_pid = 0, dae0_ifindex = 0, dae_netns_id = 0,
      dae0peer_mac = replicate 6 0, has_bpf_get_current_task = 0, tproxy_port_protect = 0,
      task_struct_mm_offset = 0, mm_struct_arg_start_offset = 0, abi_version = 0,
      udp_state_saturation_policy = UDP_STATE_SATURATION_POLICY_FAIL_CLOSED,
      udp_state_idle_timeout_ns = 0\<rparr>"

definition param_tproxy_port :: "BpfDaeParam \<Rightarrow> u16" where
  "param_tproxy_port P = ucast (tproxy_port P)"

definition param_tproxy_port_protect :: "BpfDaeParam \<Rightarrow> bool" where
  "param_tproxy_port_protect P \<longleftrightarrow> tproxy_port_protect P \<noteq> 0"

definition param_udp_state_idle_timeout_ns :: "BpfDaeParam \<Rightarrow> u64" where
  "param_udp_state_idle_timeout_ns P =
     (if udp_state_idle_timeout_ns P = 0 then UDP_STATE_IDLE_TIMEOUT_NS_DEFAULT
      else udp_state_idle_timeout_ns P)"

definition param_redirect_generation :: "BpfDaeParam \<Rightarrow> u64" where
  "param_redirect_generation P = push_bit 32 (ucast (control_plane_pid P)) OR ucast (dae0_ifindex P)"

section \<open>Map keys and values\<close>

type_synonym BpfIpBytes = bytes

definition BpfIpBytes_zeroed :: BpfIpBytes where
  "BpfIpBytes_zeroed = replicate 16 0"

record BpfMatchSet =
  match_value :: bytes
  match_not :: u8
  match_kind :: u8
  match_outbound :: u8
  match_must :: u8
  match_mark :: u32

record BpfOutboundConnectivityQuery =
  ocq_outbound :: u8
  ocq_l4proto :: u8
  ocq_ipversion :: u8

record BpfPidPname =
  pp_pid :: u32
  pp_comm :: bytes
  pp_pname :: bytes

definition BpfPidPname_zeroed :: BpfPidPname where
  "BpfPidPname_zeroed = \<lparr>pp_pid = 0, pp_comm = replicate 16 0, pp_pname = replicate 16 0\<rparr>"

record BpfRedirectEntry =
  re_ifindex :: u32
  re_smac :: bytes
  re_dmac :: bytes
  re_from_wan :: u8
  re_link_layer :: u8
  re_abi_version :: u8
  re_vlan_metadata :: u8
  re_vlan_tci :: "u16 list"

definition BpfRedirectEntry_zeroed :: BpfRedirectEntry where
  "BpfRedirectEntry_zeroed =
     \<lparr>re_ifindex = 0, re_smac = replicate 6 0, re_dmac = replicate 6 0, re_from_wan = 0,
      re_link_layer = 0, re_abi_version = 0, re_vlan_metadata = 0, re_vlan_tci = [0, 0]\<rparr>"

record BpfRedirectKey =
  rk_sip :: BpfIpBytes
  rk_dip :: BpfIpBytes
  rk_sport :: u16
  rk_dport :: u16
  rk_l4proto :: u8
  rk_abi_version :: u8
  rk_padding :: bytes
  rk_generation :: u64

definition BpfRedirectKey_zeroed :: BpfRedirectKey where
  "BpfRedirectKey_zeroed =
     \<lparr>rk_sip = BpfIpBytes_zeroed, rk_dip = BpfIpBytes_zeroed, rk_sport = 0, rk_dport = 0,
      rk_l4proto = 0, rk_abi_version = 0, rk_padding = [0, 0], rk_generation = 0\<rparr>"

record BpfRoutingResult =
  rr_mark :: u32
  rr_must :: u8
  rr_mac :: bytes
  rr_outbound :: u8
  rr_pname :: bytes
  rr_pid :: u32
  rr_dscp :: u8

record BpfTuplesKey =
  tk_sip :: BpfIpBytes
  tk_dip :: BpfIpBytes
  tk_sport :: u16
  tk_dport :: u16
  tk_l4proto :: u8

definition BpfTuplesKey_zeroed :: BpfTuplesKey where
  "BpfTuplesKey_zeroed =
     \<lparr>tk_sip = BpfIpBytes_zeroed, tk_dip = BpfIpBytes_zeroed, tk_sport = 0, tk_dport = 0,
      tk_l4proto = 0\<rparr>"

section \<open>Longest-prefix-match keys\<close>

definition BPF_LPM_IPV4_MAPPED_PREFIX_BITS :: u32 where "BPF_LPM_IPV4_MAPPED_PREFIX_BITS = 96"
definition BPF_LPM_FULL_PREFIX_BITS :: u32 where "BPF_LPM_FULL_PREFIX_BITS = 128"
definition BPF_LPM_MAC_OFFSET :: nat where "BPF_LPM_MAC_OFFSET = 10"

record BpfLpmKey =
  lpm_prefix_len :: u32
  lpm_data :: "u32 list"

definition BpfLpmKey_zeroed :: BpfLpmKey where
  "BpfLpmKey_zeroed = \<lparr>lpm_prefix_len = 0, lpm_data = [0, 0, 0, 0]\<rparr>"

definition lpm_from_octets :: "u32 \<Rightarrow> bytes \<Rightarrow> BpfLpmKey" where
  "lpm_from_octets plen os =
     \<lparr>lpm_prefix_len = plen,
      lpm_data = [le_word [os ! 0, os ! 1, os ! 2, os ! 3], le_word [os ! 4, os ! 5, os ! 6, os ! 7],
                  le_word [os ! 8, os ! 9, os ! 10, os ! 11],
                  le_word [os ! 12, os ! 13, os ! 14, os ! 15]]\<rparr>"

definition lpm_octets :: "BpfLpmKey \<Rightarrow> bytes" where
  "lpm_octets k =
     le_bytes 4 (lpm_data k ! 0) @ le_bytes 4 (lpm_data k ! 1) @
     le_bytes 4 (lpm_data k ! 2) @ le_bytes 4 (lpm_data k ! 3)"

text \<open>The constructors assert their prefix length; a failed assertion is \<^term>\<open>None\<close>.\<close>

definition lpm_from_ipv4_mapped :: "u8 \<Rightarrow> bytes \<Rightarrow> BpfLpmKey option" where
  "lpm_from_ipv4_mapped prefix_bits address =
     (if prefix_bits \<le> 32
      then Some (lpm_from_octets (BPF_LPM_IPV4_MAPPED_PREFIX_BITS + ucast prefix_bits)
             (replicate 10 0 @ [0xff, 0xff, address ! 0, address ! 1, address ! 2, address ! 3]))
      else None)"

definition lpm_from_ipv6 :: "u8 \<Rightarrow> bytes \<Rightarrow> BpfLpmKey option" where
  "lpm_from_ipv6 prefix_bits address =
     (if prefix_bits \<le> 128 then Some (lpm_from_octets (ucast prefix_bits) address) else None)"

definition lpm_from_mac :: "bytes \<Rightarrow> BpfLpmKey" where
  "lpm_from_mac address =
     lpm_from_octets BPF_LPM_FULL_PREFIX_BITS (replicate BPF_LPM_MAC_OFFSET 0 @ address)"

section \<open>Match set codes\<close>

definition MAX_MATCH_SET_LEN :: u32 where "MAX_MATCH_SET_LEN = 1024"
definition MATCH_TYPE_DOMAIN_SET :: u8 where "MATCH_TYPE_DOMAIN_SET = 0"
definition MATCH_TYPE_IP_SET :: u8 where "MATCH_TYPE_IP_SET = 1"
definition MATCH_TYPE_SOURCE_IP_SET :: u8 where "MATCH_TYPE_SOURCE_IP_SET = 2"
definition MATCH_TYPE_PORT :: u8 where "MATCH_TYPE_PORT = 3"
definition MATCH_TYPE_SOURCE_PORT :: u8 where "MATCH_TYPE_SOURCE_PORT = 4"
definition MATCH_TYPE_L4_PROTO :: u8 where "MATCH_TYPE_L4_PROTO = 5"
definition MATCH_TYPE_IP_VERSION :: u8 where "MATCH_TYPE_IP_VERSION = 6"
definition MATCH_TYPE_MAC :: u8 where "MATCH_TYPE_MAC = 7"
definition MATCH_TYPE_PROCESS_NAME :: u8 where "MATCH_TYPE_PROCESS_NAME = 8"
definition MATCH_TYPE_DSCP :: u8 where "MATCH_TYPE_DSCP = 9"
definition MATCH_TYPE_FALLBACK :: u8 where "MATCH_TYPE_FALLBACK = 10"

lemmas match_type_consts =
  MATCH_TYPE_DOMAIN_SET_def MATCH_TYPE_IP_SET_def MATCH_TYPE_SOURCE_IP_SET_def MATCH_TYPE_PORT_def
  MATCH_TYPE_SOURCE_PORT_def MATCH_TYPE_L4_PROTO_def MATCH_TYPE_IP_VERSION_def MATCH_TYPE_MAC_def
  MATCH_TYPE_PROCESS_NAME_def MATCH_TYPE_DSCP_def MATCH_TYPE_FALLBACK_def

section \<open>Octets of keys\<close>

lemma list16_nth:
  assumes "length xs = 16"
  shows "[xs ! 0, xs ! 1, xs ! 2, xs ! 3] @ [xs ! 4, xs ! 5, xs ! 6, xs ! 7] @
    [xs ! 8, xs ! 9, xs ! 10, xs ! 11] @ [xs ! 12, xs ! 13, xs ! 14, xs ! 15] = xs"
proof -
  have "[0..<16] = [0, 1, 2, 3, 4, 5, 6, 7, 8, 9, 10, 11, 12, 13, 14, 15 :: nat]"
    by (simp add: upt_rec)
  moreover have "map (nth xs) [0..<16] = xs" using assms by (metis map_nth)
  ultimately show ?thesis by simp
qed

lemma lpm_octets_from_octets:
  assumes "length os = 16"
  shows "lpm_octets (lpm_from_octets plen os) = os"
proof -
  have le4: "le_bytes 4 (le_word bs :: u32) = bs" if "length bs = 4" for bs
    using le_bytes_le_word [of bs, where 'a = 32] that by simp
  have "lpm_octets (lpm_from_octets plen os) =
      [os ! 0, os ! 1, os ! 2, os ! 3] @ [os ! 4, os ! 5, os ! 6, os ! 7] @
      [os ! 8, os ! 9, os ! 10, os ! 11] @ [os ! 12, os ! 13, os ! 14, os ! 15]"
    by (simp add: lpm_octets_def lpm_from_octets_def le4)
  then show ?thesis by (simp only: list16_nth [OF assms])
qed

text \<open>
  How the kernel's trie reads an entry (documented behaviour of
  \<^verbatim>\<open>BPF_MAP_TYPE_LPM_TRIE\<close>): the leading \<^verbatim>\<open>prefix_len\<close> bits of the data, octet by octet from the
  most significant bit, agree with those of the looked up key.
\<close>

definition lpm_entry_matches :: "BpfLpmKey \<Rightarrow> BpfLpmKey \<Rightarrow> bool" where
  "lpm_entry_matches e k \<longleftrightarrow>
     lpm_prefix_len e \<le> lpm_prefix_len k \<and>
     take (unat (lpm_prefix_len e)) (octet_bits (lpm_octets e)) =
     take (unat (lpm_prefix_len e)) (octet_bits (lpm_octets k))"

text \<open>The 16 octets the data plane uses for an address: IPv4 in the mapped range of IPv6.\<close>

fun mapped_octets :: "IpAddr \<Rightarrow> bytes" where
  "mapped_octets (V4 a) = replicate 10 0 @ [0xff, 0xff] @ be_bytes 4 a"
| "mapped_octets (V6 a) = be_bytes 16 a"

lemma length_mapped_octets [simp]: "length (mapped_octets a) = 16"
  by (cases a) simp_all

lemma mapped_octets_V4:
  "octet_bits (mapped_octets (V4 a)) = octet_bits (replicate 10 0 @ [0xff, 0xff]) @ word_bits_be a"
proof -
  have "mapped_octets (V4 a) = (replicate 10 0 @ [0xff, 0xff]) @ be_bytes 4 a" by simp
  then show ?thesis using octet_bits_be_bytes [of 4 a] by (simp only: octet_bits_append) simp
qed

lemma mapped_octets_V6: "octet_bits (mapped_octets (V6 a)) = word_bits_be a"
  using octet_bits_be_bytes [of 16 a] by simp

end
