(* ===== verification/Bpf_Routing.thy ===== *)
theory Bpf_Routing
  imports Bpf_Abi Rule_Semantics
begin

text \<open>
  \<^verbatim>\<open>dae-ebpf-program/src/routing.rs\<close>: the routing decision inside the kernel.  The program walks
  the match sets of \<^verbatim>\<open>routing_map\<close> in a \<^verbatim>\<open>bpf_loop\<close> callback that keeps its flags, the keys of the
  packet and one cached word of the domain bitmap in a context.

  The maps' contents are the record \<open>route_maps\<close>; an inner trie of \<^verbatim>\<open>lpm_array_map\<close> is the predicate
  ``the lookup of this key finds an entry''.  The helper \<^verbatim>\<open>bpf_loop\<close> is a parameter.  Signed
  64-bit results are 64-bit words read by \<^const>\<open>sint\<close>.
\<close>

section \<open>State\<close>

definition CONTROL_PLANE_SO_MARK :: u32 where "CONTROL_PLANE_SO_MARK = 0x100"
definition LATENCY_PROBE_HELPER_COMM :: bytes where
  "LATENCY_PROBE_HELPER_COMM = str_bytes ''daed-latency'' @ replicate 4 0"
definition GEODATA_PREPARE_HELPER_COMM :: bytes where
  "GEODATA_PREPARE_HELPER_COMM = str_bytes ''daed-geodata'' @ replicate 4 0"
definition SUBSCRIPTION_PREPARE_HELPER_COMM :: bytes where
  "SUBSCRIPTION_PREPARE_HELPER_COMM = str_bytes ''daed-subscript'' @ replicate 2 0"

definition L4_PROTO_TCP_MATCH :: u32 where "L4_PROTO_TCP_MATCH = 1"
definition L4_PROTO_UDP_MATCH :: u32 where "L4_PROTO_UDP_MATCH = 2"
definition IP_VERSION_4_MATCH :: u32 where "IP_VERSION_4_MATCH = 1"
definition IP_VERSION_6_MATCH :: u32 where "IP_VERSION_6_MATCH = 2"
definition ROUTE_BAD_RULE :: u8 where "ROUTE_BAD_RULE = 1"
definition ROUTE_GOOD_SUBRULE :: u8 where "ROUTE_GOOD_SUBRULE = 2"
definition ROUTE_MUST :: u8 where "ROUTE_MUST = 4"
definition ROUTE_IS_DNS :: u8 where "ROUTE_IS_DNS = 8"
definition DNS_DEFAULT_PORT :: u16 where "DNS_DEFAULT_PORT = 53"
definition DOMAIN_WORD_NONE :: u16 where "DOMAIN_WORD_NONE = 0xFFFF"

definition EFAULT :: i64 where "EFAULT = 14"
definition EINVAL :: i64 where "EINVAL = 22"
definition ENOEXEC :: i64 where "ENOEXEC = 8"
definition EPERM :: i64 where "EPERM = 1"

record RouteParams =
  rp_l4proto_type :: u32
  rp_ipversion_type :: u32
  rp_is_wan :: u32
  rp_pname :: bytes
  rp_dscp :: u32
  rp_h_sport :: u16
  rp_h_dport :: u16
  rp_saddr :: BpfIpBytes
  rp_daddr :: BpfIpBytes
  rp_mac :: BpfIpBytes

definition RouteParams_zeroed :: RouteParams where
  "RouteParams_zeroed =
     \<lparr>rp_l4proto_type = 0, rp_ipversion_type = 0, rp_is_wan = 0, rp_pname = replicate 16 0,
      rp_dscp = 0, rp_h_sport = 0, rp_h_dport = 0, rp_saddr = BpfIpBytes_zeroed,
      rp_daddr = BpfIpBytes_zeroed, rp_mac = BpfIpBytes_zeroed\<rparr>"

text \<open>The pointer to the parameters is the parameters themselves: they are constant during a route.\<close>

record RouteCtx =
  rc_params :: RouteParams
  rc_h_dport :: u16
  rc_h_sport :: u16
  rc_result :: i64
  rc_lpm_key_saddr :: BpfLpmKey
  rc_lpm_key_daddr :: BpfLpmKey
  rc_lpm_key_mac :: BpfLpmKey
  rc_state :: u8
  rc_domain_word :: u32
  rc_domain_word_index :: u16
  rc_domain_absent :: u8

definition RouteCtx_zeroed :: "RouteParams \<Rightarrow> RouteCtx" where
  "RouteCtx_zeroed params =
     \<lparr>rc_params = params, rc_h_dport = 0, rc_h_sport = 0, rc_result = - ENOEXEC,
      rc_lpm_key_saddr = BpfLpmKey_zeroed, rc_lpm_key_daddr = BpfLpmKey_zeroed,
      rc_lpm_key_mac = BpfLpmKey_zeroed, rc_state = 0, rc_domain_word = 0,
      rc_domain_word_index = DOMAIN_WORD_NONE, rc_domain_absent = 0\<rparr>"

record route_maps =
  routing_map :: "u32 \<Rightarrow> BpfMatchSet option"
  lpm_array_map :: "u32 \<Rightarrow> (BpfLpmKey \<Rightarrow> bool) option"
  domain_routing_map :: "BpfIpBytes \<Rightarrow> u32 list option"

section \<open>The decision\<close>

definition names_equal :: "bytes \<Rightarrow> bytes \<Rightarrow> bool" where
  "names_equal a b \<longleftrightarrow> take 16 a = take 16 b"

definition pid_pname_is_control_helper :: "BpfPidPname \<Rightarrow> bool" where
  "pid_pname_is_control_helper p \<longleftrightarrow>
     names_equal (pp_comm p) LATENCY_PROBE_HELPER_COMM \<or>
     names_equal (pp_comm p) GEODATA_PREPARE_HELPER_COMM \<or>
     names_equal (pp_comm p) SUBSCRIPTION_PREPARE_HELPER_COMM"

definition pid_is_control_plane :: "BpfDaeParam \<Rightarrow> u32 \<Rightarrow> BpfPidPname option \<Rightarrow> bool" where
  "pid_is_control_plane P skb_mark pid_pname =
     (case pid_pname of
        Some p \<Rightarrow>
          if control_plane_pid P \<noteq> 0 \<and> pp_pid p = control_plane_pid P then True
          else if skb_mark AND CONTROL_PLANE_SO_MARK = CONTROL_PLANE_SO_MARK
          then pid_pname_is_control_helper p
          else False
      | None \<Rightarrow> skb_mark AND CONTROL_PLANE_SO_MARK = CONTROL_PLANE_SO_MARK)"

definition set_lpm_key :: "BpfIpBytes \<Rightarrow> BpfLpmKey" where
  "set_lpm_key ip = lpm_from_octets BPF_LPM_FULL_PREFIX_BITS ip"

definition domain_bitmap_hit_cached :: "route_maps \<Rightarrow> RouteCtx \<Rightarrow> u32 \<Rightarrow> bool \<times> RouteCtx" where
  "domain_bitmap_hit_cached K ctx index =
     (if rc_domain_absent ctx \<noteq> 0 then (False, ctx)
      else
        let word_index = (ucast (drop_bit 5 index AND 31) :: u16);
            bit_index = unat (index AND 31);
            hit = (\<lambda>c. drop_bit bit_index (rc_domain_word c) AND 1 \<noteq> 0)
        in if rc_domain_word_index ctx \<noteq> word_index
           then case domain_routing_map K (rp_daddr (rc_params ctx)) of
                  None \<Rightarrow> (False, ctx\<lparr>rc_domain_absent := 1\<rparr>)
                | Some bitmap \<Rightarrow>
                    let ctx' = ctx\<lparr>rc_domain_word := bitmap ! unat word_index,
                                   rc_domain_word_index := word_index\<rparr>
                    in (hit ctx', ctx')
           else (hit ctx, ctx))"

definition init_route_ctx :: "RouteParams \<Rightarrow> RouteCtx" where
  "init_route_ctx params =
     (RouteCtx_zeroed params)
       \<lparr>rc_result := - ENOEXEC, rc_h_dport := rp_h_dport params, rc_h_sport := rp_h_sport params,
        rc_state :=
          (if rp_h_dport params = DNS_DEFAULT_PORT \<and>
              (rp_l4proto_type params = L4_PROTO_UDP_MATCH \<or> rp_l4proto_type params = L4_PROTO_TCP_MATCH)
           then ROUTE_IS_DNS else 0),
        rc_lpm_key_saddr := set_lpm_key (rp_saddr params),
        rc_lpm_key_daddr := set_lpm_key (rp_daddr params),
        rc_lpm_key_mac := set_lpm_key (rp_mac params)\<rparr>"

definition route_state_or :: "u8 \<Rightarrow> RouteCtx \<Rightarrow> RouteCtx" where
  "route_state_or bits ctx = ctx\<lparr>rc_state := rc_state ctx OR bits\<rparr>"

definition route_state_and :: "u8 \<Rightarrow> RouteCtx \<Rightarrow> RouteCtx" where
  "route_state_and bits ctx = ctx\<lparr>rc_state := rc_state ctx AND bits\<rparr>"

text \<open>The members of the value union.\<close>

definition value_u32 :: "BpfMatchSet \<Rightarrow> u32" where
  "value_u32 m = le_word (take 4 (match_value m))"

definition value_port_start :: "BpfMatchSet \<Rightarrow> u16" where
  "value_port_start m = le_word (take 2 (match_value m))"

definition value_port_end :: "BpfMatchSet \<Rightarrow> u16" where
  "value_port_end m = le_word (take 2 (drop 2 (match_value m)))"

definition value_dscp :: "BpfMatchSet \<Rightarrow> u8" where
  "value_dscp m = match_value m ! 0"

text \<open>The predicate of one match set: an error code that stops the loop, or whether it hits.\<close>

definition route_match_kind :: "route_maps \<Rightarrow> u32 \<Rightarrow> BpfMatchSet \<Rightarrow> RouteCtx \<Rightarrow> (i64, bool) result \<times> RouteCtx" where
  "route_match_kind K index m ctx =
     (let params = rc_params ctx; kind = match_kind m
      in if kind = MATCH_TYPE_MAC \<or> kind = MATCH_TYPE_IP_SET \<or> kind = MATCH_TYPE_SOURCE_IP_SET
         then case lpm_array_map K (value_u32 m) of
                None \<Rightarrow> (Inl (- EFAULT), ctx)
              | Some lpm \<Rightarrow>
                  (Inr (lpm (if kind = MATCH_TYPE_MAC then rc_lpm_key_mac ctx
                             else if kind = MATCH_TYPE_IP_SET then rc_lpm_key_daddr ctx
                             else rc_lpm_key_saddr ctx)), ctx)
         else if kind = MATCH_TYPE_PORT
         then (Inr (value_port_start m \<le> rc_h_dport ctx \<and> rc_h_dport ctx \<le> value_port_end m), ctx)
         else if kind = MATCH_TYPE_SOURCE_PORT
         then (Inr (value_port_start m \<le> rc_h_sport ctx \<and> rc_h_sport ctx \<le> value_port_end m), ctx)
         else if kind = MATCH_TYPE_L4_PROTO then (Inr (rp_l4proto_type params AND value_u32 m \<noteq> 0), ctx)
         else if kind = MATCH_TYPE_IP_VERSION then (Inr (rp_ipversion_type params AND value_u32 m \<noteq> 0), ctx)
         else if kind = MATCH_TYPE_DOMAIN_SET
         then (case domain_bitmap_hit_cached K ctx index of (hit, ctx') \<Rightarrow> (Inr hit, ctx'))
         else if kind = MATCH_TYPE_PROCESS_NAME
         then (Inr (rp_is_wan params \<noteq> 0 \<and> names_equal (match_value m) (rp_pname params)), ctx)
         else if kind = MATCH_TYPE_DSCP then (Inr (rp_dscp params = ucast (value_dscp m)), ctx)
         else if kind = MATCH_TYPE_FALLBACK then (Inr True, ctx)
         else (Inl (- EINVAL), ctx))"

definition route_result :: "u8 \<Rightarrow> u32 \<Rightarrow> bool \<Rightarrow> i64" where
  "route_result outbound mark must =
     (ucast outbound OR push_bit 8 (ucast mark)) OR push_bit 40 (if must then 1 else 0)"

text \<open>What the callback does with the flags once the predicate of its match set is settled.\<close>

definition route_finish_set :: "BpfMatchSet \<Rightarrow> RouteCtx \<Rightarrow> i64 \<times> RouteCtx" where
  "route_finish_set m ctx0 =
     (let ctx = (if match_outbound m \<noteq> LOGICAL_OR
                 then let subrule_hit = (rc_state ctx0 AND ROUTE_GOOD_SUBRULE \<noteq> 0);
                          negated = (match_not m \<noteq> 0);
                          c = (if subrule_hit = negated then route_state_or ROUTE_BAD_RULE ctx0 else ctx0)
                      in route_state_and (NOT ROUTE_GOOD_SUBRULE) c
                 else ctx0)
      in if match_outbound m AND LOGICAL_MASK \<noteq> LOGICAL_MASK
         then let state = rc_state ctx
              in if state AND ROUTE_BAD_RULE = 0
                 then if match_outbound m = MUST_RULES
                      then (0, route_state_and (NOT ROUTE_BAD_RULE) (route_state_or ROUTE_MUST ctx))
                      else let must = (state AND ROUTE_MUST \<noteq> 0 \<or> match_must m \<noteq> 0);
                               outbound = (if \<not> must \<and> state AND ROUTE_IS_DNS \<noteq> 0
                                           then CONTROL_PLANE_ROUTING else match_outbound m)
                           in (1, ctx\<lparr>rc_result := route_result outbound (match_mark m) must\<rparr>)
                 else (0, route_state_and (NOT ROUTE_BAD_RULE) ctx)
         else (0, ctx))"

definition route_loop_cb :: "route_maps \<Rightarrow> u32 \<Rightarrow> RouteCtx \<Rightarrow> i64 \<times> RouteCtx" where
  "route_loop_cb K index ctx =
     (if index \<ge> MAX_MATCH_SET_LEN then (1, ctx\<lparr>rc_result := - EFAULT\<rparr>)
      else case routing_map K index of
        None \<Rightarrow> (1, ctx\<lparr>rc_result := - EFAULT\<rparr>)
      | Some m \<Rightarrow>
          if rc_state ctx AND (ROUTE_GOOD_SUBRULE OR ROUTE_BAD_RULE) = 0
          then case route_match_kind K index m ctx of
                 (Inl err, ctx') \<Rightarrow> (1, ctx'\<lparr>rc_result := err\<rparr>)
               | (Inr hit, ctx') \<Rightarrow>
                   route_finish_set m (if hit then route_state_or ROUTE_GOOD_SUBRULE ctx' else ctx')
          else route_finish_set m ctx)"

type_synonym loop_helper = "u32 \<Rightarrow> (u32 \<Rightarrow> RouteCtx \<Rightarrow> i64 \<times> RouteCtx) \<Rightarrow> RouteCtx \<Rightarrow> i64 \<times> RouteCtx"

definition route :: "loop_helper \<Rightarrow> route_maps \<Rightarrow> RouteParams \<Rightarrow> i64" where
  "route bpf_loop K params =
     (case bpf_loop MAX_MATCH_SET_LEN (route_loop_cb K) (init_route_ctx params) of
        (ret, ctx) \<Rightarrow>
          if sint ret < 0 then ret
          else if sint (rc_result ctx) \<ge> 0 then rc_result ctx
          else - EPERM)"

section \<open>The helper contract and the meaning of match sets\<close>

text \<open>
  Documented behaviour of \<^verbatim>\<open>bpf_loop\<close>: the callback runs with 0, 1, \<dots> until it returns non-zero or
  the bound is reached; the helper returns the number of iterations performed.
\<close>

fun loop_from :: "(u32 \<Rightarrow> 'c \<Rightarrow> i64 \<times> 'c) \<Rightarrow> nat \<Rightarrow> nat \<Rightarrow> 'c \<Rightarrow> nat \<times> 'c" where
  "loop_from cb 0 i c = (i, c)"
| "loop_from cb (Suc n) i c =
     (case cb (word_of_nat i) c of
        (r, c') \<Rightarrow> if r = 0 then loop_from cb n (Suc i) c' else (Suc i, c'))"

definition bpf_loop_ref :: loop_helper where
  "bpf_loop_ref n cb c = (case loop_from cb (unat n) 0 c of (i, c') \<Rightarrow> (word_of_nat i, c'))"

definition bpf_loop_ok :: "loop_helper \<Rightarrow> bool" where
  "bpf_loop_ok bpf_loop \<longleftrightarrow>
     (\<forall>cb c. bpf_loop MAX_MATCH_SET_LEN cb c = bpf_loop_ref MAX_MATCH_SET_LEN cb c)"

text \<open>
  What a match set tests, read directly from the packet's parameters and the maps; \<^term>\<open>None\<close> where
  the set is ill-formed (unknown kind, no such trie).
\<close>

definition domain_hit :: "route_maps \<Rightarrow> RouteParams \<Rightarrow> nat \<Rightarrow> bool" where
  "domain_hit K P i =
     (case domain_routing_map K (rp_daddr P) of
        None \<Rightarrow> False
      | Some bitmap \<Rightarrow> bit (bitmap ! (i div 32 mod 32)) (i mod 32))"

definition kernel_holds :: "route_maps \<Rightarrow> RouteParams \<Rightarrow> nat \<Rightarrow> BpfMatchSet \<Rightarrow> bool option" where
  "kernel_holds K P i m =
     (let kind = match_kind m; lpm = (\<lambda>ip. map_option (\<lambda>lookup. lookup (set_lpm_key ip)) (lpm_array_map K (value_u32 m)))
      in if kind = MATCH_TYPE_DOMAIN_SET then Some (domain_hit K P i)
         else if kind = MATCH_TYPE_IP_SET then lpm (rp_daddr P)
         else if kind = MATCH_TYPE_SOURCE_IP_SET then lpm (rp_saddr P)
         else if kind = MATCH_TYPE_MAC then lpm (rp_mac P)
         else if kind = MATCH_TYPE_PORT
         then Some (value_port_start m \<le> rp_h_dport P \<and> rp_h_dport P \<le> value_port_end m)
         else if kind = MATCH_TYPE_SOURCE_PORT
         then Some (value_port_start m \<le> rp_h_sport P \<and> rp_h_sport P \<le> value_port_end m)
         else if kind = MATCH_TYPE_L4_PROTO then Some (rp_l4proto_type P AND value_u32 m \<noteq> 0)
         else if kind = MATCH_TYPE_IP_VERSION then Some (rp_ipversion_type P AND value_u32 m \<noteq> 0)
         else if kind = MATCH_TYPE_PROCESS_NAME
         then Some (rp_is_wan P \<noteq> 0 \<and> names_equal (match_value m) (rp_pname P))
         else if kind = MATCH_TYPE_DSCP then Some (rp_dscp P = ucast (value_dscp m))
         else if kind = MATCH_TYPE_FALLBACK then Some True
         else None)"

definition kernel_clause :: "route_maps \<Rightarrow> RouteParams \<Rightarrow> nat \<Rightarrow> BpfMatchSet \<Rightarrow> clause" where
  "kernel_clause K P i m =
     \<lparr>cl_hit = (kernel_holds K P i m = Some True), cl_out = match_outbound m,
      cl_not = (match_not m \<noteq> 0), cl_mark = match_mark m, cl_must = (match_must m \<noteq> 0)\<rparr>"

definition is_dns :: "RouteParams \<Rightarrow> bool" where
  "is_dns P \<longleftrightarrow> rp_h_dport P = DNS_DEFAULT_PORT \<and>
     (rp_l4proto_type P = L4_PROTO_UDP_MATCH \<or> rp_l4proto_type P = L4_PROTO_TCP_MATCH)"

text \<open>DNS without \<^verbatim>\<open>must\<close> is left to the control plane.\<close>

definition kernel_outcome :: "RouteParams \<Rightarrow> MatchOutcome \<Rightarrow> MatchOutcome" where
  "kernel_outcome P d =
     (if \<not> outcome_must d \<and> is_dns P then d\<lparr>outcome_outbound := CONTROL_PLANE_ROUTING\<rparr> else d)"

definition encode_outcome :: "MatchOutcome \<Rightarrow> i64" where
  "encode_outcome d = route_result (outcome_outbound d) (outcome_mark d) (outcome_must d)"

section \<open>The domain word cache\<close>

definition cache_ok :: "route_maps \<Rightarrow> RouteCtx \<Rightarrow> bool" where
  "cache_ok K ctx \<longleftrightarrow>
     (let bm = domain_routing_map K (rp_daddr (rc_params ctx))
      in (rc_domain_absent ctx \<noteq> 0 \<longrightarrow> bm = None) \<and>
         (rc_domain_word_index ctx \<noteq> DOMAIN_WORD_NONE \<longrightarrow>
            (\<exists>b. bm = Some b \<and> rc_domain_word ctx = b ! unat (rc_domain_word_index ctx))))"

lemma domain_word_index:
  fixes i :: nat
  assumes "i < 1024"
  shows "unat (ucast (drop_bit 5 (word_of_nat i :: u32) AND 31) :: u16) = i div 32 mod 32"
    and "unat ((word_of_nat i :: u32) AND 31) = i mod 32"
    and "(ucast (drop_bit 5 (word_of_nat i :: u32) AND 31) :: u16) \<noteq> DOMAIN_WORD_NONE"
proof -
  have m: "x AND 31 = take_bit 5 x" for x :: u32
    by (simp add: take_bit_eq_mask mask_eq_exp_minus_1)
  have i: "unat (word_of_nat i :: u32) = i"
    using assms by (simp add: unat_of_nat)
  show a: "unat (ucast (drop_bit 5 (word_of_nat i :: u32) AND 31) :: u16) = i div 32 mod 32"
    unfolding m by (simp add: unsigned_ucast_eq take_bit_nat_eq_self unat_take_bit unat_drop_bit i)
  show "unat ((word_of_nat i :: u32) AND 31) = i mod 32"
    unfolding m by (simp add: unat_take_bit i)
  show "(ucast (drop_bit 5 (word_of_nat i :: u32) AND 31) :: u16) \<noteq> DOMAIN_WORD_NONE"
  proof
    assume "(ucast (drop_bit 5 (word_of_nat i :: u32) AND 31) :: u16) = DOMAIN_WORD_NONE"
    then have "i div 32 mod 32 = 65535" by (simp flip: a add: DOMAIN_WORD_NONE_def)
    moreover have "i div 32 mod 32 < 32" by simp
    ultimately show False by simp
  qed
qed

lemma domain_bitmap_hit_cached_correct:
  assumes "cache_ok K ctx" "i < 1024"
    and "domain_bitmap_hit_cached K ctx (word_of_nat i) = (hit, ctx')"
  shows "hit = domain_hit K (rc_params ctx) i" and "cache_ok K ctx'"
    and "\<exists>w x a. ctx' = ctx\<lparr>rc_domain_word := w, rc_domain_word_index := x, rc_domain_absent := a\<rparr>"
proof -
  have b: "(drop_bit n w AND 1 \<noteq> 0) = bit w n" for w :: u32 and n
    by (simp add: bit_iff_odd_drop_bit and_one_eq odd_iff_mod_2_eq_one)
  note idx = domain_word_index [OF assms(2)]
  show "hit = domain_hit K (rc_params ctx) i" "cache_ok K ctx'"
    using assms(1,3) idx
    by (auto simp: domain_bitmap_hit_cached_def cache_ok_def domain_hit_def Let_def b
        split: if_splits option.splits)
  show "\<exists>w x a. ctx' = ctx\<lparr>rc_domain_word := w, rc_domain_word_index := x, rc_domain_absent := a\<rparr>"
    using assms(3)
    by (cases ctx) (auto simp: domain_bitmap_hit_cached_def Let_def split: if_splits option.splits)
qed

section \<open>The callback steps like the flag loop\<close>

lemmas route_flags = ROUTE_BAD_RULE_def ROUTE_GOOD_SUBRULE_def ROUTE_MUST_def ROUTE_IS_DNS_def

lemma flag_tests:
  "s AND ROUTE_BAD_RULE = 0 \<longleftrightarrow> \<not> bit s 0"
  "s AND ROUTE_GOOD_SUBRULE = 0 \<longleftrightarrow> \<not> bit s 1"
  "s AND ROUTE_MUST = 0 \<longleftrightarrow> \<not> bit s 2"
  "s AND ROUTE_IS_DNS = 0 \<longleftrightarrow> \<not> bit s 3"
  using and_exp_eq_0_iff_not_bit [of s 0] and_exp_eq_0_iff_not_bit [of s 1]
    and_exp_eq_0_iff_not_bit [of s 2] and_exp_eq_0_iff_not_bit [of s 3]
  by (simp_all add: route_flags)

lemma flag_either: "s AND (ROUTE_GOOD_SUBRULE OR ROUTE_BAD_RULE) = 0 \<longleftrightarrow> \<not> bit s 1 \<and> \<not> bit s 0"
proof -
  have "s AND (ROUTE_GOOD_SUBRULE OR ROUTE_BAD_RULE) = (s AND ROUTE_GOOD_SUBRULE) OR (s AND ROUTE_BAD_RULE)"
    by (simp add: bit.conj_disj_distrib)
  then show ?thesis by (metis flag_tests(1,2) or_eq_0_iff)
qed

lemma flag_bits:
  "bit (s OR ROUTE_GOOD_SUBRULE) n \<longleftrightarrow> bit s n \<or> n = 1"
  "bit (s OR ROUTE_BAD_RULE) n \<longleftrightarrow> bit s n \<or> n = 0"
  "bit (s OR ROUTE_MUST) n \<longleftrightarrow> bit s n \<or> n = 2"
  "bit (s AND NOT ROUTE_GOOD_SUBRULE) n \<longleftrightarrow> bit s n \<and> n \<noteq> 1"
  "bit (s AND NOT ROUTE_BAD_RULE) n \<longleftrightarrow> bit s n \<and> n \<noteq> 0"
proof -
  have e: "ROUTE_GOOD_SUBRULE = 2 ^ 1" "ROUTE_BAD_RULE = 2 ^ 0" "ROUTE_MUST = 2 ^ 2"
    by (simp_all add: route_flags)
  have c: "bit ROUTE_GOOD_SUBRULE n \<longleftrightarrow> n = 1" "bit ROUTE_BAD_RULE n \<longleftrightarrow> n = 0"
    "bit ROUTE_MUST n \<longleftrightarrow> n = 2"
    unfolding e bit_exp_iff by (auto simp: possible_bit_word)
  have "bit s n \<Longrightarrow> n < 8" by (auto dest: bit_imp_le_length)
  then show "bit (s OR ROUTE_GOOD_SUBRULE) n \<longleftrightarrow> bit s n \<or> n = 1"
    "bit (s OR ROUTE_BAD_RULE) n \<longleftrightarrow> bit s n \<or> n = 0"
    "bit (s OR ROUTE_MUST) n \<longleftrightarrow> bit s n \<or> n = 2"
    "bit (s AND NOT ROUTE_GOOD_SUBRULE) n \<longleftrightarrow> bit s n \<and> n \<noteq> 1"
    "bit (s AND NOT ROUTE_BAD_RULE) n \<longleftrightarrow> bit s n \<and> n \<noteq> 0"
    by (auto simp: bit_or_iff bit_and_iff bit_not_iff c)
qed

text \<open>
  One callback that is not stopped by an error either decides the packet or leaves a context
  whose flags are those of the specification's loop.
\<close>

definition subrule_state :: "BpfMatchSet \<Rightarrow> u8 \<Rightarrow> u8" where
  "subrule_state m s =
     (if match_outbound m = LOGICAL_OR then s
      else (if bit s 1 = (match_not m \<noteq> 0) then s OR ROUTE_BAD_RULE else s) AND NOT ROUTE_GOOD_SUBRULE)"

definition decides :: "BpfMatchSet \<Rightarrow> u8 \<Rightarrow> bool" where
  "decides m s \<longleftrightarrow>
     match_outbound m \<notin> {LOGICAL_OR, LOGICAL_AND, MUST_RULES} \<and> \<not> bit (subrule_state m s) 0"

definition next_state :: "BpfMatchSet \<Rightarrow> u8 \<Rightarrow> u8" where
  "next_state m s =
     (let s = subrule_state m s
      in if match_outbound m = LOGICAL_OR \<or> match_outbound m = LOGICAL_AND then s
         else if match_outbound m = MUST_RULES \<and> \<not> bit s 0
         then (s OR ROUTE_MUST) AND NOT ROUTE_BAD_RULE
         else s AND NOT ROUTE_BAD_RULE)"

definition decided_result :: "BpfMatchSet \<Rightarrow> u8 \<Rightarrow> i64" where
  "decided_result m s =
     (let must = bit s 2 \<or> match_must m \<noteq> 0
      in route_result (if \<not> must \<and> bit s 3 then CONTROL_PLANE_ROUTING else match_outbound m)
           (match_mark m) must)"

lemma subrule_state_bits:
  "bit (subrule_state m s) 0 \<longleftrightarrow> bit s 0 \<or> (match_outbound m \<noteq> LOGICAL_OR \<and> bit s 1 = (match_not m \<noteq> 0))"
  "bit (subrule_state m s) (Suc 0) \<longleftrightarrow> bit s 1 \<and> match_outbound m = LOGICAL_OR"
  "bit (subrule_state m s) 2 = bit s 2"
  "bit (subrule_state m s) 3 = bit s 3"
  by (simp_all add: subrule_state_def flag_bits)

lemma next_state_bits:
  "bit (next_state m s) 0 \<longleftrightarrow>
     bit (subrule_state m s) 0 \<and> (match_outbound m = LOGICAL_OR \<or> match_outbound m = LOGICAL_AND)"
  "bit (next_state m s) (Suc 0) \<longleftrightarrow> bit s 1 \<and> match_outbound m = LOGICAL_OR"
  "bit (next_state m s) 2 \<longleftrightarrow> bit s 2 \<or> (match_outbound m = MUST_RULES \<and> \<not> bit (subrule_state m s) 0)"
  "bit (next_state m s) 3 = bit s 3"
  by (auto simp: next_state_def Let_def flag_bits subrule_state_bits)

lemma route_finish_set_eq:
  "route_finish_set m ctx =
     (if decides m (rc_state ctx)
      then (1, ctx\<lparr>rc_state := subrule_state m (rc_state ctx), rc_result := decided_result m (rc_state ctx)\<rparr>)
      else (0, ctx\<lparr>rc_state := next_state m (rc_state ctx)\<rparr>))"
proof -
  let ?c = "ctx\<lparr>rc_state := subrule_state m (rc_state ctx)\<rparr>"
  have c: "(if match_outbound m \<noteq> LOGICAL_OR
      then let subrule_hit = (rc_state ctx AND ROUTE_GOOD_SUBRULE \<noteq> 0); negated = (match_not m \<noteq> 0);
               c = (if subrule_hit = negated then route_state_or ROUTE_BAD_RULE ctx else ctx)
           in route_state_and (NOT ROUTE_GOOD_SUBRULE) c
      else ctx) = ?c"
    by (simp add: subrule_state_def route_state_or_def route_state_and_def flag_tests Let_def)
  show ?thesis
    unfolding route_finish_set_def c
    by (simp add: decides_def next_state_def decided_result_def subrule_state_bits(3,4) flag_tests
        logical_mask_iff route_state_or_def route_state_and_def Let_def)
qed
text \<open>A context in the middle of the loop for a packet with the given parameters.\<close>

definition ctx_ok :: "route_maps \<Rightarrow> RouteParams \<Rightarrow> RouteCtx \<Rightarrow> bool" where
  "ctx_ok K P ctx \<longleftrightarrow>
     rc_params ctx = P \<and> rc_h_dport ctx = rp_h_dport P \<and> rc_h_sport ctx = rp_h_sport P \<and>
     rc_lpm_key_saddr ctx = set_lpm_key (rp_saddr P) \<and> rc_lpm_key_daddr ctx = set_lpm_key (rp_daddr P) \<and>
     rc_lpm_key_mac ctx = set_lpm_key (rp_mac P) \<and> cache_ok K ctx \<and> bit (rc_state ctx) 3 = is_dns P"

lemma init_route_ctx_ok:
  "ctx_ok K P (init_route_ctx P)" "\<not> bit (rc_state (init_route_ctx P)) 0"
  "\<not> bit (rc_state (init_route_ctx P)) 1" "\<not> bit (rc_state (init_route_ctx P)) 2"
  by (simp_all add: ctx_ok_def init_route_ctx_def RouteCtx_zeroed_def cache_ok_def is_dns_def
      ROUTE_IS_DNS_def)

lemma cache_ok_state [simp]:
  "cache_ok K (ctx\<lparr>rc_state := s\<rparr>) = cache_ok K ctx"
  "cache_ok K (ctx\<lparr>rc_result := r\<rparr>) = cache_ok K ctx"
  by (simp_all add: cache_ok_def)

lemma ctx_ok_state:
  "ctx_ok K P ctx \<Longrightarrow> bit s 3 = bit (rc_state ctx) 3 \<Longrightarrow> ctx_ok K P (ctx\<lparr>rc_state := s\<rparr>)"
  by (simp add: ctx_ok_def)

lemma route_match_kind_correct:
  assumes "ctx_ok K P ctx" "i < 1024" "kernel_holds K P i m = Some h"
  shows "\<exists>ctx'. route_match_kind K (word_of_nat i) m ctx = (Inr h, ctx') \<and> ctx_ok K P ctx' \<and>
    rc_state ctx' = rc_state ctx"
proof (cases "match_kind m = MATCH_TYPE_DOMAIN_SET")
  case True
  obtain hit ctx' where run: "domain_bitmap_hit_cached K ctx (word_of_nat i) = (hit, ctx')" by fastforce
  have "cache_ok K ctx" and P: "rc_params ctx = P" using assms(1) by (simp_all add: ctx_ok_def)
  note cached = domain_bitmap_hit_cached_correct [OF \<open>cache_ok K ctx\<close> assms(2) run]
  from cached(3) obtain w x a where
    "ctx' = ctx\<lparr>rc_domain_word := w, rc_domain_word_index := x, rc_domain_absent := a\<rparr>" by blast
  with cached(2) assms(1) have "ctx_ok K P ctx'" "rc_state ctx' = rc_state ctx"
    by (simp_all add: ctx_ok_def)
  moreover have "h = hit" using assms(3) True cached(1) P by (simp add: kernel_holds_def)
  ultimately show ?thesis
    using True run by (simp add: route_match_kind_def match_type_consts)
next
  case False
  with assms(1,3) show ?thesis
    by (auto simp: route_match_kind_def kernel_holds_def ctx_ok_def Let_def match_type_consts
        split: if_splits)
qed

definition hit_state :: "bool \<Rightarrow> u8 \<Rightarrow> u8" where
  "hit_state h s = (if \<not> bit s 1 \<and> \<not> bit s 0 \<and> h then s OR ROUTE_GOOD_SUBRULE else s)"

lemma hit_state_bits:
  "bit (hit_state h s) 0 = bit s 0" "bit (hit_state h s) (Suc 0) \<longleftrightarrow> bit s 1 \<or> (\<not> bit s 0 \<and> h)"
  "bit (hit_state h s) 2 = bit s 2" "bit (hit_state h s) 3 = bit s 3"
  by (simp_all add: hit_state_def flag_bits)

lemma route_loop_cb_step:
  assumes "ctx_ok K P ctx" "i < 1024" "routing_map K (word_of_nat i) = Some m"
    and "kernel_holds K P i m = Some h"
  shows "\<exists>ctx'. ctx_ok K P ctx' \<and> rc_state ctx' = hit_state h (rc_state ctx) \<and>
    route_loop_cb K (word_of_nat i) ctx = route_finish_set m ctx'"
proof -
  have "\<not> MAX_MATCH_SET_LEN \<le> (word_of_nat i :: u32)"
    using assms(2) by (simp add: MAX_MATCH_SET_LEN_def word_le_nat_alt unat_of_nat)
  then have cb: "route_loop_cb K (word_of_nat i) ctx =
      (if \<not> bit (rc_state ctx) 1 \<and> \<not> bit (rc_state ctx) 0
       then case route_match_kind K (word_of_nat i) m ctx of
              (Inl err, ctx') \<Rightarrow> (1, ctx'\<lparr>rc_result := err\<rparr>)
            | (Inr hit, ctx') \<Rightarrow>
                route_finish_set m (if hit then route_state_or ROUTE_GOOD_SUBRULE ctx' else ctx')
       else route_finish_set m ctx)"
    by (simp add: route_loop_cb_def assms(3) flag_either)
  show ?thesis
  proof (cases "\<not> bit (rc_state ctx) 1 \<and> \<not> bit (rc_state ctx) 0")
    case True
    from route_match_kind_correct [OF assms(1,2,4)] obtain ctx' where
      run: "route_match_kind K (word_of_nat i) m ctx = (Inr h, ctx')" and ok: "ctx_ok K P ctx'"
      and s: "rc_state ctx' = rc_state ctx" by blast
    let ?c = "if h then route_state_or ROUTE_GOOD_SUBRULE ctx' else ctx'"
    have "ctx_ok K P ?c" using ok by (simp add: route_state_or_def ctx_ok_state flag_bits)
    moreover have "rc_state ?c = hit_state h (rc_state ctx)"
      using True s by (simp add: hit_state_def route_state_or_def)
    ultimately show ?thesis using cb True run by auto
  next
    case False
    then have "hit_state h (rc_state ctx) = rc_state ctx" by (auto simp: hit_state_def)
    with cb False assms(1) show ?thesis by auto
  qed
qed

lemma decided_result_outcome:
  assumes "bit s 3 = is_dns P"
  shows "decided_result m s = encode_outcome (kernel_outcome P (rule_outcome (bit s 2) (kernel_clause K P i m)))"
  using assms
  by (cases "bit s 2"; cases "match_must m = 0")
    (simp_all add: decided_result_def encode_outcome_def kernel_outcome_def rule_outcome_def
      kernel_clause_def)

lemma loop_decides:
  assumes "\<forall>j < length ms. routing_map K (word_of_nat (i + j)) = Some (ms ! j) \<and>
      kernel_holds K P (i + j) (ms ! j) \<noteq> None"
    and "i + length ms \<le> 1024" "length ms \<le> n" "ctx_ok K P ctx"
    and "clause_loop (bit (rc_state ctx) 1) (bit (rc_state ctx) 0) (bit (rc_state ctx) 2)
      (map (\<lambda>(j, m). kernel_clause K P j m) (enumerate i ms)) = Some d"
  shows "\<exists>k ctx'. loop_from (route_loop_cb K) n i ctx = (k, ctx') \<and> k \<le> i + n \<and>
    rc_result ctx' = encode_outcome (kernel_outcome P d)"
  using assms
proof (induction ms arbitrary: i n ctx)
  case Nil
  then show ?case by simp
next
  case (Cons m ms)
  obtain n' where n: "n = Suc n'" using Cons.prems(3) by (cases n) auto
  let ?c = "kernel_clause K P i m" and ?s = "rc_state ctx"
  from Cons.prems(1) have m: "routing_map K (word_of_nat i) = Some m" and "kernel_holds K P i m \<noteq> None"
    by (metis add_0_right length_greater_0_conv list.distinct(1) nth_Cons_0)+
  then obtain h where h: "kernel_holds K P i m = Some h" by auto
  have hit: "cl_hit ?c = h" using h by (simp add: kernel_clause_def)
  obtain c1 where ok: "ctx_ok K P c1" and s1: "rc_state c1 = hit_state h ?s"
    and cb: "route_loop_cb K (word_of_nat i) ctx = route_finish_set m c1"
    using route_loop_cb_step [OF Cons.prems(4) _ m h] Cons.prems(2) by auto
  have rest: "\<forall>j < length ms. routing_map K (word_of_nat (Suc i + j)) = Some (ms ! j) \<and>
      kernel_holds K P (Suc i + j) (ms ! j) \<noteq> None"
    using Cons.prems(1) by (metis Suc_less_eq add_Suc_shift length_Cons nth_Cons_Suc)
  let ?good = "bit (hit_state h ?s) 1"
  have loop: "clause_loop (bit ?s 1) (bit ?s 0) (bit ?s 2) (?c # cs) =
      (if decides m (hit_state h ?s) then Some (rule_outcome (bit ?s 2) ?c)
       else let s' = next_state m (hit_state h ?s) in clause_loop (bit s' 1) (bit s' 0) (bit s' 2) cs)" for cs
    by (simp add: Let_def hit decides_def next_state_bits subrule_state_bits hit_state_bits ends_rule_def)
      (auto simp: kernel_clause_def)
  show ?case
  proof (cases "decides m (hit_state h ?s)")
    case True
    then have d: "d = rule_outcome (bit ?s 2) ?c" using Cons.prems(5) loop by simp
    have "bit (hit_state h ?s) 3 = is_dns P" using ok s1 by (simp add: ctx_ok_def)
    then show ?thesis
      using True d by (simp add: n cb route_finish_set_eq s1 decided_result_outcome [where K = K and i = i]
          hit_state_bits)
  next
    case False
    let ?c2 = "c1\<lparr>rc_state := next_state m (hit_state h ?s)\<rparr>"
    have "\<exists>k ctx'. loop_from (route_loop_cb K) n' (Suc i) ?c2 = (k, ctx') \<and> k \<le> Suc i + n' \<and>
        rc_result ctx' = encode_outcome (kernel_outcome P d)"
    proof (rule Cons.IH [OF rest])
      show "ctx_ok K P ?c2" using ok s1 by (simp add: ctx_ok_state next_state_bits)
      show "clause_loop (bit (rc_state ?c2) 1) (bit (rc_state ?c2) 0) (bit (rc_state ?c2) 2)
          (map (\<lambda>(j, m). kernel_clause K P j m) (enumerate (Suc i) ms)) = Some d"
        using Cons.prems(5) False loop by (simp add: Let_def)
    qed (use Cons.prems(2,3) n in auto)
    then show ?thesis using False by (simp add: n cb route_finish_set_eq s1)
  qed
qed

section \<open>Results\<close>

lemma sint_nonneg: "\<not> bit w 63 \<Longrightarrow> 0 \<le> sint (w :: i64)"
  using bit_last_iff [of w] by simp

lemma bit_route_result:
  "bit (route_result out mark must) n \<longleftrightarrow>
     (n < 8 \<and> bit out n) \<or> (8 \<le> n \<and> n < 40 \<and> bit mark (n - 8)) \<or> (n = 40 \<and> must)"
proof -
  have "bit out n \<Longrightarrow> n < 8" "bit mark (n - 8) \<Longrightarrow> n - 8 < 32"
    by (auto dest: bit_imp_le_length)
  then show ?thesis by (auto simp: route_result_def bit_simps)
qed

lemma route_result_fields:
  "0 \<le> sint (route_result out mark must)"
  "ucast (route_result out mark must) = out"
  "ucast (drop_bit 8 (route_result out mark must)) = mark"
  "bit (route_result out mark must) 40 = must"
proof -
  show "0 \<le> sint (route_result out mark must)" by (rule sint_nonneg) (simp add: bit_route_result)
  show "ucast (route_result out mark must) = out"
    by (rule bit_word_eqI) (simp add: bit_simps bit_route_result)
  show "ucast (drop_bit 8 (route_result out mark must)) = mark"
    by (rule bit_word_eqI) (simp add: bit_simps bit_route_result)
qed (simp add: bit_route_result)

lemma word_of_nat_small_nonneg: "k \<le> 2048 \<Longrightarrow> 0 \<le> sint (word_of_nat k :: i64)"
proof (rule sint_nonneg)
  assume "k \<le> 2048"
  then have "unat (word_of_nat k :: i64) < 2 ^ 63" by (simp add: unat_of_nat)
  then have "drop_bit 63 (word_of_nat k :: i64) = 0"
    by (simp add: word_eq_iff_unsigned [where 'a = nat] unat_drop_bit)
  then show "\<not> bit (word_of_nat k :: i64) 63" by (simp add: bit_iff_odd_drop_bit)
qed

lemma max_match_set_len: "unat MAX_MATCH_SET_LEN = 1024"
  by (simp add: MAX_MATCH_SET_LEN_def)

text \<open>What a callback may leave behind as the result of the route.\<close>

definition decided_by :: "route_maps \<Rightarrow> i64 \<Rightarrow> bool" where
  "decided_by K r \<longleftrightarrow>
     (\<exists>i m out must. routing_map K i = Some m \<and> i < MAX_MATCH_SET_LEN \<and>
        match_outbound m \<notin> {LOGICAL_OR, LOGICAL_AND, MUST_RULES} \<and>
        out \<in> {match_outbound m, CONTROL_PLANE_ROUTING} \<and> r = route_result out (match_mark m) must)"

lemma route_match_kind_result:
  "route_match_kind K i m ctx = (r, ctx') \<Longrightarrow>
     rc_result ctx' = rc_result ctx \<and> (\<forall>e. r = Inl e \<longrightarrow> e = - EFAULT \<or> e = - EINVAL)"
  by (auto simp: route_match_kind_def domain_bitmap_hit_cached_def Let_def
      split: if_splits option.splits prod.splits)

lemma route_finish_set_result:
  assumes "routing_map K i = Some m" "i < MAX_MATCH_SET_LEN" "route_finish_set m ctx = (r, ctx')"
  shows "(r = 0 \<and> rc_result ctx' = rc_result ctx) \<or> (r = 1 \<and> decided_by K (rc_result ctx'))"
proof (cases "decides m (rc_state ctx)")
  case True
  let ?must = "bit (rc_state ctx) 2 \<or> match_must m \<noteq> 0"
  let ?out = "if \<not> ?must \<and> bit (rc_state ctx) 3 then CONTROL_PLANE_ROUTING else match_outbound m"
  have "decided_result m (rc_state ctx) = route_result ?out (match_mark m) ?must"
    by (simp only: decided_result_def Let_def)
  moreover have "?out \<in> {match_outbound m, CONTROL_PLANE_ROUTING}" by simp
  ultimately have "decided_by K (decided_result m (rc_state ctx))"
    unfolding decided_by_def using True assms(1,2) unfolding decides_def by blast
  with True assms(3) show ?thesis by (auto simp: route_finish_set_eq)
next
  case False
  with assms(3) show ?thesis by (auto simp: route_finish_set_eq)
qed

lemma route_loop_cb_result:
  assumes "route_loop_cb K i ctx = (r, ctx')"
  shows "(r = 0 \<and> rc_result ctx' = rc_result ctx) \<or>
    (r = 1 \<and> (rc_result ctx' = - EFAULT \<or> rc_result ctx' = - EINVAL \<or> decided_by K (rc_result ctx')))"
proof (cases "MAX_MATCH_SET_LEN \<le> i \<or> routing_map K i = None")
  case True
  with assms show ?thesis by (auto simp: route_loop_cb_def split: if_splits option.splits)
next
  case False
  then obtain m where m: "routing_map K i = Some m" and i: "i < MAX_MATCH_SET_LEN" by auto
  obtain q c where k: "route_match_kind K i m ctx = (q, c)" by fastforce
  note q = route_match_kind_result [OF k]
  show ?thesis
  proof (cases "rc_state ctx AND (ROUTE_GOOD_SUBRULE OR ROUTE_BAD_RULE) = 0")
    case True
    show ?thesis
    proof (cases q)
      case (Inl e)
      with assms m False True k q show ?thesis by (auto simp: route_loop_cb_def)
    next
      case (Inr h)
      with assms m False True k have
        "route_finish_set m (if h then route_state_or ROUTE_GOOD_SUBRULE c else c) = (r, ctx')"
        by (simp add: route_loop_cb_def)
      from route_finish_set_result [OF m i this] q show ?thesis
        by (auto simp: route_state_or_def split: if_splits)
    qed
  next
    case nz: False
    with assms m False have "route_finish_set m ctx = (r, ctx')" by (simp add: route_loop_cb_def)
    from route_finish_set_result [OF m i this] show ?thesis by auto
  qed
qed

lemma loop_from_result:
  assumes "loop_from (route_loop_cb K) n i ctx = (k, ctx')" "sint (rc_result ctx) < 0"
  shows "sint (rc_result ctx') < 0 \<or> decided_by K (rc_result ctx')"
  using assms
proof (induction n arbitrary: i ctx)
  case (Suc n)
  obtain r c where cb: "route_loop_cb K (word_of_nat i) ctx = (r, c)" by fastforce
  have neg: "sint (- EFAULT) < 0" "sint (- EINVAL) < 0" by (simp_all add: EFAULT_def EINVAL_def)
  from route_loop_cb_result [OF cb] show ?case
  proof
    assume "r = 0 \<and> rc_result c = rc_result ctx"
    with Suc cb show ?thesis by simp
  next
    assume "r = 1 \<and> (rc_result c = - EFAULT \<or> rc_result c = - EINVAL \<or> decided_by K (rc_result c))"
    with Suc.prems cb neg show ?thesis by auto
  qed
qed simp

section \<open>Properties\<close>

text \<open>The match sets at the head of the table decide a packet.\<close>

definition rules_decide :: "route_maps \<Rightarrow> RouteParams \<Rightarrow> BpfMatchSet list \<Rightarrow> MatchOutcome \<Rightarrow> bool" where
  "rules_decide K P ms d \<longleftrightarrow>
     length ms \<le> 1024 \<and>
     (\<forall>j < length ms. routing_map K (word_of_nat j) = Some (ms ! j) \<and> kernel_holds K P j (ms ! j) \<noteq> None) \<and>
     decide False (rules_of (map (\<lambda>(j, m). kernel_clause K P j m) (enumerate 0 ms))) = Some d"

lemma route_decides:
  assumes "bpf_loop_ok bpf_loop" and "rules_decide K P ms d"
  shows "route bpf_loop K P = encode_outcome (kernel_outcome P d)"
proof -
  let ?c = "init_route_ctx P"
  have "\<exists>k ctx'. loop_from (route_loop_cb K) 1024 0 ?c = (k, ctx') \<and> k \<le> 0 + 1024 \<and>
      rc_result ctx' = encode_outcome (kernel_outcome P d)"
  proof (rule loop_decides)
    show "clause_loop (bit (rc_state ?c) 1) (bit (rc_state ?c) 0) (bit (rc_state ?c) 2)
        (map (\<lambda>(j, m). kernel_clause K P j m) (enumerate 0 ms)) = Some d"
      using assms(2) init_route_ctx_ok [where P = P] by (simp add: rules_decide_def clause_loop_decide)
  qed (use assms(2) init_route_ctx_ok in \<open>simp_all add: rules_decide_def\<close>)
  then obtain k ctx' where run: "loop_from (route_loop_cb K) 1024 0 ?c = (k, ctx')" and k: "k \<le> 1024"
    and r: "rc_result ctx' = encode_outcome (kernel_outcome P d)" by auto
  have "0 \<le> sint (word_of_nat k :: i64)" using k by (simp add: word_of_nat_small_nonneg)
  moreover have "0 \<le> sint (rc_result ctx')" by (simp add: r encode_outcome_def route_result_fields)
  ultimately show ?thesis
    using assms(1) run r by (simp add: route_def bpf_loop_ok_def bpf_loop_ref_def max_match_set_len)
qed

text \<open>
  C6. If the match sets installed in the first entries of \<^verbatim>\<open>routing_map\<close> are well-formed and decide
  the packet, the kernel returns that decision: the first rule that holds, with the packet of
  a DNS query redirected to the control plane unless \<^verbatim>\<open>must\<close> is set.  Entries behind the
  deciding rule, the single cached bitmap word and the early exits of the callback have no
  influence.
\<close>

theorem route_by_rules:
  assumes "bpf_loop_ok bpf_loop" and "length ms \<le> 1024"
    and "\<forall>j < length ms. routing_map K (word_of_nat j) = Some (ms ! j) \<and> kernel_holds K P j (ms ! j) \<noteq> None"
    and "decide False (rules_of (map (\<lambda>(j, m). kernel_clause K P j m) (enumerate 0 ms))) = Some d"
  shows "route bpf_loop K P = encode_outcome (kernel_outcome P d)"
  by (rule route_decides [OF assms(1)]) (use assms(2-4) in \<open>simp add: rules_decide_def\<close>)

theorem route_by_rules_witness:
  "route bpf_loop_ref
     \<lparr>routing_map = (\<lambda>i. if i = 0 then Some \<lparr>match_value = 0xBB # 1 # 0xBB # 1 # replicate 12 0,
          match_not = 0, match_kind = MATCH_TYPE_PORT, match_outbound = 5, match_must = 0, match_mark = 7\<rparr>
        else None),
      lpm_array_map = (\<lambda>_. None), domain_routing_map = (\<lambda>_. None)\<rparr>
     (RouteParams_zeroed\<lparr>rp_h_dport := 443\<rparr>) = encode_outcome
       \<lparr>outcome_outbound = 5, outcome_mark = 7, outcome_must = False\<rparr>"
    (is "route _ ?K ?P = encode_outcome ?d")
proof -
  let ?m = "\<lparr>match_value = 0xBB # 1 # 0xBB # 1 # replicate 12 0, match_not = 0, match_kind = MATCH_TYPE_PORT,
    match_outbound = 5, match_must = 0, match_mark = 7\<rparr>"
  have v: "le_word [0xBB, 1] = (443 :: u16)" by code_simp
  have h: "kernel_holds ?K ?P 0 ?m = Some True"
    by (simp add: kernel_holds_def match_type_consts value_port_start_def value_port_end_def v)
  have "route bpf_loop_ref ?K ?P = encode_outcome (kernel_outcome ?P ?d)"
    by (rule route_by_rules [where ms = "[?m]"])
      (simp_all add: bpf_loop_ok_def h kernel_clause_def rules_of_def ends_rule_def rule_holds_from
        outbound_consts rule_outcome_def)
  then show ?thesis by (simp add: kernel_outcome_def is_dns_def DNS_DEFAULT_PORT_def)
qed

text \<open>
  C13. A non-negative result always stems from an installed match set: its mark, and its outbound
  or the control plane; never from a connective or \<^verbatim>\<open>must_rules\<close>, and never from an error.
\<close>

theorem route_never_fabricates:
  assumes "bpf_loop_ok bpf_loop" and "0 \<le> sint (route bpf_loop K P)"
  shows "decided_by K (route bpf_loop K P)"
proof -
  obtain k ctx' where run: "loop_from (route_loop_cb K) 1024 0 (init_route_ctx P) = (k, ctx')" by fastforce
  have "sint (rc_result (init_route_ctx P)) < 0" by (simp add: init_route_ctx_def ENOEXEC_def)
  note r = loop_from_result [OF run this]
  have "sint (- EPERM) < 0" by (simp add: EPERM_def)
  with r assms run show ?thesis
    by (auto simp: route_def bpf_loop_ok_def bpf_loop_ref_def max_match_set_len split: if_splits)
qed

theorem route_never_fabricates_witness:
  "decided_by
     \<lparr>routing_map = (\<lambda>i. Some \<lparr>match_value = replicate 16 0, match_not = 0, match_kind = MATCH_TYPE_FALLBACK,
        match_outbound = 1, match_must = 0, match_mark = 0\<rparr>),
      lpm_array_map = (\<lambda>_. None), domain_routing_map = (\<lambda>_. None)\<rparr>
     (route bpf_loop_ref
       \<lparr>routing_map = (\<lambda>i. Some \<lparr>match_value = replicate 16 0, match_not = 0, match_kind = MATCH_TYPE_FALLBACK,
          match_outbound = 1, match_must = 0, match_mark = 0\<rparr>),
        lpm_array_map = (\<lambda>_. None), domain_routing_map = (\<lambda>_. None)\<rparr> RouteParams_zeroed)"
    (is "decided_by ?K _")
proof (rule route_never_fabricates)
  let ?m = "\<lparr>match_value = replicate 16 0, match_not = 0, match_kind = MATCH_TYPE_FALLBACK,
    match_outbound = 1, match_must = 0, match_mark = 0\<rparr> :: BpfMatchSet"
  have "route_loop_cb ?K 0 (init_route_ctx RouteParams_zeroed) =
      (1, (init_route_ctx RouteParams_zeroed)\<lparr>rc_state := 0, rc_result := route_result 1 0 False\<rparr>)"
    by (simp add: route_loop_cb_def route_match_kind_def match_type_consts MAX_MATCH_SET_LEN_def
        init_route_ctx_def RouteCtx_zeroed_def RouteParams_zeroed_def DNS_DEFAULT_PORT_def route_flags
        route_finish_set_def route_state_or_def route_state_and_def outbound_consts)
  then have "loop_from (route_loop_cb ?K) 1024 0 (init_route_ctx RouteParams_zeroed) =
      (1, (init_route_ctx RouteParams_zeroed)\<lparr>rc_state := 0, rc_result := route_result 1 0 False\<rparr>)"
    by (simp add: numeral_eq_Suc)
  then show "0 \<le> sint (route bpf_loop_ref ?K RouteParams_zeroed)"
    by (simp add: route_def bpf_loop_ref_def max_match_set_len route_result_fields)
qed (simp add: bpf_loop_ok_def)

text \<open>
  C14. The packed 64-bit result is non-negative and its fields read back the outbound, the mark
  and the must flag.
\<close>

theorem route_result_roundtrip:
  "0 \<le> sint (route_result out mark must) \<and> ucast (route_result out mark must) = out \<and>
   ucast (drop_bit 8 (route_result out mark must)) = mark \<and>
   (drop_bit 40 (route_result out mark must) AND 1 \<noteq> 0) = must"
  using route_result_fields [of out mark must]
  by (simp add: bit_iff_odd_drop_bit and_one_eq odd_iff_mod_2_eq_one)



end
