(* ===== verification/Bpf_Packet.thy ===== *)
theory Bpf_Packet
  imports Bpf_Abi
begin

text \<open>
  \<^verbatim>\<open>dae-ebpf-program/src/packet.rs\<close> and \<^verbatim>\<open>redirect_key.rs\<close>: parsing a packet up to its transport
  header, and the flow tuples derived from it.  The helper \<^verbatim>\<open>bpf_skb_load_bytes\<close> is the parameter
  \<open>load\<close>: offset and length to the bytes, or \<^term>\<open>None\<close> when the kernel refuses.  Return codes of
  the parser are integers; multi-byte fields are kept in network order as in the source, so a
  16-bit field read with \<^verbatim>\<open>from_ne_bytes\<close> is a little-endian word.
\<close>

section \<open>Constants and structures\<close>

definition swap16 :: "u16 \<Rightarrow> u16" where
  "swap16 x = le_word (rev (le_bytes 2 x))"

definition ETH_HLEN :: u32 where "ETH_HLEN = 14"
definition ETH_SRC_OFFSET :: u32 where "ETH_SRC_OFFSET = 6"
definition ETH_PROTO_OFFSET :: u32 where "ETH_PROTO_OFFSET = 12"
definition ETH_P_IP_NETWORK :: u32 where "ETH_P_IP_NETWORK = ucast (swap16 0x0800)"
definition ETH_P_IPV6_NETWORK :: u32 where "ETH_P_IPV6_NETWORK = ucast (swap16 0x86dd)"
definition ETH_P_8021Q_NETWORK :: u32 where "ETH_P_8021Q_NETWORK = ucast (swap16 0x8100)"
definition ETH_P_8021AD_NETWORK :: u32 where "ETH_P_8021AD_NETWORK = ucast (swap16 0x88a8)"
definition IPPROTO_TCP :: u8 where "IPPROTO_TCP = 6"
definition IPPROTO_UDP :: u8 where "IPPROTO_UDP = 17"
definition IPPROTO_ICMPV6 :: u8 where "IPPROTO_ICMPV6 = 58"
definition NDP_REDIRECT :: u8 where "NDP_REDIRECT = 137"
definition IPPROTO_HOPOPTS :: u8 where "IPPROTO_HOPOPTS = 0"
definition IPPROTO_ROUTING :: u8 where "IPPROTO_ROUTING = 43"
definition IPPROTO_FRAGMENT :: u8 where "IPPROTO_FRAGMENT = 44"
definition IPPROTO_NONE :: u8 where "IPPROTO_NONE = 59"
definition IPPROTO_DSTOPTS :: u8 where "IPPROTO_DSTOPTS = 60"
definition IPV4_MIN_HEADER_LEN :: u32 where "IPV4_MIN_HEADER_LEN = 20"
definition IPV6_HEADER_LEN :: u32 where "IPV6_HEADER_LEN = 40"
definition IPV6_MAX_EXTENSIONS :: nat where "IPV6_MAX_EXTENSIONS = 8"
definition VLAN_HLEN :: u32 where "VLAN_HLEN = 4"
definition VLAN_MAX_DEPTH :: nat where "VLAN_MAX_DEPTH = 2"
definition VLAN_DEPTH_MASK :: u8 where "VLAN_DEPTH_MASK = 3"
definition VLAN_OUTER_8021AD :: u8 where "VLAN_OUTER_8021AD = 4"
definition VLAN_INNER_8021AD :: u8 where "VLAN_INNER_8021AD = 8"

record ParsedPacket =
  eth_src :: bytes
  eth_dst :: bytes
  h_proto :: u32
  p_sip :: BpfIpBytes
  p_dip :: BpfIpBytes
  p_sport :: u16
  p_dport :: u16
  p_l4proto :: u8
  p_dscp :: u8
  tcp_flags :: u8
  icmp6_type :: u8
  p_is_ipv4 :: u8
  vlan_metadata :: u8
  vlan_tci :: "u16 list"

definition ParsedPacket_zeroed :: ParsedPacket where
  "ParsedPacket_zeroed =
     \<lparr>eth_src = replicate 6 0, eth_dst = replicate 6 0, h_proto = 0, p_sip = BpfIpBytes_zeroed,
      p_dip = BpfIpBytes_zeroed, p_sport = 0, p_dport = 0, p_l4proto = 0, p_dscp = 0, tcp_flags = 0,
      icmp6_type = 0, p_is_ipv4 = 0, vlan_metadata = 0, vlan_tci = [0, 0]\<rparr>"

text \<open>The fields of \<^verbatim>\<open>__sk_buff\<close> the parser reads besides the packet bytes.\<close>

record skb_meta =
  skb_protocol :: u32
  skb_vlan_present :: u32
  skb_vlan_proto :: u32
  skb_vlan_tci :: u32

type_synonym load_helper = "u32 \<Rightarrow> u32 \<Rightarrow> bytes option"

definition read_ne_u16 :: "bytes \<Rightarrow> nat \<Rightarrow> u16" where
  "read_ne_u16 bs i = le_word [bs ! i, bs ! (i + 1)]"

definition read_be_u16 :: "bytes \<Rightarrow> nat \<Rightarrow> u16" where
  "read_be_u16 bs i = be_word [bs ! i, bs ! (i + 1)]"

definition read_ne_u32 :: "bytes \<Rightarrow> nat \<Rightarrow> u32" where
  "read_ne_u32 bs i = le_word [bs ! i, bs ! (i + 1), bs ! (i + 2), bs ! (i + 3)]"

section \<open>The parser\<close>

definition is_ipv6_extension_header :: "u8 \<Rightarrow> bool" where
  "is_ipv6_extension_header nexthdr \<longleftrightarrow>
     nexthdr = IPPROTO_HOPOPTS \<or> nexthdr = IPPROTO_ROUTING \<or> nexthdr = IPPROTO_FRAGMENT \<or>
     nexthdr = IPPROTO_DSTOPTS"

definition ipv6_optlen :: "u8 \<Rightarrow> u32" where
  "ipv6_optlen hdr_ext_len = push_bit 3 (ucast hdr_ext_len + 1)"

definition is_vlan_protocol :: "u32 \<Rightarrow> bool" where
  "is_vlan_protocol proto \<longleftrightarrow> proto = ETH_P_8021Q_NETWORK \<or> proto = ETH_P_8021AD_NETWORK"

text \<open>\<^term>\<open>None\<close> when the depth is not representable.\<close>

definition record_vlan :: "nat \<Rightarrow> u16 \<Rightarrow> u16 \<Rightarrow> ParsedPacket \<Rightarrow> ParsedPacket option" where
  "record_vlan depth protocol tci p =
     (let finish = (\<lambda>q. Some (q\<lparr>vlan_metadata :=
                        (vlan_metadata q AND NOT VLAN_DEPTH_MASK) OR (word_of_nat depth + 1)\<rparr>))
      in if depth = 0
         then finish (p\<lparr>vlan_tci := (vlan_tci p)[0 := tci],
                        vlan_metadata := (if protocol = ucast ETH_P_8021AD_NETWORK
                                          then vlan_metadata p OR VLAN_OUTER_8021AD else vlan_metadata p)\<rparr>)
         else if depth = 1
         then finish (p\<lparr>vlan_tci := (vlan_tci p)[1 := tci],
                        vlan_metadata := (if protocol = ucast ETH_P_8021AD_NETWORK
                                          then vlan_metadata p OR VLAN_INNER_8021AD else vlan_metadata p)\<rparr>)
         else None)"

definition vlan_protocol_at :: "u8 \<Rightarrow> u8 \<Rightarrow> u16" where
  "vlan_protocol_at metadata index =
     (let is_8021ad = (if index = 0 then metadata AND VLAN_OUTER_8021AD \<noteq> 0
                       else metadata AND VLAN_INNER_8021AD \<noteq> 0)
      in if is_8021ad then ucast ETH_P_8021AD_NETWORK else ucast ETH_P_8021Q_NETWORK)"

definition parse_l4 :: "load_helper \<Rightarrow> u32 \<Rightarrow> ParsedPacket \<Rightarrow> int \<times> ParsedPacket" where
  "parse_l4 load transport_offset out =
     (let proto = p_l4proto out
      in if proto = IPPROTO_TCP
         then case load transport_offset 20 of
                None \<Rightarrow> (- 1, out)
              | Some tcp \<Rightarrow>
                  (0, out\<lparr>p_sport := read_ne_u16 tcp 0, p_dport := read_ne_u16 tcp 2, tcp_flags := tcp ! 13\<rparr>)
         else if proto = IPPROTO_UDP
         then case load transport_offset 8 of
                None \<Rightarrow> (- 1, out)
              | Some udp \<Rightarrow> (0, out\<lparr>p_sport := read_ne_u16 udp 0, p_dport := read_ne_u16 udp 2\<rparr>)
         else if proto = IPPROTO_ICMPV6
         then case load transport_offset 8 of
                None \<Rightarrow> (- 1, out)
              | Some icmp \<Rightarrow> (0, out\<lparr>icmp6_type := icmp ! 0\<rparr>)
         else (1, out))"

definition parse_ipv4 :: "load_helper \<Rightarrow> u32 \<Rightarrow> ParsedPacket \<Rightarrow> int \<times> ParsedPacket" where
  "parse_ipv4 load network_offset out =
     (case load network_offset IPV4_MIN_HEADER_LEN of
        None \<Rightarrow> (- 1, out)
      | Some ip \<Rightarrow>
          let ihl = ucast (ip ! 0 AND 0x0f) * (4 :: u32)
          in if ihl < IPV4_MIN_HEADER_LEN then (- 3, out)
             else
               let out' = out\<lparr>p_is_ipv4 := 1, p_l4proto := ip ! 9, p_dscp := drop_bit 2 (ip ! 1 AND 0xfc),
                              p_sip := take 10 (p_sip out) @ [0xff, 0xff] @ take 4 (drop 12 ip),
                              p_dip := take 10 (p_dip out) @ [0xff, 0xff] @ take 4 (drop 16 ip)\<rparr>
               in if read_be_u16 ip 6 AND 0x1fff \<noteq> 0 then (1, out')
                  else parse_l4 load (network_offset + ihl) out')"

text \<open>
  The extension header loop with the number of headers still allowed; the result is an error
  code or the protocol and the offset behind the last header read.
\<close>

fun ipv6_extensions :: "load_helper \<Rightarrow> nat \<Rightarrow> u32 \<Rightarrow> u8 \<Rightarrow> (int, u8 \<times> u32) result" where
  "ipv6_extensions load 0 offset nexthdr = Inr (nexthdr, offset)"
| "ipv6_extensions load (Suc k) offset nexthdr =
     (if nexthdr = IPPROTO_NONE \<or> \<not> is_ipv6_extension_header nexthdr then Inr (nexthdr, offset)
      else if nexthdr = IPPROTO_FRAGMENT
      then case load offset 8 of
             None \<Rightarrow> Inl (- 1)
           | Some fragment \<Rightarrow>
               if read_be_u16 fragment 2 AND 0xfff8 \<noteq> 0 then Inl 1
               else ipv6_extensions load k (offset + 8) (fragment ! 0)
      else case load offset 2 of
             None \<Rightarrow> Inl (- 1)
           | Some ext \<Rightarrow> ipv6_extensions load k (offset + ipv6_optlen (ext ! 1)) (ext ! 0))"

definition parse_ipv6 :: "load_helper \<Rightarrow> u32 \<Rightarrow> ParsedPacket \<Rightarrow> int \<times> ParsedPacket" where
  "parse_ipv6 load network_offset out =
     (case load network_offset IPV6_HEADER_LEN of
        None \<Rightarrow> (- 1, out)
      | Some ip \<Rightarrow>
          let out' = out\<lparr>p_is_ipv4 := 0, p_dscp := push_bit 2 (ip ! 0 AND 0x0f) OR drop_bit 6 (ip ! 1),
                         p_sip := take 16 (drop 8 ip), p_dip := take 16 (drop 24 ip)\<rparr>
          in case ipv6_extensions load IPV6_MAX_EXTENSIONS (network_offset + IPV6_HEADER_LEN) (ip ! 6) of
               Inl code \<Rightarrow> (code, out')
             | Inr (nexthdr, offset) \<Rightarrow>
                 if is_ipv6_extension_header nexthdr then (1, out')
                 else parse_l4 load offset (out'\<lparr>p_l4proto := nexthdr\<rparr>))"

text \<open>
  The loop over VLAN tags inside the packet: an error code, or the protocol and the offset of
  the network header.
\<close>

function vlan_loop ::
    "load_helper \<Rightarrow> nat \<Rightarrow> u32 \<Rightarrow> u32 \<Rightarrow> ParsedPacket \<Rightarrow> (int, u32 \<times> u32) result \<times> ParsedPacket" where
  "vlan_loop load vlan_depth network_offset proto out =
     (if \<not> is_vlan_protocol proto then (Inr (proto, network_offset), out)
      else if vlan_depth \<ge> VLAN_MAX_DEPTH then (Inl 1, out)
      else case load network_offset VLAN_HLEN of
             None \<Rightarrow> (Inl (- 1), out)
           | Some tag \<Rightarrow>
               let tci = swap16 (read_ne_u16 tag 0);
                   next_proto = ucast (read_ne_u16 tag 2)
               in case record_vlan vlan_depth (ucast proto) tci (out\<lparr>p_sport := 0, p_dport := 0\<rparr>) of
                    None \<Rightarrow> (Inl 1, out\<lparr>p_sport := 0, p_dport := 0\<rparr>)
                  | Some out' \<Rightarrow>
                      vlan_loop load (Suc vlan_depth) (network_offset + VLAN_HLEN) next_proto out')"
  by pat_completeness auto
termination
  by (relation "measure (\<lambda>(load, vlan_depth, _). VLAN_MAX_DEPTH - vlan_depth)") auto

declare vlan_loop.simps [simp del]

text \<open>
  A tag the device stripped, recorded at depth 0 with the depth reached; the link header, with
  the offset behind it; the network header behind all tags.
\<close>

definition hw_vlan :: "skb_meta \<Rightarrow> ParsedPacket \<Rightarrow> (nat \<times> ParsedPacket) option" where
  "hw_vlan skb out =
     (if skb_vlan_present skb \<noteq> 0
      then let protocol = skb_vlan_proto skb AND 0xffff
           in if \<not> is_vlan_protocol protocol then None
              else map_option (\<lambda>q. (1, q))
                     (record_vlan 0 (ucast protocol) (ucast (skb_vlan_tci skb AND 0xffff)) out)
      else Some (0, out))"

definition link_header :: "load_helper \<Rightarrow> u32 \<Rightarrow> ParsedPacket \<Rightarrow> (u32 \<times> ParsedPacket) option" where
  "link_header load link_h_len out =
     (if link_h_len = ETH_HLEN
      then map_option
             (\<lambda>eth. (ETH_HLEN, out\<lparr>eth_dst := take 6 eth, eth_src := take 6 (drop 6 eth),
                                   h_proto := ucast (read_ne_u16 eth 12)\<rparr>))
             (load 0 ETH_HLEN)
      else Some (0, out))"

definition parse_network :: "load_helper \<Rightarrow> nat \<Rightarrow> u32 \<Rightarrow> ParsedPacket \<Rightarrow> int \<times> ParsedPacket" where
  "parse_network load vlan_depth network_offset out =
     (case vlan_loop load vlan_depth network_offset (h_proto out) out of
        (Inl code, out') \<Rightarrow> (code, out')
      | (Inr (proto, offset), out') \<Rightarrow>
          let out'' = out'\<lparr>h_proto := proto\<rparr>
          in if proto = ETH_P_IP_NETWORK then parse_ipv4 load offset out''
             else if proto = ETH_P_IPV6_NETWORK then parse_ipv6 load offset out''
             else (1, out''))"

definition parse_transport :: "skb_meta \<Rightarrow> load_helper \<Rightarrow> u32 \<Rightarrow> int \<times> ParsedPacket" where
  "parse_transport skb load link_h_len =
     (let out = ParsedPacket_zeroed\<lparr>h_proto := skb_protocol skb\<rparr>
      in case hw_vlan skb out of
           None \<Rightarrow> (1, out)
         | Some (vlan_depth, out') \<Rightarrow>
             (case link_header load link_h_len out' of
                None \<Rightarrow> (- 1, out')
              | Some (network_offset, out'') \<Rightarrow> parse_network load vlan_depth network_offset out''))"

section \<open>Flow keys\<close>

definition tcp_syn :: "u8 \<Rightarrow> bool" where
  "tcp_syn flags \<longleftrightarrow> flags AND 0x02 \<noteq> 0"

definition tcp_ack :: "u8 \<Rightarrow> bool" where
  "tcp_ack flags \<longleftrightarrow> flags AND 0x10 \<noteq> 0"

definition build_tuples :: "ParsedPacket \<Rightarrow> BpfTuplesKey" where
  "build_tuples info =
     \<lparr>tk_sip = p_sip info, tk_dip = p_dip info, tk_sport = p_sport info, tk_dport = p_dport info,
      tk_l4proto = p_l4proto info\<rparr>"

definition reverse_tuples :: "BpfTuplesKey \<Rightarrow> BpfTuplesKey" where
  "reverse_tuples src =
     \<lparr>tk_sip = tk_dip src, tk_dip = tk_sip src, tk_sport = tk_dport src, tk_dport = tk_sport src,
      tk_l4proto = tk_l4proto src\<rparr>"

datatype BpfSockTuple =
    SockTupleIpv4 u32 u32 u16 u16
  | SockTupleIpv6 bytes bytes u16 u16

text \<open>The tuple with the size the lookup helpers are given.\<close>

definition build_sock_tuple :: "ParsedPacket \<Rightarrow> BpfSockTuple \<times> u32" where
  "build_sock_tuple info =
     (if p_is_ipv4 info \<noteq> 0
      then (SockTupleIpv4 (read_ne_u32 (p_sip info) 12) (read_ne_u32 (p_dip info) 12)
              (p_sport info) (p_dport info), 12)
      else (SockTupleIpv6 (p_sip info) (p_dip info) (p_sport info) (p_dport info), 36))"

definition from_forward_tuple :: "BpfDaeParam \<Rightarrow> BpfTuplesKey \<Rightarrow> BpfRedirectKey" where
  "from_forward_tuple P tuple =
     \<lparr>rk_sip = tk_sip tuple, rk_dip = tk_dip tuple, rk_sport = tk_sport tuple, rk_dport = tk_dport tuple,
      rk_l4proto = tk_l4proto tuple, rk_abi_version = REDIRECT_TRACK_ABI_VERSION, rk_padding = [0, 0],
      rk_generation = param_redirect_generation P\<rparr>"

definition from_return_tuple :: "BpfDaeParam \<Rightarrow> BpfTuplesKey \<Rightarrow> BpfRedirectKey" where
  "from_return_tuple P tuple = from_forward_tuple P (reverse_tuples tuple)"

section \<open>Facts\<close>

lemmas eth_consts =
  ETH_P_IP_NETWORK_def ETH_P_IPV6_NETWORK_def ETH_P_8021Q_NETWORK_def ETH_P_8021AD_NETWORK_def

lemma swap16_consts:
  "swap16 0x0800 = 8" "swap16 0x86dd = 0xdd86" "swap16 0x8100 = 0x81" "swap16 0x88a8 = 0xa888"
  by code_simp+

lemma swap16_swap16 [simp]: "swap16 (swap16 x) = x"
proof -
  have "le_bytes 2 (swap16 x) = rev (le_bytes 2 x)"
    using le_bytes_le_word [of "rev (le_bytes 2 x)", where 'a = 16] by (simp add: swap16_def)
  then have "swap16 (swap16 x) = le_word (le_bytes 2 x)" by (simp add: swap16_def [of "swap16 x"])
  then show ?thesis using le_word_le_bytes [of 2 x] by simp
qed

lemma read_ne_u16_be_bytes: "le_word (be_bytes 2 x) = swap16 x"
  by (simp add: swap16_def be_bytes_def)

lemma be_bytes_2: "be_bytes 2 x = [be_bytes 2 x ! 0, be_bytes 2 x ! 1]"
proof -
  have "length (be_bytes 2 x) = 2" by simp
  then show ?thesis by (cases "be_bytes 2 x"; cases "tl (be_bytes 2 x)") auto
qed

lemma reverse_tuples_involutive [simp]: "reverse_tuples (reverse_tuples t) = t"
  by (simp add: reverse_tuples_def)

lemma from_forward_tuple_inject: "from_forward_tuple P t = from_forward_tuple P u \<longleftrightarrow> t = u"
  by (cases t; cases u) (auto simp: from_forward_tuple_def)

lemma vlan_record_roundtrip:
  assumes "is_vlan_protocol p0" "is_vlan_protocol p1"
    and "record_vlan 0 (ucast p0) t0 ParsedPacket_zeroed = Some q0" "record_vlan 1 (ucast p1) t1 q0 = Some q1"
  shows "vlan_metadata q1 AND VLAN_DEPTH_MASK = 2" "vlan_protocol_at (vlan_metadata q1) 0 = ucast p0"
    "vlan_protocol_at (vlan_metadata q1) 1 = ucast p1" "vlan_tci q1 = [t0, t1]"
  using assms
  by (auto simp: record_vlan_def is_vlan_protocol_def vlan_protocol_at_def eth_consts swap16_consts
      ParsedPacket_zeroed_def VLAN_DEPTH_MASK_def VLAN_OUTER_8021AD_def VLAN_INNER_8021AD_def)
section \<open>What a parsed packet guarantees\<close>

text \<open>The kernel returns as many bytes as were asked for.\<close>

definition load_ok :: "load_helper \<Rightarrow> bool" where
  "load_ok load \<longleftrightarrow> (\<forall>offset len bs. load offset len = Some bs \<longrightarrow> length bs = unat len)"

definition link_ok :: "ParsedPacket \<Rightarrow> bool" where
  "link_ok p \<longleftrightarrow>
     length (eth_src p) = 6 \<and> length (eth_dst p) = 6 \<and> length (vlan_tci p) = 2 \<and>
     vlan_metadata p AND VLAN_DEPTH_MASK \<le> 2"

definition packet_ok :: "ParsedPacket \<Rightarrow> bool" where
  "packet_ok p \<longleftrightarrow>
     link_ok p \<and> p_l4proto p \<in> {IPPROTO_TCP, IPPROTO_UDP, IPPROTO_ICMPV6} \<and>
     (if p_is_ipv4 p = 0
      then h_proto p = ETH_P_IPV6_NETWORK \<and> length (p_sip p) = 16 \<and> length (p_dip p) = 16
      else h_proto p = ETH_P_IP_NETWORK \<and>
           (\<exists>s d. p_sip p = mapped_octets (V4 s) \<and> p_dip p = mapped_octets (V4 d)))"

lemma parse_l4_ok:
  assumes "parse_l4 load off p = (0, q)"
  shows "p_l4proto q \<in> {IPPROTO_TCP, IPPROTO_UDP, IPPROTO_ICMPV6}"
    and "p_sip q = p_sip p" "p_dip q = p_dip p" "h_proto q = h_proto p" "p_is_ipv4 q = p_is_ipv4 p"
    and "link_ok q = link_ok p"
  using assms by (auto simp: parse_l4_def link_ok_def Let_def split: if_splits option.splits)

lemma record_vlan_link:
  assumes "record_vlan depth protocol tci p = Some q" "link_ok p"
  shows "link_ok q" "p_sip q = p_sip p" "p_dip q = p_dip p"
proof -
  have m: "((m AND NOT VLAN_DEPTH_MASK) OR k) AND VLAN_DEPTH_MASK = k" if "k = 1 \<or> k = 2" for m k :: u8
  proof -
    have "((m AND NOT VLAN_DEPTH_MASK) OR k) AND VLAN_DEPTH_MASK = k AND VLAN_DEPTH_MASK"
      by (rule bit_word_eqI) (auto simp: bit_simps)
    then show ?thesis using that by (auto simp: VLAN_DEPTH_MASK_def)
  qed
  show "link_ok q" "p_sip q = p_sip p" "p_dip q = p_dip p"
    using assms by (auto simp: record_vlan_def link_ok_def m Let_def split: if_splits)
qed

lemma vlan_loop_link:
  assumes "vlan_loop load depth off proto p = (r, q)" "link_ok p"
    and "p_sip p = BpfIpBytes_zeroed" "p_dip p = BpfIpBytes_zeroed"
  shows "link_ok q \<and> p_sip q = BpfIpBytes_zeroed \<and> p_dip q = BpfIpBytes_zeroed"
  using assms
proof (induction load depth off proto p rule: vlan_loop.induct)
  case (1 load depth off proto p)
  let ?p = "p\<lparr>p_sport := 0, p_dport := 0\<rparr>"
  have p: "link_ok ?p" "p_sip ?p = BpfIpBytes_zeroed" "p_dip ?p = BpfIpBytes_zeroed"
    using "1.prems" by (simp_all add: link_ok_def)
  show ?case
  proof (cases "is_vlan_protocol proto \<and> depth < VLAN_MAX_DEPTH")
    case False
    with "1.prems" show ?thesis by (subst (asm) vlan_loop.simps) (auto split: if_splits)
  next
    case True
    show ?thesis
    proof (cases "load off VLAN_HLEN")
      case None
      with True "1.prems" show ?thesis by (subst (asm) vlan_loop.simps) simp
    next
      case (Some tag)
      show ?thesis
      proof (cases "record_vlan depth (ucast proto) (swap16 (read_ne_u16 tag 0)) ?p")
        case None
        with True Some "1.prems"(1) p show ?thesis by (subst (asm) vlan_loop.simps) (simp add: Let_def)
      next
        case (Some p')
        have run: "vlan_loop load (Suc depth) (off + VLAN_HLEN) (ucast (read_ne_u16 tag 2)) p' = (r, q)"
          using True \<open>load off VLAN_HLEN = Some tag\<close> Some "1.prems"(1)
          by (subst (asm) vlan_loop.simps) (simp add: Let_def)
        note p' = record_vlan_link [OF Some p(1)]
        show ?thesis
          by (rule "1.IH" [OF _ _ \<open>load off VLAN_HLEN = Some tag\<close> refl refl Some run])
            (use True p p' in simp_all)
      qed
    qed
  qed
qed

lemma bytes4: "length bs = 4 \<Longrightarrow> \<exists>a :: u32. bs = be_bytes 4 a"
  using be_bytes_be_word [of bs, where 'a = 32] by (intro exI [of _ "be_word bs"]) simp

lemma parse_ipv4_ok:
  assumes "load_ok load" "parse_ipv4 load off p = (0, q)" "link_ok p" "h_proto p = ETH_P_IP_NETWORK"
    and "p_sip p = BpfIpBytes_zeroed" "p_dip p = BpfIpBytes_zeroed"
  shows "packet_ok q"
proof -
  from assms(2) obtain ip p' n where ip: "load off IPV4_MIN_HEADER_LEN = Some ip"
    and l4: "parse_l4 load n p' = (0, q)"
    and p': "p' = p\<lparr>p_is_ipv4 := 1, p_l4proto := ip ! 9, p_dscp := drop_bit 2 (ip ! 1 AND 0xfc),
      p_sip := take 10 (p_sip p) @ [0xff, 0xff] @ take 4 (drop 12 ip),
      p_dip := take 10 (p_dip p) @ [0xff, 0xff] @ take 4 (drop 16 ip)\<rparr>"
    by (auto simp: parse_ipv4_def Let_def split: option.splits if_splits)
  have "length ip = 20" using ip assms(1) by (auto simp: load_ok_def IPV4_MIN_HEADER_LEN_def)
  then obtain s d :: u32 where "take 4 (drop 12 ip) = be_bytes 4 s" "take 4 (drop 16 ip) = be_bytes 4 d"
    using bytes4 [of "take 4 (drop 12 ip)"] bytes4 [of "take 4 (drop 16 ip)"] by auto
  then have "p_sip p' = mapped_octets (V4 s)" "p_dip p' = mapped_octets (V4 d)"
    using assms(5,6) by (simp_all add: p' BpfIpBytes_zeroed_def)
  moreover have "link_ok p'" "h_proto p' = ETH_P_IP_NETWORK" "p_is_ipv4 p' = 1"
    using assms(3,4) by (simp_all add: p' link_ok_def)
  ultimately show ?thesis using parse_l4_ok [OF l4] by (auto simp: packet_ok_def)
qed

lemma parse_ipv6_ok:
  assumes "load_ok load" "parse_ipv6 load off p = (0, q)" "link_ok p" "h_proto p = ETH_P_IPV6_NETWORK"
  shows "packet_ok q"
proof -
  from assms(2) obtain ip p' n proto where ip: "load off IPV6_HEADER_LEN = Some ip"
    and l4: "parse_l4 load n (p'\<lparr>p_l4proto := proto\<rparr>) = (0, q) \<or> (\<exists>k. ipv6_extensions load
      IPV6_MAX_EXTENSIONS (off + IPV6_HEADER_LEN) (ip ! 6) = Inl 0)"
    and p': "p' = p\<lparr>p_is_ipv4 := 0, p_dscp := push_bit 2 (ip ! 0 AND 0x0f) OR drop_bit 6 (ip ! 1),
      p_sip := take 16 (drop 8 ip), p_dip := take 16 (drop 24 ip)\<rparr>"
    by (auto simp: parse_ipv6_def Let_def split: option.splits if_splits sum.splits)
  have "ipv6_extensions load k o1 nh \<noteq> Inl 0" for k o1 nh
    by (induction load k o1 nh rule: ipv6_extensions.induct) (auto split: option.splits)
  with l4 have l4: "parse_l4 load n (p'\<lparr>p_l4proto := proto\<rparr>) = (0, q)" by blast
  have "length ip = 40" using ip assms(1) by (auto simp: load_ok_def IPV6_HEADER_LEN_def)
  then have "length (p_sip p') = 16" "length (p_dip p') = 16" by (simp_all add: p')
  moreover have "link_ok (p'\<lparr>p_l4proto := proto\<rparr>)" "h_proto p' = ETH_P_IPV6_NETWORK" "p_is_ipv4 p' = 0"
    using assms(3,4) by (simp_all add: p' link_ok_def)
  ultimately show ?thesis using parse_l4_ok [OF l4] by (simp add: packet_ok_def)
qed

text \<open>What holds before the network header is read.\<close>

definition clean :: "ParsedPacket \<Rightarrow> bool" where
  "clean q \<longleftrightarrow> link_ok q \<and> p_sip q = BpfIpBytes_zeroed \<and> p_dip q = BpfIpBytes_zeroed"

lemma vlan_loop_error: "fst (vlan_loop load d off proto p) \<noteq> Inl 0"
proof (induction load d off proto p rule: vlan_loop.induct)
  case (1 load d off proto p)
  then show ?case
    by (subst vlan_loop.simps) (auto simp: Let_def split: option.splits)
qed

lemma parse_network_ok:
  assumes "load_ok load" "clean q" "parse_network load d off q = (0, p)"
  shows "packet_ok p"
proof -
  obtain r out where vl: "vlan_loop load d off (h_proto q) q = (r, out)" by fastforce
  have cl: "clean out" using vlan_loop_link [OF vl] assms(2) by (simp add: clean_def)
  show ?thesis
  proof (cases r)
    case (Inl code)
    then show ?thesis using assms(3) vl vlan_loop_error [of load d off "h_proto q" q]
      by (simp add: parse_network_def)
  next
    case (Inr x)
    have "link_ok (out\<lparr>h_proto := y\<rparr>)" for y using cl by (simp add: clean_def link_ok_def)
    then show ?thesis
      using Inr assms(3) vl cl
      by (cases x)
        (auto simp: parse_network_def Let_def clean_def split: if_splits
          dest: parse_ipv4_ok [OF assms(1)] parse_ipv6_ok [OF assms(1)])
  qed
qed

lemma hw_vlan_clean: "hw_vlan skb q = Some (d, p) \<Longrightarrow> clean q \<Longrightarrow> clean p"
  by (auto simp: hw_vlan_def Let_def clean_def dest: record_vlan_link split: if_splits)

lemma link_header_clean: "link_header load len q = Some (off, p) \<Longrightarrow> load_ok load \<Longrightarrow> clean q \<Longrightarrow> clean p"
  by (auto simp: link_header_def clean_def link_ok_def load_ok_def ETH_HLEN_def split: if_splits)

lemma parse_transport_ok:
  assumes "load_ok load" "parse_transport skb load len = (0, p)"
  shows "packet_ok p"
proof -
  let ?out = "ParsedPacket_zeroed\<lparr>h_proto := skb_protocol skb\<rparr>"
  have "clean ?out" by (simp add: clean_def link_ok_def ParsedPacket_zeroed_def)
  moreover from assms(2) obtain d q off q' where
    "hw_vlan skb ?out = Some (d, q)" "link_header load len q = Some (off, q')"
    and p: "parse_network load d off q' = (0, p)"
    by (auto simp: parse_transport_def Let_def split: option.splits)
  ultimately have "clean q'" using hw_vlan_clean link_header_clean assms(1) by blast
  then show ?thesis using parse_network_ok assms(1) p by blast
qed

text \<open>
  C12. Whatever the packet bytes are, a packet that \<^verbatim>\<open>parse_transport\<close> accepts is well formed:
  MAC addresses of six bytes, at most two recorded VLAN tags, TCP, UDP or ICMPv6 as transport, and
  addresses of sixteen bytes whose family agrees with the protocol field, IPv4 ones in mapped form.
\<close>

theorem parse_transport_packet_ok:
  assumes "load_ok load" "parse_transport skb load len = (0, p)"
  shows "packet_ok p"
  by (rule parse_transport_ok [OF assms])

section \<open>Parsing a frame\<close>

text \<open>The helper on a packet whose bytes are all readable.\<close>

definition load_ref :: "bytes \<Rightarrow> load_helper" where
  "load_ref frame offset len =
     (if unat offset + unat len \<le> length frame then Some (take (unat len) (drop (unat offset) frame)) else None)"

lemma load_ref_ok: "load_ok (load_ref frame)"
  by (auto simp: load_ok_def load_ref_def)

text \<open>The wire form of an Ethernet frame with a stack of VLAN tags, and of an IPv4 header.\<close>

fun tagged :: "(u16 \<times> u16) list \<Rightarrow> u16 \<Rightarrow> bytes" where
  "tagged [] ethertype = be_bytes 2 ethertype"
| "tagged ((tpid, tci) # tags) ethertype = be_bytes 2 tpid @ be_bytes 2 tci @ tagged tags ethertype"

text \<open>The tags a parsed packet has recorded.\<close>

definition vlan_tags_of :: "ParsedPacket \<Rightarrow> (u16 \<times> u16) list" where
  "vlan_tags_of p =
     map (\<lambda>i. (swap16 (vlan_protocol_at (vlan_metadata p) (word_of_nat i)), vlan_tci p ! i))
       [0..<unat (vlan_metadata p AND VLAN_DEPTH_MASK)]"

lemma ne_be2:
  shows read_ne_u16_0: "read_ne_u16 (be_bytes 2 x @ r) 0 = swap16 x"
    and read_ne_u16_2: "read_ne_u16 (be_bytes 2 y @ be_bytes 2 x @ r) 2 = swap16 x"
proof -
  have b: "le_word [be_bytes 2 x ! 0, be_bytes 2 x ! 1] = swap16 x"
    using read_ne_u16_be_bytes [of x] be_bytes_2 [of x] by (metis (no_types))
  have "(be_bytes 2 x @ r) ! 0 = be_bytes 2 x ! 0" "(be_bytes 2 x @ r) ! (0 + 1) = be_bytes 2 x ! 1"
    by (simp_all add: nth_append)
  with b show "read_ne_u16 (be_bytes 2 x @ r) 0 = swap16 x" by (simp only: read_ne_u16_def)
  have "(be_bytes 2 y @ be_bytes 2 x @ r) ! 2 = be_bytes 2 x ! 0"
    "(be_bytes 2 y @ be_bytes 2 x @ r) ! (2 + 1) = be_bytes 2 x ! 1"
    by (simp_all add: nth_append)
  with b show "read_ne_u16 (be_bytes 2 y @ be_bytes 2 x @ r) 2 = swap16 x" by (simp only: read_ne_u16_def)
qed

definition is_tpid :: "u16 \<Rightarrow> bool" where
  "is_tpid x \<longleftrightarrow> x = 0x8100 \<or> x = 0x88a8"

lemma swap16_eq_iff: "swap16 x = swap16 y \<longleftrightarrow> x = y"
  by (metis swap16_swap16)

lemma ucast_u32_u16 [simp]: "ucast (ucast (x :: u16) :: u32) = x"
  by (rule bit_word_eqI) (simp add: bit_simps)

lemma is_vlan_protocol_swap16: "is_vlan_protocol (ucast (swap16 x)) \<longleftrightarrow> is_tpid x"
proof -
  have "(ucast (swap16 x) :: u32) = ucast (swap16 y) \<longleftrightarrow> x = y" for y
    by (metis swap16_eq_iff ucast_u32_u16)
  then show ?thesis by (simp add: is_vlan_protocol_def eth_consts is_tpid_def)
qed

lemma vlan_loop_tag:
  assumes "load off VLAN_HLEN = Some (be_bytes 2 tci @ be_bytes 2 nxt)" "is_tpid tpid"
    and "record_vlan depth (swap16 tpid) tci (out\<lparr>p_sport := 0, p_dport := 0\<rparr>) = Some out'" "depth < 2"
  shows "vlan_loop load depth off (ucast (swap16 tpid)) out =
    vlan_loop load (Suc depth) (off + VLAN_HLEN) (ucast (swap16 nxt)) out'"
  using assms read_ne_u16_0 [of tci "be_bytes 2 nxt"] read_ne_u16_2 [of tci nxt "[]"]
  by (subst vlan_loop.simps) (simp add: is_vlan_protocol_swap16 VLAN_MAX_DEPTH_def Let_def)

lemma vlan_loop_untagged:
  "\<not> is_tpid et \<Longrightarrow> vlan_loop load depth off (ucast (swap16 et)) out = (Inr (ucast (swap16 et), off), out)"
  by (subst vlan_loop.simps) (simp add: is_vlan_protocol_swap16)


definition eth_frame :: "bytes \<Rightarrow> bytes \<Rightarrow> (u16 \<times> u16) list \<Rightarrow> u16 \<Rightarrow> bytes \<Rightarrow> bytes" where
  "eth_frame dst src tags ethertype payload = dst @ src @ tagged tags ethertype @ payload"

definition tags_ok :: "(u16 \<times> u16) list \<Rightarrow> bool" where
  "tags_ok tags \<longleftrightarrow> length tags \<le> 2 \<and> list_all (is_tpid \<circ> fst) tags"

lemma tags_cases:
  assumes "tags_ok tags"
  obtains "tags = []" | p t where "tags = [(p, t)]" "is_tpid p"
  | p t p' t' where "tags = [(p, t), (p', t')]" "is_tpid p" "is_tpid p'"
proof (cases tags rule: remdups_adj.cases)
  case 1 then show ?thesis using that by simp
next
  case (2 x) then show ?thesis using assms that by (cases x) (auto simp: tags_ok_def)
next
  case (3 x y zs) then show ?thesis using assms that by (cases x; cases y) (auto simp: tags_ok_def)
qed

lemmas vlan_consts =
  VLAN_DEPTH_MASK_def VLAN_OUTER_8021AD_def VLAN_INNER_8021AD_def eth_consts swap16_eq_iff

lemma vlan_loop_frame:
  fixes dst src payload :: bytes
  assumes "length dst = 6" "length src = 6" "tags_ok tags" "\<not> is_tpid et"
    and q: "q = ParsedPacket_zeroed\<lparr>eth_dst := dst, eth_src := src, h_proto := hp\<rparr>"
  obtains m ts where
    "vlan_loop (load_ref (eth_frame dst src tags et payload)) 0 ETH_HLEN (ucast (swap16 (hd (map fst tags @ [et])))) q =
       (Inr (ucast (swap16 et), 14 + 4 * of_nat (length tags)), q\<lparr>vlan_metadata := m, vlan_tci := ts\<rparr>)"
    "vlan_tags_of (q\<lparr>vlan_metadata := m, vlan_tci := ts\<rparr>) = tags"
  using assms(3)
proof (cases rule: tags_cases)
  case 1
  then show ?thesis
    using assms(4) that [of "vlan_tci q" "vlan_metadata q"]
    by (simp add: vlan_loop_untagged ETH_HLEN_def vlan_tags_of_def q ParsedPacket_zeroed_def)
next
  case (2 p t)
  let ?f = "eth_frame dst src tags et payload" and ?m = "if p = 0x88a8 then 5 else 1 :: u8"
  let ?q = "q\<lparr>vlan_metadata := ?m, vlan_tci := [t, 0]\<rparr>"
  have l: "load_ref ?f ETH_HLEN VLAN_HLEN = Some (be_bytes 2 t @ be_bytes 2 et)"
    using assms(1,2) 2 by (simp add: load_ref_def eth_frame_def VLAN_HLEN_def ETH_HLEN_def)
  have r: "record_vlan 0 (swap16 p) t (q\<lparr>p_sport := 0, p_dport := 0\<rparr>) = Some ?q"
    using 2 by (auto simp: record_vlan_def vlan_consts q ParsedPacket_zeroed_def is_tpid_def)
  have "vlan_tags_of ?q = tags" using 2
    by (auto simp: vlan_tags_of_def is_tpid_def vlan_consts vlan_protocol_at_def)
  then show ?thesis
    using that [of "[t, 0]" ?m] vlan_loop_tag [where load = "load_ref ?f" and off = ETH_HLEN, OF l 2(2) r] 2(1)
    by (simp add: vlan_loop_untagged assms(4) ETH_HLEN_def VLAN_HLEN_def)
next
  case (3 p t p' t')
  let ?f = "eth_frame dst src tags et payload" and ?m = "if p = 0x88a8 then 5 else 1 :: u8"
  let ?q = "q\<lparr>vlan_metadata := ?m, vlan_tci := [t, 0]\<rparr>"
  let ?m' = "(if p = 0x88a8 then 6 else 2) OR (if p' = 0x88a8 then 8 else 0) :: u8"
  let ?q' = "q\<lparr>vlan_metadata := ?m', vlan_tci := [t, t']\<rparr>"
  have l: "load_ref ?f ETH_HLEN VLAN_HLEN = Some (be_bytes 2 t @ be_bytes 2 p')"
    "load_ref ?f (ETH_HLEN + VLAN_HLEN) VLAN_HLEN = Some (be_bytes 2 t' @ be_bytes 2 et)"
    using assms(1,2) 3 by (simp_all add: load_ref_def eth_frame_def VLAN_HLEN_def ETH_HLEN_def)
  have r: "record_vlan 0 (swap16 p) t (q\<lparr>p_sport := 0, p_dport := 0\<rparr>) = Some ?q"
    "record_vlan (Suc 0) (swap16 p') t' (?q\<lparr>p_sport := 0, p_dport := 0\<rparr>) = Some ?q'"
    using 3 by (auto simp: record_vlan_def vlan_consts q ParsedPacket_zeroed_def is_tpid_def)
  have "vlan_tags_of ?q' = tags" using 3
    by (auto simp: vlan_tags_of_def is_tpid_def vlan_consts vlan_protocol_at_def upt_rec)
  then show ?thesis
    using that [of "[t, t']" ?m'] vlan_loop_tag [where load = "load_ref ?f" and off = ETH_HLEN, OF l(1) 3(2) r(1)]
      vlan_loop_tag [where load = "load_ref ?f" and off = "ETH_HLEN + VLAN_HLEN", OF l(2) 3(3) r(2)] 3(1)
    by (simp add: vlan_loop_untagged assms(4) ETH_HLEN_def VLAN_HLEN_def)
qed

record ipv4_header =
  h4_tos :: u8
  h4_length :: u16
  h4_id :: u16
  h4_fragment :: u16
  h4_ttl :: u8
  h4_protocol :: u8
  h4_checksum :: u16
  h4_source :: u32
  h4_destination :: u32
  h4_options :: bytes

definition ipv4_bytes :: "ipv4_header \<Rightarrow> bytes" where
  "ipv4_bytes h =
     [word_of_nat (0x45 + length (h4_options h) div 4), h4_tos h] @ be_bytes 2 (h4_length h) @
     be_bytes 2 (h4_id h) @ be_bytes 2 (h4_fragment h) @ [h4_ttl h, h4_protocol h] @
     be_bytes 2 (h4_checksum h) @ be_bytes 4 (h4_source h) @ be_bytes 4 (h4_destination h) @ h4_options h"

definition ipv4_unfragmented :: "ipv4_header \<Rightarrow> bool" where
  "ipv4_unfragmented h \<longleftrightarrow>
     length (h4_options h) mod 4 = 0 \<and> length (h4_options h) \<le> 40 \<and> h4_fragment h AND 0x1fff = 0"

lemma load_ref_append:
  "unat offset = length pre \<Longrightarrow> unat len \<le> length r \<Longrightarrow> load_ref (pre @ r) offset len = Some (take (unat len) r)"
  by (simp add: load_ref_def)

lemma read_be_u16_6:
  "read_be_u16 ([a, b] @ be_bytes 2 x @ be_bytes 2 y @ be_bytes 2 z @ r) 6 = z"
proof -
  let ?l = "[a, b] @ be_bytes 2 x @ be_bytes 2 y @ be_bytes 2 z @ r"
  have "?l ! 6 = be_bytes 2 z ! 0" "?l ! (6 + 1) = be_bytes 2 z ! 1"
    by (simp_all add: nth_append)
  then show ?thesis
    using be_word_be_bytes [of 2 z] be_bytes_2 [of z] by (simp only: read_be_u16_def) simp
qed

lemma ipv4_ihl:
  assumes "n \<le> 40" "n mod 4 = 0"
  shows "(ucast (word_of_nat (0x45 + n div 4) AND 0x0f :: u8) * 4 :: u32) = word_of_nat (20 + n)"
proof -
  have "n div 4 \<in> set [0..<11]" using assms(1) by auto
  then obtain k where "k \<in> set [0..<11]" "n = 4 * k" using assms(2) by (intro that [of "n div 4"]) auto
  then show ?thesis by (auto simp: upt_rec)
qed

lemma parse_ipv4_bytes:
  assumes h: "ipv4_unfragmented h" and off: "unat off = length pre" "length pre \<le> 100"
    and p: "length (p_sip p) = 16" "take 10 (p_sip p) = replicate 10 0"
      "length (p_dip p) = 16" "take 10 (p_dip p) = replicate 10 0"
  shows "parse_ipv4 (load_ref (pre @ ipv4_bytes h @ seg)) off p =
    parse_l4 (load_ref ((pre @ ipv4_bytes h) @ seg)) (word_of_nat (length (pre @ ipv4_bytes h)))
      (p\<lparr>p_is_ipv4 := 1, p_l4proto := h4_protocol h, p_dscp := drop_bit 2 (h4_tos h),
         p_sip := mapped_octets (V4 (h4_source h)), p_dip := mapped_octets (V4 (h4_destination h))\<rparr>)"
proof -
  let ?ip = "take 20 (ipv4_bytes h)"
  have l: "load_ref (pre @ ipv4_bytes h @ seg) off IPV4_MIN_HEADER_LEN = Some ?ip"
    by (subst load_ref_append) (simp_all add: off IPV4_MIN_HEADER_LEN_def ipv4_bytes_def)
  have ihl: "ucast (?ip ! 0 AND 0x0f) * (4 :: u32) = word_of_nat (20 + length (h4_options h))"
    using ipv4_ihl h by (simp add: ipv4_bytes_def ipv4_unfragmented_def)
  have n20: "\<not> (word_of_nat (20 + length (h4_options h)) < IPV4_MIN_HEADER_LEN)"
    using h by (simp add: word_less_nat_alt unat_of_nat IPV4_MIN_HEADER_LEN_def ipv4_unfragmented_def del: of_nat_add)
  have frag: "read_be_u16 ?ip 6 = h4_fragment h"
    using read_be_u16_6 by (simp add: ipv4_bytes_def)
  have off': "off + word_of_nat (20 + length (h4_options h)) = word_of_nat (length (pre @ ipv4_bytes h))"
    using off(1) by (simp add: ipv4_bytes_def flip: off(1))
  have flds: "?ip ! 9 = h4_protocol h" "?ip ! 1 = h4_tos h"
    "take 4 (drop 12 ?ip) = be_bytes 4 (h4_source h)" "take 4 (drop 16 ?ip) = be_bytes 4 (h4_destination h)"
    by (simp_all add: ipv4_bytes_def nth_append)
  have dscp: "drop_bit 2 (h4_tos h AND 0xfc) = drop_bit 2 (h4_tos h)"
  proof (rule bit_word_eqI)
    fix n assume "n < LENGTH(8)"
    then have "n \<in> set [0..<8]" by simp
    then show "bit (drop_bit 2 (h4_tos h AND 0xfc)) n = bit (drop_bit 2 (h4_tos h)) n"
      by (auto simp: upt_rec bit_simps dest: bit_imp_le_length)
  qed
  show ?thesis
    using h p unfolding parse_ipv4_def l option.case Let_def ihl frag off' flds dscp
    by (simp add: n20 [simplified] ipv4_unfragmented_def)
qed

lemma parse_l4_segment:
  assumes "length pre \<le> 200" "seg = be_bytes 2 sport @ be_bytes 2 dport @ rest"
    and "p_l4proto p = IPPROTO_TCP \<and> length rest \<ge> 16 \<or> p_l4proto p = IPPROTO_UDP \<and> length rest \<ge> 4"
  shows "\<exists>f. parse_l4 (load_ref (pre @ seg)) (word_of_nat (length pre)) p =
    (0, p\<lparr>p_sport := swap16 sport, p_dport := swap16 dport, tcp_flags := f\<rparr>)"
proof -
  have off: "unat (word_of_nat (length pre) :: u32) = length pre"
    using assms(1) by (simp add: unat_of_nat)
  have l: "load_ref (pre @ seg) (word_of_nat (length pre)) n =
      Some (be_bytes 2 sport @ be_bytes 2 dport @ take (unat n - 4) rest)" if "4 \<le> unat n" "unat n - 4 \<le> length rest" for n
    using that by (subst load_ref_append [OF off]) (simp_all add: assms(2))
  consider (tcp) "p_l4proto p = IPPROTO_TCP" "16 \<le> length rest" | (udp) "p_l4proto p = IPPROTO_UDP" "4 \<le> length rest"
    using assms(3) by blast
  then show ?thesis
  proof cases
    case tcp
    with l [of 20] show ?thesis by (simp add: parse_l4_def read_ne_u16_0 read_ne_u16_2 Let_def) blast
  next
    case udp
    have "p = p\<lparr>tcp_flags := tcp_flags p\<rparr>" by simp
    with udp l [of 8] show ?thesis
      by (intro exI [of _ "tcp_flags p"])
        (simp add: parse_l4_def read_ne_u16_0 read_ne_u16_2 IPPROTO_TCP_def IPPROTO_UDP_def Let_def)
  qed
qed

lemma link_header_frame:
  fixes et :: u16
  assumes "length dst = 6" "length src = 6"
  shows "link_header (load_ref (eth_frame dst src tags et payload)) ETH_HLEN p =
    Some (ETH_HLEN, p\<lparr>eth_dst := dst, eth_src := src, h_proto := ucast (swap16 (hd (map fst tags @ [et])))\<rparr>)"
proof -
  let ?b = "be_bytes 2 (hd (map fst tags @ [et]))"
  have hd: "tagged tags et = ?b @ drop 2 (tagged tags et)"
    by (cases tags) auto
  have eth: "load_ref (eth_frame dst src tags et payload) 0 ETH_HLEN = Some (dst @ src @ ?b)"
    using assms by (subst eth_frame_def, subst hd) (simp add: load_ref_def ETH_HLEN_def)
  have n: "(dst @ src @ ?b) ! 12 = ?b ! 0" "(dst @ src @ ?b) ! (12 + 1) = ?b ! (0 + 1)"
    using assms by (simp_all add: nth_append)
  have "read_ne_u16 (dst @ src @ ?b) 12 = read_ne_u16 ?b 0"
    unfolding read_ne_u16_def n ..
  also have "\<dots> = swap16 (hd (map fst tags @ [et]))" using read_ne_u16_0 [of _ "[]"] by simp
  finally show ?thesis using assms by (simp add: link_header_def eth)
qed

lemma length_tagged: "length (tagged tags et) = 2 + 4 * length tags"
  by (induction tags et rule: tagged.induct) simp_all

lemma parse_transport_frame_ex:
  assumes "length dst = 6" "length src = 6" "tags_ok tags" "skb_vlan_present skb = 0" "ipv4_unfragmented h"
    and "h4_protocol h = IPPROTO_TCP \<and> length rest \<ge> 16 \<or> h4_protocol h = IPPROTO_UDP \<and> length rest \<ge> 4"
  obtains p where "parse_transport skb
      (load_ref (eth_frame dst src tags 0x0800 (ipv4_bytes h @ be_bytes 2 sport @ be_bytes 2 dport @ rest)))
      ETH_HLEN = (0, p)"
    "eth_dst p = dst" "eth_src p = src" "vlan_tags_of p = tags" "p_is_ipv4 p = 1" "p_dscp p = drop_bit 2 (h4_tos h)"
    "build_tuples p = \<lparr>tk_sip = mapped_octets (V4 (h4_source h)), tk_dip = mapped_octets (V4 (h4_destination h)),
      tk_sport = swap16 sport, tk_dport = swap16 dport, tk_l4proto = h4_protocol h\<rparr>"
proof -
  let ?q = "ParsedPacket_zeroed\<lparr>eth_dst := dst, eth_src := src, h_proto := ucast (swap16 (hd (map fst tags @ [0x0800])))\<rparr>"
  let ?seg = "be_bytes 2 sport @ be_bytes 2 dport @ rest"
  let ?load = "load_ref (eth_frame dst src tags 0x0800 (ipv4_bytes h @ ?seg))"
  let ?pre = "dst @ src @ tagged tags 0x0800" and ?off = "14 + 4 * of_nat (length tags) :: u32"
  obtain m ts where vl: "vlan_loop ?load 0 ETH_HLEN (h_proto ?q) ?q =
      (Inr (ETH_P_IP_NETWORK, ?off), ?q\<lparr>vlan_metadata := m, vlan_tci := ts\<rparr>)"
    and tags: "vlan_tags_of (?q\<lparr>vlan_metadata := m, vlan_tci := ts\<rparr>) = tags"
    by (rule vlan_loop_frame [OF assms(1-3) _ refl, where et = "0x0800" and hp = "h_proto ?q" and payload = "ipv4_bytes h @ ?seg"])
      (simp_all add: ETH_P_IP_NETWORK_def is_tpid_def)
  let ?p = "?q\<lparr>vlan_metadata := m, vlan_tci := ts, h_proto := ETH_P_IP_NETWORK\<rparr>"
  have "length tags \<le> 2" using assms(3) by (simp add: tags_ok_def)
  then have off: "unat ?off = length ?pre" "length ?pre \<le> 100"
    using assms(1,2) by (auto simp: length_tagged unat_word_ariths unat_of_nat)
  have "length (ipv4_bytes h) \<le> 60" using assms(5) by (simp add: ipv4_bytes_def ipv4_unfragmented_def)
  then have pre: "length (?pre @ ipv4_bytes h) \<le> 200" using off(2) by simp
  have zip: "length (p_sip ?p) = 16" "take 10 (p_sip ?p) = replicate 10 0"
      "length (p_dip ?p) = 16" "take 10 (p_dip ?p) = replicate 10 0"
    by (simp_all add: ParsedPacket_zeroed_def BpfIpBytes_zeroed_def)
  let ?p' = "?p\<lparr>p_is_ipv4 := 1, p_l4proto := h4_protocol h, p_dscp := drop_bit 2 (h4_tos h),
    p_sip := mapped_octets (V4 (h4_source h)), p_dip := mapped_octets (V4 (h4_destination h))\<rparr>"
  have load: "?load = load_ref (?pre @ ipv4_bytes h @ ?seg)" by (simp add: eth_frame_def)
  obtain f where "parse_l4 (load_ref ((?pre @ ipv4_bytes h) @ ?seg)) (word_of_nat (length (?pre @ ipv4_bytes h))) ?p' =
      (0, ?p'\<lparr>p_sport := swap16 sport, p_dport := swap16 dport, tcp_flags := f\<rparr>)"
    using parse_l4_segment [OF pre refl, of ?p' rest sport dport] assms(6) by auto
  then have "parse_ipv4 ?load ?off ?p = (0, ?p'\<lparr>p_sport := swap16 sport, p_dport := swap16 dport, tcp_flags := f\<rparr>)"
    unfolding load parse_ipv4_bytes [OF assms(5) off zip] .
  then have "parse_network ?load 0 ETH_HLEN ?q = (0, ?p'\<lparr>p_sport := swap16 sport, p_dport := swap16 dport, tcp_flags := f\<rparr>)"
    unfolding parse_network_def vl by (simp add: Let_def)
  then have "parse_transport skb ?load ETH_HLEN = (0, ?p'\<lparr>p_sport := swap16 sport, p_dport := swap16 dport, tcp_flags := f\<rparr>)"
    using assms(1,2,4) by (simp add: parse_transport_def hw_vlan_def link_header_frame Let_def)
  then show ?thesis
    using tags that by (simp add: build_tuples_def vlan_tags_of_def)
qed

text \<open>
  C11. Parsing inverts encoding: from the bytes of an Ethernet frame with up to two VLAN tags around an
  unfragmented IPv4 packet with TCP or UDP, \<^verbatim>\<open>parse_transport\<close> recovers the MAC addresses, the tags
  in order, the DSCP and the flow tuple, whatever the remaining header fields and the payload are.
\<close>

theorem parse_transport_frame:
  assumes "length dst = 6" "length src = 6" "tags_ok tags" "skb_vlan_present skb = 0" "ipv4_unfragmented h"
    and "h4_protocol h = IPPROTO_TCP \<and> length rest \<ge> 16 \<or> h4_protocol h = IPPROTO_UDP \<and> length rest \<ge> 4"
  shows "\<exists>p. parse_transport skb
      (load_ref (eth_frame dst src tags 0x0800 (ipv4_bytes h @ be_bytes 2 sport @ be_bytes 2 dport @ rest))) ETH_HLEN = (0, p) \<and>
    eth_dst p = dst \<and> eth_src p = src \<and> vlan_tags_of p = tags \<and> p_is_ipv4 p = 1 \<and>
    p_dscp p = drop_bit 2 (h4_tos h) \<and>
    build_tuples p = \<lparr>tk_sip = mapped_octets (V4 (h4_source h)), tk_dip = mapped_octets (V4 (h4_destination h)),
      tk_sport = swap16 sport, tk_dport = swap16 dport, tk_l4proto = h4_protocol h\<rparr>"
  using parse_transport_frame_ex [OF assms] by metis

definition sample_header :: ipv4_header where
  "sample_header = \<lparr>h4_tos = 0xb8, h4_length = 48, h4_id = 1, h4_fragment = 0x4000, h4_ttl = 64, h4_protocol = 17,
     h4_checksum = 0, h4_source = 0xc0a80102, h4_destination = 0x08080808, h4_options = [1, 1, 1, 0]\<rparr>"

definition sample_frame :: bytes where
  "sample_frame = eth_frame [1, 2, 3, 4, 5, 6] [6, 5, 4, 3, 2, 1] [(0x88a8, 100), (0x8100, 200)] 0x0800
     (ipv4_bytes sample_header @ be_bytes 2 (1024 :: u16) @ be_bytes 2 (53 :: u16) @ [0, 8, 0, 0])"

definition sample_skb :: skb_meta where
  "sample_skb = \<lparr>skb_protocol = 8, skb_vlan_present = 0, skb_vlan_proto = 0, skb_vlan_tci = 0\<rparr>"

lemma sample_parses:
  obtains p where "parse_transport sample_skb (load_ref sample_frame) ETH_HLEN = (0, p)" "packet_ok p"
    "p_l4proto p = IPPROTO_UDP"
proof (rule parse_transport_frame_ex [of "[1, 2, 3, 4, 5, 6]" "[6, 5, 4, 3, 2, 1]" "[(0x88a8, 100), (0x8100, 200)]"
      sample_skb sample_header "[0, 8, 0, 0]" 1024 53])
  fix p
  assume "parse_transport sample_skb (load_ref (eth_frame [1, 2, 3, 4, 5, 6] [6, 5, 4, 3, 2, 1]
      [(0x88a8, 100), (0x8100, 200)] 0x0800
      (ipv4_bytes sample_header @ be_bytes 2 (1024 :: u16) @ be_bytes 2 (53 :: u16) @ [0, 8, 0, 0]))) ETH_HLEN = (0, p)"
    and tk: "build_tuples p = \<lparr>tk_sip = mapped_octets (V4 (h4_source sample_header)),
      tk_dip = mapped_octets (V4 (h4_destination sample_header)), tk_sport = swap16 1024, tk_dport = swap16 53,
      tk_l4proto = h4_protocol sample_header\<rparr>"
  then have p: "parse_transport sample_skb (load_ref sample_frame) ETH_HLEN = (0, p)"
    by (simp only: sample_frame_def)
  moreover have "p_l4proto p = IPPROTO_UDP" using tk by (simp add: build_tuples_def sample_header_def IPPROTO_UDP_def)
  ultimately show ?thesis using that parse_transport_ok [OF load_ref_ok p] by blast
qed (simp_all add: tags_ok_def is_tpid_def sample_skb_def sample_header_def ipv4_unfragmented_def IPPROTO_UDP_def)

theorem parse_transport_packet_ok_witness:
  "load_ok (load_ref sample_frame) \<and>
   fst (parse_transport sample_skb (load_ref sample_frame) ETH_HLEN) = 0 \<and>
   packet_ok (snd (parse_transport sample_skb (load_ref sample_frame) ETH_HLEN))"
proof -
  obtain p where p: "parse_transport sample_skb (load_ref sample_frame) ETH_HLEN = (0, p)"
    by (rule sample_parses)
  show ?thesis using parse_transport_packet_ok [OF load_ref_ok p] load_ref_ok p by simp
qed

theorem parse_transport_frame_witness:
  "\<exists>p. parse_transport sample_skb (load_ref sample_frame) ETH_HLEN = (0, p) \<and>
     eth_dst p = [1, 2, 3, 4, 5, 6] \<and> eth_src p = [6, 5, 4, 3, 2, 1] \<and>
     vlan_tags_of p = [(0x88a8, 100), (0x8100, 200)] \<and> p_is_ipv4 p = 1 \<and> p_dscp p = 46 \<and>
     build_tuples p = \<lparr>tk_sip = mapped_octets (V4 0xc0a80102), tk_dip = mapped_octets (V4 0x08080808),
       tk_sport = swap16 1024, tk_dport = swap16 53, tk_l4proto = 17\<rparr>"
  using parse_transport_frame [of "[1, 2, 3, 4, 5, 6]" "[6, 5, 4, 3, 2, 1]" "[(0x88a8, 100), (0x8100, 200)]"
      sample_skb sample_header "[0, 8, 0, 0]" 1024 53]
  unfolding sample_frame_def
  by (simp add: tags_ok_def is_tpid_def sample_skb_def sample_header_def ipv4_unfragmented_def IPPROTO_UDP_def)

text \<open>The return codes: -1 is returned only after the kernel refused a read.\<close>

definition code_ok :: "load_helper \<Rightarrow> int \<Rightarrow> bool" where
  "code_ok load code \<longleftrightarrow> code \<in> {0, 1, - 3} \<or> code = - 1 \<and> (\<exists>offset len. load offset len = None)"

lemma code_okI [intro]:
  "code_ok load 0" "code_ok load 1" "code_ok load (- 3)" "load offset len = None \<Longrightarrow> code_ok load (- 1)"
  by (auto simp: code_ok_def)

lemma vlan_loop_codes:
  "fst (vlan_loop load d off proto p) = Inl code \<Longrightarrow> code_ok load code"
proof (induction load d off proto p rule: vlan_loop.induct)
  case (1 load d off proto p)
  note IH = "1.IH" [OF _ _ _ refl refl, simplified] and run = "1.prems"
  show ?case
    by (insert run, subst (asm) vlan_loop.simps) (auto simp: Let_def split: option.splits if_splits intro: IH)
qed

lemma parse_l4_codes: "code_ok load (fst (parse_l4 load off p))"
  by (auto simp: parse_l4_def Let_def split: option.splits)

lemma ipv6_extensions_codes: "ipv6_extensions load k off nh = Inl code \<Longrightarrow> code_ok load code"
  by (induction load k off nh rule: ipv6_extensions.induct) (auto split: option.splits if_splits)

lemma parse_ipv4_codes: "code_ok load (fst (parse_ipv4 load off p))"
  by (auto simp: parse_ipv4_def Let_def parse_l4_codes split: option.splits)

lemma parse_ipv6_codes: "code_ok load (fst (parse_ipv6 load off p))"
  by (auto simp: parse_ipv6_def Let_def parse_l4_codes split: option.splits sum.splits dest: ipv6_extensions_codes)

lemma parse_network_codes: "code_ok load (fst (parse_network load d off p))"
proof -
  obtain r q where "vlan_loop load d off (h_proto p) p = (r, q)" by fastforce
  then show ?thesis
    using vlan_loop_codes [of load d off "h_proto p" p]
    by (cases r) (auto simp: parse_network_def Let_def parse_ipv4_codes parse_ipv6_codes split: prod.splits)
qed

text \<open>
  C16. The parser returns 0, 1, -1 or -3 and nothing else, and reports -1 only after the kernel
  refused to read some bytes of the packet.
\<close>

theorem parse_transport_codes:
  "fst (parse_transport skb load len) \<in> {0, 1, - 1, - 3} \<and>
   (fst (parse_transport skb load len) = - 1 \<longrightarrow> (\<exists>i n. load i n = None))"
proof -
  have "code_ok load (fst (parse_transport skb load len))"
    by (auto simp: parse_transport_def Let_def link_header_def parse_network_codes split: option.splits if_splits)
  then show ?thesis by (auto simp: code_ok_def)
qed

theorem parse_transport_codes_witness:
  "fst (parse_transport sample_skb (load_ref []) ETH_HLEN) = - 1 \<and> (\<exists>i n. load_ref [] i n = None)"
  using parse_transport_codes [of sample_skb "load_ref []" ETH_HLEN]
  by (simp add: parse_transport_def hw_vlan_def link_header_def sample_skb_def load_ref_def ETH_HLEN_def Let_def)


end
