(* ===== verification/Bpf_Udp_State.thy ===== *)
theory Bpf_Udp_State
  imports Bpf_Packet "HOL-Library.AList"
begin

text \<open>
  \<^verbatim>\<open>dae-ebpf-program/src/udp_state.rs\<close>: the table of UDP conversations.  A conversation remembers
  from which side it was opened and is removed by a kernel timer when it has been idle.

  The kernel is a parameter: the record \<open>udp_kernel\<close> holds the map and timer helpers the program
  calls, over a kernel state of any type.  A pointer into the map is the value it points to; the
  timer inside a map value is addressed by the key of the value.  \<open>udp_kernel_ok\<close> is the documented
  behaviour of these helpers, and \<open>ref_kernel\<close> an instance with a bounded table.
\<close>

section \<open>Values and helpers\<close>

definition BPF_NOEXIST :: u64 where "BPF_NOEXIST = 1"
definition CLOCK_MONOTONIC :: u64 where "CLOCK_MONOTONIC = 1"
definition UDP_STATE_METRICS_KEY :: u32 where "UDP_STATE_METRICS_KEY = 0"
definition METRIC_STATE_CREATED :: u32 where "METRIC_STATE_CREATED = 0"
definition METRIC_STATE_REFRESH :: u32 where "METRIC_STATE_REFRESH = 1"
definition METRIC_INSERT_FAILURE :: u32 where "METRIC_INSERT_FAILURE = 2"
definition METRIC_POST_INSERT_LOOKUP_FAILURE :: u32 where "METRIC_POST_INSERT_LOOKUP_FAILURE = 3"
definition METRIC_TIMER_INIT_FAILURE :: u32 where "METRIC_TIMER_INIT_FAILURE = 4"
definition METRIC_TIMER_CALLBACK_FAILURE :: u32 where "METRIC_TIMER_CALLBACK_FAILURE = 5"
definition METRIC_TIMER_START_FAILURE :: u32 where "METRIC_TIMER_START_FAILURE = 6"

lemmas udp_metric_consts =
  METRIC_STATE_CREATED_def METRIC_STATE_REFRESH_def METRIC_INSERT_FAILURE_def
  METRIC_POST_INSERT_LOOKUP_FAILURE_def METRIC_TIMER_INIT_FAILURE_def
  METRIC_TIMER_CALLBACK_FAILURE_def METRIC_TIMER_START_FAILURE_def

text \<open>The opaque timer words are part of the value and never read by the program.\<close>

record BpfUdpConnState =
  uc_is_wan_ingress_direction :: u8
  uc_timer :: "u64 list"

definition BpfUdpConnState_new :: "bool \<Rightarrow> BpfUdpConnState" where
  "BpfUdpConnState_new is_wan_ingress_direction =
     \<lparr>uc_is_wan_ingress_direction = (if is_wan_ingress_direction then 1 else 0), uc_timer = [0, 0]\<rparr>"

record BpfUdpStateMetrics =
  state_created_total :: u64
  state_refresh_total :: u64
  insert_failure_total :: u64
  post_insert_lookup_failure_total :: u64
  timer_init_failure_total :: u64
  timer_callback_failure_total :: u64
  timer_start_failure_total :: u64

record 'k udp_kernel =
  udp_conn_state_lookup :: "BpfTuplesKey \<Rightarrow> 'k \<Rightarrow> BpfUdpConnState option"
  udp_conn_state_update :: "BpfTuplesKey \<Rightarrow> BpfUdpConnState \<Rightarrow> u64 \<Rightarrow> 'k \<Rightarrow> i64 \<times> 'k"
  udp_conn_state_delete :: "BpfTuplesKey \<Rightarrow> 'k \<Rightarrow> i64 \<times> 'k"
  udp_state_metrics_lookup :: "u32 \<Rightarrow> 'k \<Rightarrow> BpfUdpStateMetrics option"
  udp_state_metrics_write :: "u32 \<Rightarrow> BpfUdpStateMetrics \<Rightarrow> 'k \<Rightarrow> 'k"
  bpf_timer_init :: "BpfTuplesKey \<Rightarrow> u64 \<Rightarrow> 'k \<Rightarrow> i64 \<times> 'k"
  bpf_timer_set_callback :: "BpfTuplesKey \<Rightarrow> 'k \<Rightarrow> i64 \<times> 'k"
  bpf_timer_start :: "BpfTuplesKey \<Rightarrow> u64 \<Rightarrow> 'k \<Rightarrow> i64 \<times> 'k"

section \<open>The program\<close>

definition bump_udp_state_metric :: "u32 \<Rightarrow> BpfUdpStateMetrics \<Rightarrow> BpfUdpStateMetrics option" where
  "bump_udp_state_metric metric m =
     (if metric = METRIC_STATE_CREATED then Some (m\<lparr>state_created_total := state_created_total m + 1\<rparr>)
      else if metric = METRIC_STATE_REFRESH then Some (m\<lparr>state_refresh_total := state_refresh_total m + 1\<rparr>)
      else if metric = METRIC_INSERT_FAILURE then Some (m\<lparr>insert_failure_total := insert_failure_total m + 1\<rparr>)
      else if metric = METRIC_POST_INSERT_LOOKUP_FAILURE
      then Some (m\<lparr>post_insert_lookup_failure_total := post_insert_lookup_failure_total m + 1\<rparr>)
      else if metric = METRIC_TIMER_INIT_FAILURE
      then Some (m\<lparr>timer_init_failure_total := timer_init_failure_total m + 1\<rparr>)
      else if metric = METRIC_TIMER_CALLBACK_FAILURE
      then Some (m\<lparr>timer_callback_failure_total := timer_callback_failure_total m + 1\<rparr>)
      else if metric = METRIC_TIMER_START_FAILURE
      then Some (m\<lparr>timer_start_failure_total := timer_start_failure_total m + 1\<rparr>)
      else None)"

definition increment_udp_state_metric :: "('k, 'a) udp_kernel_scheme \<Rightarrow> u32 \<Rightarrow> 'k \<Rightarrow> 'k" where
  "increment_udp_state_metric H metric k =
     (case udp_state_metrics_lookup H UDP_STATE_METRICS_KEY k of
        None \<Rightarrow> k
      | Some m \<Rightarrow>
          (case bump_udp_state_metric metric m of
             None \<Rightarrow> k
           | Some m' \<Rightarrow> udp_state_metrics_write H UDP_STATE_METRICS_KEY m' k))"

definition refresh_state_timer :: "('k, 'a) udp_kernel_scheme \<Rightarrow> BpfDaeParam \<Rightarrow> BpfTuplesKey \<Rightarrow> 'k \<Rightarrow> 'k" where
  "refresh_state_timer H P key k =
     (case bpf_timer_start H key (param_udp_state_idle_timeout_ns P) k of
        (r, k') \<Rightarrow> if r \<noteq> 0 then increment_udp_state_metric H METRIC_TIMER_START_FAILURE k' else k')"

definition refresh_udp_conn_state_timer_cb :: "('k, 'a) udp_kernel_scheme \<Rightarrow> BpfTuplesKey \<Rightarrow> 'k \<Rightarrow> 'k" where
  "refresh_udp_conn_state_timer_cb H key k = snd (udp_conn_state_delete H key k)"

text \<open>Arming the timer of a new entry; each failure is counted and removes the entry again.\<close>

definition abandon_state :: "('k, 'a) udp_kernel_scheme \<Rightarrow> u32 \<Rightarrow> BpfTuplesKey \<Rightarrow> 'k \<Rightarrow> 'k" where
  "abandon_state H metric key k = snd (udp_conn_state_delete H key (increment_udp_state_metric H metric k))"

definition arm_new_state ::
    "('k, 'a) udp_kernel_scheme \<Rightarrow> BpfDaeParam \<Rightarrow> BpfTuplesKey \<Rightarrow> BpfUdpConnState \<Rightarrow> 'k \<Rightarrow> BpfUdpConnState option \<times> 'k" where
  "arm_new_state H P key state k =
     (case bpf_timer_init H key CLOCK_MONOTONIC k of
        (r1, k1) \<Rightarrow>
          if r1 \<noteq> 0 then (None, abandon_state H METRIC_TIMER_INIT_FAILURE key k1)
          else case bpf_timer_set_callback H key k1 of
            (r2, k2) \<Rightarrow>
              if r2 \<noteq> 0 then (None, abandon_state H METRIC_TIMER_CALLBACK_FAILURE key k2)
              else case bpf_timer_start H key (param_udp_state_idle_timeout_ns P) k2 of
                (r3, k3) \<Rightarrow>
                  if r3 \<noteq> 0 then (None, abandon_state H METRIC_TIMER_START_FAILURE key k3)
                  else (Some state, k3))"

definition refresh_udp_conn_state ::
    "('k, 'a) udp_kernel_scheme \<Rightarrow> BpfDaeParam \<Rightarrow> BpfTuplesKey \<Rightarrow> bool \<Rightarrow> 'k \<Rightarrow> BpfUdpConnState option \<times> 'k" where
  "refresh_udp_conn_state H P key is_wan_ingress_direction k =
     (case udp_conn_state_lookup H key k of
        Some state \<Rightarrow>
          (Some state, refresh_state_timer H P key (increment_udp_state_metric H METRIC_STATE_REFRESH k))
      | None \<Rightarrow>
          (case udp_conn_state_update H key (BpfUdpConnState_new is_wan_ingress_direction) BPF_NOEXIST k of
             (r, k1) \<Rightarrow>
               if r \<noteq> 0
               then case udp_conn_state_lookup H key k1 of
                      Some raced \<Rightarrow>
                        (Some raced,
                         refresh_state_timer H P key (increment_udp_state_metric H METRIC_STATE_REFRESH k1))
                    | None \<Rightarrow> (None, increment_udp_state_metric H METRIC_INSERT_FAILURE k1)
               else let k2 = increment_udp_state_metric H METRIC_STATE_CREATED k1
                    in case udp_conn_state_lookup H key k2 of
                         None \<Rightarrow> (None, increment_udp_state_metric H METRIC_POST_INSERT_LOOKUP_FAILURE k2)
                       | Some state \<Rightarrow> arm_new_state H P key state k2))"

definition refresh_reversed_udp_state ::
    "('k, 'a) udp_kernel_scheme \<Rightarrow> BpfDaeParam \<Rightarrow> ParsedPacket \<Rightarrow> bool \<Rightarrow> 'k \<Rightarrow> bool \<times> 'k" where
  "refresh_reversed_udp_state H P info from_wan k =
     (case refresh_udp_conn_state H P (reverse_tuples (build_tuples info)) from_wan k of
        (state, k') \<Rightarrow> (state \<noteq> None, k'))"

section \<open>What the kernel promises\<close>

text \<open>
  The life of a timer: zeroed memory, initialised, with the removing callback, and running with
  the period it was last started with.
\<close>

datatype timer_state = Blank | Initialised | WithCallback | Running u64

text \<open>
  Nothing of the conversations changes except possibly under one key.
\<close>

definition same_elsewhere ::
    "('k, 'a) udp_kernel_scheme \<Rightarrow> ('k \<Rightarrow> BpfTuplesKey \<Rightarrow> timer_state) \<Rightarrow> BpfTuplesKey \<Rightarrow> 'k \<Rightarrow> 'k \<Rightarrow> bool" where
  "same_elsewhere H tm key k k' \<longleftrightarrow>
     (\<forall>key'. key' \<noteq> key \<longrightarrow>
        udp_conn_state_lookup H key' k' = udp_conn_state_lookup H key' k \<and> tm k' key' = tm k key')"

text \<open>Every conversation in the table will be removed by its timer.\<close>

definition conversations_expire ::
    "('k, 'a) udp_kernel_scheme \<Rightarrow> BpfDaeParam \<Rightarrow> ('k \<Rightarrow> BpfTuplesKey \<Rightarrow> timer_state) \<Rightarrow> 'k \<Rightarrow> bool" where
  "conversations_expire H P tm k \<longleftrightarrow>
     (\<forall>key. udp_conn_state_lookup H key k \<noteq> None \<longrightarrow> tm k key = Running (param_udp_state_idle_timeout_ns P))"

lemma conversations_expire_step:
  assumes "same_elsewhere H tm key k k'" "conversations_expire H P tm k"
    and "udp_conn_state_lookup H key k' \<noteq> None \<Longrightarrow> tm k' key = Running (param_udp_state_idle_timeout_ns P)"
  shows "conversations_expire H P tm k'"
  using assms unfolding conversations_expire_def same_elsewhere_def by metis

text \<open>
  Documented behaviour, with \<open>tm\<close> the state of the timer of an entry.  An insertion that fails
  finds the table as it was or an entry which another processor has put there, its timer running.
  A timer starts only with a callback; a refused timer operation changes nothing.
\<close>

locale udp_helpers =
  fixes H :: "('k, 'a) udp_kernel_scheme" and P :: BpfDaeParam and tm :: "'k \<Rightarrow> BpfTuplesKey \<Rightarrow> timer_state"
  assumes metrics_write:
      "udp_conn_state_lookup H key (udp_state_metrics_write H i m k) = udp_conn_state_lookup H key k"
      "tm (udp_state_metrics_write H i m k) key = tm k key"
    and delete:
      "udp_conn_state_delete H key k = (r, k') \<Longrightarrow>
         udp_conn_state_lookup H key k' = None \<and> same_elsewhere H tm key k k'"
    and update:
      "udp_conn_state_update H key v BPF_NOEXIST k = (r, k') \<Longrightarrow>
         same_elsewhere H tm key k k' \<and>
         (if r = 0 then udp_conn_state_lookup H key k' = Some v \<and> tm k' key = Blank
          else udp_conn_state_lookup H key k' = udp_conn_state_lookup H key k \<and> tm k' key = tm k key \<or>
               tm k' key = Running (param_udp_state_idle_timeout_ns P))"
    and timer_init:
      "bpf_timer_init H key c k = (r, k') \<Longrightarrow>
         same_elsewhere H tm key k k' \<and> udp_conn_state_lookup H key k' = udp_conn_state_lookup H key k \<and>
         tm k' key = (if r = 0 then Initialised else tm k key)"
    and timer_set_callback:
      "bpf_timer_set_callback H key k = (r, k') \<Longrightarrow>
         same_elsewhere H tm key k k' \<and> udp_conn_state_lookup H key k' = udp_conn_state_lookup H key k \<and>
         tm k' key = (if r = 0 \<and> tm k key = Initialised then WithCallback else tm k key)"
    and timer_start:
      "bpf_timer_start H key n k = (r, k') \<Longrightarrow>
         same_elsewhere H tm key k k' \<and> udp_conn_state_lookup H key k' = udp_conn_state_lookup H key k \<and>
         tm k' key = (if r = 0 \<and> tm k key \<noteq> Blank \<and> tm k key \<noteq> Initialised then Running n else tm k key)"

begin

lemma increment_lookup [simp]:
  "udp_conn_state_lookup H key (increment_udp_state_metric H metric k) = udp_conn_state_lookup H key k"
  by (simp add: increment_udp_state_metric_def metrics_write split: option.split)

lemma increment_tm [simp]: "tm (increment_udp_state_metric H metric k) key = tm k key"
  by (simp add: increment_udp_state_metric_def metrics_write split: option.split)

lemma increment_elsewhere [simp]:
  "same_elsewhere H tm key k (increment_udp_state_metric H metric k') \<longleftrightarrow> same_elsewhere H tm key k k'"
  by (simp add: same_elsewhere_def)

lemma refresh_state_timer_effect:
  "same_elsewhere H tm key k (refresh_state_timer H P key k) \<and>
   udp_conn_state_lookup H key (refresh_state_timer H P key k) = udp_conn_state_lookup H key k \<and>
   (tm k key = Running (param_udp_state_idle_timeout_ns P) \<longrightarrow>
      tm (refresh_state_timer H P key k) key = Running (param_udp_state_idle_timeout_ns P))"
  using timer_start by (auto simp: refresh_state_timer_def split: prod.split)

lemma abandon_effect:
  "udp_conn_state_lookup H key (abandon_state H metric key k) = None \<and>
   same_elsewhere H tm key k (abandon_state H metric key k)"
  using delete [of key "increment_udp_state_metric H metric k"]
  by (simp add: abandon_state_def same_elsewhere_def) (metis increment_lookup increment_tm prod.collapse)

lemma arm_new_state_effect:
  assumes "arm_new_state H P key state k = (res, k')" "udp_conn_state_lookup H key k = Some state"
  shows "same_elsewhere H tm key k k' \<and>
    (case res of
       None \<Rightarrow> udp_conn_state_lookup H key k' = None
     | Some st \<Rightarrow> st = state \<and> udp_conn_state_lookup H key k' = Some state \<and>
         tm k' key = Running (param_udp_state_idle_timeout_ns P))"
proof -
  obtain r1 k1 where 1: "bpf_timer_init H key CLOCK_MONOTONIC k = (r1, k1)" by fastforce
  obtain r2 k2 where 2: "bpf_timer_set_callback H key k1 = (r2, k2)" by fastforce
  obtain r3 k3 where 3: "bpf_timer_start H key (param_udp_state_idle_timeout_ns P) k2 = (r3, k3)" by fastforce
  note e = timer_init [OF 1] timer_set_callback [OF 2] timer_start [OF 3]
  note a = abandon_effect [of key METRIC_TIMER_INIT_FAILURE k1] abandon_effect [of key METRIC_TIMER_CALLBACK_FAILURE k2]
    abandon_effect [of key METRIC_TIMER_START_FAILURE k3]
  show ?thesis
    using assms e a
    by (auto simp: arm_new_state_def 1 2 3 same_elsewhere_def split: if_splits option.splits)
qed

text \<open>The result, the entry under the key and its timer, and nothing else changed.\<close>

lemma refresh_effect:
  assumes "refresh_udp_conn_state H P key dir k = (res, k')"
  shows "same_elsewhere H tm key k k' \<and>
    udp_conn_state_lookup H key k' = res \<and>
    (udp_conn_state_lookup H key k \<noteq> None \<longrightarrow> res = udp_conn_state_lookup H key k) \<and>
    (conversations_expire H P tm k \<and> res \<noteq> None \<longrightarrow> tm k' key = Running (param_udp_state_idle_timeout_ns P))"
proof (cases "udp_conn_state_lookup H key k")
  case (Some state)
  then show ?thesis
    using assms refresh_state_timer_effect [of key "increment_udp_state_metric H METRIC_STATE_REFRESH k"]
    by (auto simp: refresh_udp_conn_state_def same_elsewhere_def conversations_expire_def)
next
  case None
  obtain r k1 where upd: "udp_conn_state_update H key (BpfUdpConnState_new dir) BPF_NOEXIST k = (r, k1)" by fastforce
  note u = update [OF upd]
  show ?thesis
  proof (cases "r = 0")
    case True
    let ?k = "increment_udp_state_metric H METRIC_STATE_CREATED k1"
    from u True assms None upd
    have "arm_new_state H P key (BpfUdpConnState_new dir) ?k = (res, k')"
      by (simp add: refresh_udp_conn_state_def Let_def)
    from arm_new_state_effect [OF this] u True None show ?thesis
      by (auto simp: same_elsewhere_def split: option.splits)
  next
    case False
    show ?thesis
    proof (cases "udp_conn_state_lookup H key k1")
      case (Some raced)
      then show ?thesis
        using assms None upd False u
          refresh_state_timer_effect [of key "increment_udp_state_metric H METRIC_STATE_REFRESH k1"]
        by (auto simp: refresh_udp_conn_state_def same_elsewhere_def)
    next
      case None2: None
      then show ?thesis
        using assms None upd False u by (auto simp: refresh_udp_conn_state_def same_elsewhere_def)
    qed
  qed
qed

lemma refresh_expires:
  "conversations_expire H P tm k \<Longrightarrow> conversations_expire H P tm (snd (refresh_udp_conn_state H P key dir k))"
  using refresh_effect [of key dir k]
  by (cases "refresh_udp_conn_state H P key dir k") (auto intro: conversations_expire_step)

lemma timer_cb_effect:
  "udp_conn_state_lookup H key (refresh_udp_conn_state_timer_cb H key k) = None \<and>
   same_elsewhere H tm key k (refresh_udp_conn_state_timer_cb H key k)"
  unfolding refresh_udp_conn_state_timer_cb_def using delete by (metis prod.collapse)

lemma timer_cb_expires:
  "conversations_expire H P tm k \<Longrightarrow> conversations_expire H P tm (refresh_udp_conn_state_timer_cb H key k)"
  using timer_cb_effect [of key k] by (auto intro: conversations_expire_step)

end

section \<open>A bounded table\<close>

text \<open>
  An instance of the helpers: an association list of at most \<open>cap\<close> conversations.  A full table
  refuses insertions, a timer operation out of order is refused.
\<close>

record udp_table =
  ut_entries :: "(BpfTuplesKey \<times> BpfUdpConnState \<times> timer_state) list"
  ut_metrics :: BpfUdpStateMetrics

definition table_lookup :: "BpfTuplesKey \<Rightarrow> 'b udp_table_scheme \<Rightarrow> BpfUdpConnState option" where
  "table_lookup key s = map_option fst (map_of (ut_entries s) key)"

definition table_timer :: "'b udp_table_scheme \<Rightarrow> BpfTuplesKey \<Rightarrow> timer_state" where
  "table_timer s key = (case map_of (ut_entries s) key of None \<Rightarrow> Blank | Some (_, t) \<Rightarrow> t)"

definition table_set_timer :: "BpfTuplesKey \<Rightarrow> (timer_state \<Rightarrow> timer_state option) \<Rightarrow>
    'b udp_table_scheme \<Rightarrow> i64 \<times> 'b udp_table_scheme" where
  "table_set_timer key f s =
     (case map_of (ut_entries s) key of
        None \<Rightarrow> (- 22, s)
      | Some (st, t) \<Rightarrow>
          (case f t of
             None \<Rightarrow> (- 22, s)
           | Some t' \<Rightarrow> (0, s\<lparr>ut_entries := AList.update key (st, t') (ut_entries s)\<rparr>)))"

definition table_insert :: "nat \<Rightarrow> BpfTuplesKey \<Rightarrow> BpfUdpConnState \<Rightarrow> u64 \<Rightarrow>
    'b udp_table_scheme \<Rightarrow> i64 \<times> 'b udp_table_scheme" where
  "table_insert cap key v flags s =
     (if map_of (ut_entries s) key \<noteq> None then (- 17, s)
      else if length (ut_entries s) \<ge> cap then (- 7, s)
      else (0, s\<lparr>ut_entries := AList.update key (v, Blank) (ut_entries s)\<rparr>))"

fun timer_callback_set :: "timer_state \<Rightarrow> timer_state option" where
  "timer_callback_set Blank = None"
| "timer_callback_set Initialised = Some WithCallback"
| "timer_callback_set t = Some t"

fun timer_started :: "u64 \<Rightarrow> timer_state \<Rightarrow> timer_state option" where
  "timer_started n WithCallback = Some (Running n)"
| "timer_started n (Running m) = Some (Running n)"
| "timer_started n t = None"

definition ref_kernel :: "nat \<Rightarrow> 'b udp_table_scheme udp_kernel" where
  "ref_kernel cap =
     \<lparr>udp_conn_state_lookup = table_lookup,
      udp_conn_state_update = table_insert cap,
      udp_conn_state_delete = (\<lambda>key s. (0, s\<lparr>ut_entries := AList.delete key (ut_entries s)\<rparr>)),
      udp_state_metrics_lookup = (\<lambda>i s. Some (ut_metrics s)),
      udp_state_metrics_write = (\<lambda>i m s. s\<lparr>ut_metrics := m\<rparr>),
      bpf_timer_init = (\<lambda>key _. table_set_timer key (\<lambda>t. if t = Blank then Some Initialised else None)),
      bpf_timer_set_callback = (\<lambda>key. table_set_timer key timer_callback_set),
      bpf_timer_start = (\<lambda>key n. table_set_timer key (timer_started n))\<rparr>"

lemma table_set_timer_effect:
  assumes "table_set_timer key f s = (r, s')"
  shows "\<forall>key'. key' \<noteq> key \<longrightarrow> table_lookup key' s' = table_lookup key' s \<and> table_timer s' key' = table_timer s key'"
    and "table_lookup key s' = table_lookup key s"
    and "r = 0 \<Longrightarrow> f (table_timer s key) = Some (table_timer s' key)"
    and "r \<noteq> 0 \<Longrightarrow> s' = s"
  using assms
  by (auto simp: table_set_timer_def table_lookup_def table_timer_def update_conv' split: option.splits if_splits)

interpretation table: udp_helpers "ref_kernel cap" P table_timer for cap P
proof
  fix key k r k' c n v
  let ?H = "ref_kernel cap"
  note s = same_elsewhere_def ref_kernel_def
  show "udp_conn_state_delete ?H key k = (r, k') \<Longrightarrow>
      udp_conn_state_lookup ?H key k' = None \<and> same_elsewhere ?H table_timer key k k'"
    by (auto simp: s table_lookup_def table_timer_def delete_conv')
  show "udp_conn_state_update ?H key v BPF_NOEXIST k = (r, k') \<Longrightarrow>
      same_elsewhere ?H table_timer key k k' \<and>
      (if r = 0 then udp_conn_state_lookup ?H key k' = Some v \<and> table_timer k' key = Blank
       else udp_conn_state_lookup ?H key k' = udp_conn_state_lookup ?H key k \<and> table_timer k' key = table_timer k key \<or>
            table_timer k' key = Running (param_udp_state_idle_timeout_ns P))"
    by (auto simp: s table_insert_def table_lookup_def table_timer_def update_conv' split: if_splits)
  show "bpf_timer_init ?H key c k = (r, k') \<Longrightarrow>
      same_elsewhere ?H table_timer key k k' \<and> udp_conn_state_lookup ?H key k' = udp_conn_state_lookup ?H key k \<and>
      table_timer k' key = (if r = 0 then Initialised else table_timer k key)"
    using table_set_timer_effect [of key _ k r k'] by (fastforce simp: s split: if_splits)
  show "bpf_timer_set_callback ?H key k = (r, k') \<Longrightarrow>
      same_elsewhere ?H table_timer key k k' \<and> udp_conn_state_lookup ?H key k' = udp_conn_state_lookup ?H key k \<and>
      table_timer k' key = (if r = 0 \<and> table_timer k key = Initialised then WithCallback else table_timer k key)"
    using table_set_timer_effect [of key timer_callback_set k r k']
    by (cases "r = 0"; cases "table_timer k key") (auto simp: s)
  show "bpf_timer_start ?H key n k = (r, k') \<Longrightarrow>
      same_elsewhere ?H table_timer key k k' \<and> udp_conn_state_lookup ?H key k' = udp_conn_state_lookup ?H key k \<and>
      table_timer k' key =
        (if r = 0 \<and> table_timer k key \<noteq> Blank \<and> table_timer k key \<noteq> Initialised then Running n else table_timer k key)"
    using table_set_timer_effect [of key "timer_started n" k r k']
    by (cases "r = 0"; cases "table_timer k key") (auto simp: s)
qed (simp_all add: ref_kernel_def table_lookup_def table_timer_def)

section \<open>Histories\<close>

text \<open>The tables the program can produce: packets in any order, and timers that fire.\<close>

inductive udp_reachable :: "('k, 'a) udp_kernel_scheme \<Rightarrow> BpfDaeParam \<Rightarrow> 'k \<Rightarrow> bool" for H P where
  empty: "\<forall>key. udp_conn_state_lookup H key k = None \<Longrightarrow> udp_reachable H P k"
| packet: "udp_reachable H P k \<Longrightarrow> udp_reachable H P (snd (refresh_udp_conn_state H P key dir k))"
| expired: "udp_reachable H P k \<Longrightarrow> udp_reachable H P (refresh_udp_conn_state_timer_cb H key k)"


definition sample_table :: udp_table where
  "sample_table =
     \<lparr>ut_entries = [], ut_metrics = \<lparr>state_created_total = 0, state_refresh_total = 0, insert_failure_total = 0,
        post_insert_lookup_failure_total = 0, timer_init_failure_total = 0, timer_callback_failure_total = 0,
        timer_start_failure_total = 0\<rparr>\<rparr>"




end
