(* ===== verification/Bpf_Redirect_Vlan.thy ===== *)
theory Bpf_Redirect_Vlan
  imports Bpf_Udp_State
begin

text \<open>
  \<^verbatim>\<open>dae-ebpf-program/src/redirect_vlan.rs\<close>: the VLAN tags of a packet are remembered in its redirect
  entry, stripped on the way to the daemon, and put back on the reply.  The packet helpers
  extend the kernel parameter of \<^verbatim>\<open>udp_state.rs\<close>.
\<close>

section \<open>The program\<close>

definition MAX_VLAN_DEPTH :: u8 where "MAX_VLAN_DEPTH = 2"
definition VLAN_HEADER_LEN :: "32 word" where "VLAN_HEADER_LEN = 4"
definition BPF_ADJ_ROOM_MAC :: u32 where "BPF_ADJ_ROOM_MAC = 1"
definition ETH_PROTOCOL_OFFSET :: u32 where "ETH_PROTOCOL_OFFSET = 12"
definition OUTER_TCI_OFFSET :: u32 where "OUTER_TCI_OFFSET = 14"
definition INNER_PROTOCOL_OFFSET :: u32 where "INNER_PROTOCOL_OFFSET = 16"
definition INNER_TCI_OFFSET :: u32 where "INNER_TCI_OFFSET = 18"
definition SINGLE_INNER_PROTOCOL_OFFSET :: u32 where "SINGLE_INNER_PROTOCOL_OFFSET = 16"
definition DOUBLE_INNER_PROTOCOL_OFFSET :: u32 where "DOUBLE_INNER_PROTOCOL_OFFSET = 20"

record 'k skb_kernel = "'k udp_kernel" +
  bpf_skb_store_bytes :: "u32 \<Rightarrow> bytes \<Rightarrow> 'k \<Rightarrow> i64 \<times> 'k"
  bpf_skb_vlan_pop :: "'k \<Rightarrow> i64 \<times> 'k"
  bpf_skb_adjust_room :: "32 word \<Rightarrow> u32 \<Rightarrow> 'k \<Rightarrow> i64 \<times> 'k"
  bpf_skb_change_head :: "u32 \<Rightarrow> 'k \<Rightarrow> i64 \<times> 'k"

definition store_u16 :: "('k, 'a) skb_kernel_scheme \<Rightarrow> u32 \<Rightarrow> u16 \<Rightarrow> 'k \<Rightarrow> bool \<times> 'k" where
  "store_u16 H offset v k =
     (case bpf_skb_store_bytes H offset (le_bytes 2 v) k of (r, k') \<Rightarrow> (r = 0, k'))"

definition capture :: "ParsedPacket \<Rightarrow> BpfRedirectEntry \<Rightarrow> BpfRedirectEntry option" where
  "capture info entry =
     (if vlan_metadata info AND VLAN_DEPTH_MASK > MAX_VLAN_DEPTH then None
      else Some (entry\<lparr>re_vlan_metadata := vlan_metadata info, re_vlan_tci := vlan_tci info\<rparr>))"

definition strip :: "('k, 'a) skb_kernel_scheme \<Rightarrow> ParsedPacket \<Rightarrow> 'k \<Rightarrow> bool \<times> 'k" where
  "strip H info k =
     (let depth = vlan_metadata info AND VLAN_DEPTH_MASK;
          pop = (\<lambda>wanted k. if wanted then case bpf_skb_vlan_pop H k of (r, k') \<Rightarrow> (r = 0, k') else (True, k))
      in if depth > MAX_VLAN_DEPTH then (False, k)
         else case pop (depth \<ge> 1) k of
                (False, k1) \<Rightarrow> (False, k1)
              | (True, k1) \<Rightarrow> pop (depth \<ge> 2) k1)"

text \<open>Stores in order until one is refused.\<close>

fun store_all :: "('k, 'a) skb_kernel_scheme \<Rightarrow> (u32 \<times> u16) list \<Rightarrow> 'k \<Rightarrow> bool \<times> 'k" where
  "store_all H [] k = (True, k)"
| "store_all H ((offset, v) # ss) k =
     (case store_u16 H offset v k of
        (False, k') \<Rightarrow> (False, k')
      | (True, k') \<Rightarrow> store_all H ss k')"

definition restore :: "('k, 'a) skb_kernel_scheme \<Rightarrow> BpfRedirectEntry \<Rightarrow> u16 \<Rightarrow> 'k \<Rightarrow> bool \<times> 'k" where
  "restore H entry l3_protocol k =
     (let metadata = re_vlan_metadata entry;
          depth = metadata AND VLAN_DEPTH_MASK
      in if depth > MAX_VLAN_DEPTH then (False, k)
         else if depth = 0 then (True, k)
         else case bpf_skb_adjust_room H (VLAN_HEADER_LEN * ucast depth) BPF_ADJ_ROOM_MAC k of
           (r, k1) \<Rightarrow>
             if r \<noteq> 0 then (False, k1)
             else
               let outer_protocol = vlan_protocol_at metadata 0;
                   outer_tci = swap16 (re_vlan_tci entry ! 0)
               in case store_all H [(ETH_PROTOCOL_OFFSET, outer_protocol), (OUTER_TCI_OFFSET, outer_tci)] k1 of
                    (False, k2) \<Rightarrow> (False, k2)
                  | (True, k2) \<Rightarrow>
                      if depth = 1 then store_u16 H SINGLE_INNER_PROTOCOL_OFFSET l3_protocol k2
                      else
                        let inner_protocol = vlan_protocol_at metadata 1;
                            inner_tci = swap16 (re_vlan_tci entry ! 1)
                        in store_all H [(INNER_PROTOCOL_OFFSET, inner_protocol), (INNER_TCI_OFFSET, inner_tci),
                                        (DOUBLE_INNER_PROTOCOL_OFFSET, l3_protocol)] k2)"

section \<open>What the kernel promises\<close>

text \<open>
  Documented behaviour on the bytes of the packet: a successful store overwrites them in place, and
  room at the MAC layer is made between the link and the network header, its contents unspecified.
\<close>

locale skb_helpers =
  fixes H :: "('k, 'a) skb_kernel_scheme" and frame :: "'k \<Rightarrow> bytes"
  assumes store:
      "bpf_skb_store_bytes H offset bs k = (r, k') \<Longrightarrow> r = 0 \<Longrightarrow>
         unat offset + length bs \<le> length (frame k) \<and>
         frame k' = take (unat offset) (frame k) @ bs @ drop (unat offset + length bs) (frame k)"
    and adjust_room:
      "bpf_skb_adjust_room H n BPF_ADJ_ROOM_MAC k = (r, k') \<Longrightarrow> r = 0 \<Longrightarrow> 0 < sint n \<Longrightarrow>
         \<exists>room. length room = unat n \<and> frame k' = take 14 (frame k) @ room @ drop 14 (frame k)"
begin

lemma store_u16_bytes:
  assumes "store_u16 H offset v k = (True, k')"
  shows "frame k' = take (unat offset) (frame k) @ le_bytes 2 v @ drop (unat offset + 2) (frame k)"
  using assms store by (auto simp: store_u16_def split: prod.splits)

end

section \<open>Restoring the tags\<close>


text \<open>The bytes after a list of stores.\<close>

fun stored :: "(u32 \<times> u16) list \<Rightarrow> bytes \<Rightarrow> bytes" where
  "stored [] f = f"
| "stored ((offset, v) # ss) f =
     stored ss (take (unat offset) f @ le_bytes 2 v @ drop (unat offset + 2) f)"

lemma le_bytes_swap16: "le_bytes 2 x = be_bytes 2 (swap16 x)"
  using le_bytes_le_word [of "rev (le_bytes 2 x)", where 'a = 16] by (simp add: be_bytes_def swap16_def)

lemma stored_at:
  "length a = unat offset \<Longrightarrow> length b = 2 \<Longrightarrow>
   stored ((offset, v) # ss) (a @ b @ c) = stored ss (a @ be_bytes 2 (swap16 v) @ c)"
  by (simp add: le_bytes_swap16)

lemmas vlan_offsets =
  ETH_PROTOCOL_OFFSET_def OUTER_TCI_OFFSET_def SINGLE_INNER_PROTOCOL_OFFSET_def INNER_PROTOCOL_OFFSET_def
  INNER_TCI_OFFSET_def DOUBLE_INNER_PROTOCOL_OFFSET_def

lemma stored_one_tag:
  assumes "length h = 12" "length et = 2" "length gap = 4"
  shows "stored [(ETH_PROTOCOL_OFFSET, p0), (OUTER_TCI_OFFSET, t0), (SINGLE_INNER_PROTOCOL_OFFSET, l3)] (h @ et @ gap @ payload) =
    h @ be_bytes 2 (swap16 p0) @ be_bytes 2 (swap16 t0) @ be_bytes 2 (swap16 l3) @ payload"
proof -
  obtain g0 g1 where g: "gap = g0 @ g1" "length g0 = 2" "length g1 = 2"
    using assms(3) that [of "take 2 gap" "drop 2 gap"] by simp
  show ?thesis
    unfolding g(1) append_assoc
    using assms g
      stored_at [of h ETH_PROTOCOL_OFFSET et] stored_at [of "h @ be_bytes 2 (swap16 p0)" OUTER_TCI_OFFSET g0]
      stored_at [of "h @ be_bytes 2 (swap16 p0) @ be_bytes 2 (swap16 t0)" SINGLE_INNER_PROTOCOL_OFFSET g1]
    by (simp add: vlan_offsets del: stored.simps(2))
qed

lemma stored_two_tags:
  assumes "length h = 12" "length et = 2" "length gap = 8"
  shows "stored [(ETH_PROTOCOL_OFFSET, p0), (OUTER_TCI_OFFSET, t0), (INNER_PROTOCOL_OFFSET, p1), (INNER_TCI_OFFSET, t1),
      (DOUBLE_INNER_PROTOCOL_OFFSET, l3)] (h @ et @ gap @ payload) =
    h @ be_bytes 2 (swap16 p0) @ be_bytes 2 (swap16 t0) @ be_bytes 2 (swap16 p1) @ be_bytes 2 (swap16 t1) @
      be_bytes 2 (swap16 l3) @ payload"
proof -
  obtain g0 g1 g2 g3 where g: "gap = g0 @ g1 @ g2 @ g3" "length g0 = 2" "length g1 = 2" "length g2 = 2" "length g3 = 2"
  proof -
    obtain b0 b1 b2 b3 b4 b5 b6 b7 where "gap = [b0, b1, b2, b3, b4, b5, b6, b7]"
      using assms(3) by (auto simp: numeral_eq_Suc length_Suc_conv)
    then show ?thesis using that [of "[b0, b1]" "[b2, b3]" "[b4, b5]" "[b6, b7]"] by simp
  qed
  show ?thesis
    unfolding g(1) append_assoc
    using assms g
      stored_at [of h ETH_PROTOCOL_OFFSET et] stored_at [of "h @ be_bytes 2 (swap16 p0)" OUTER_TCI_OFFSET g0]
      stored_at [of "h @ be_bytes 2 (swap16 p0) @ be_bytes 2 (swap16 t0)" INNER_PROTOCOL_OFFSET g1]
      stored_at [of "h @ be_bytes 2 (swap16 p0) @ be_bytes 2 (swap16 t0) @ be_bytes 2 (swap16 p1)" INNER_TCI_OFFSET g2]
      stored_at [of "h @ be_bytes 2 (swap16 p0) @ be_bytes 2 (swap16 t0) @ be_bytes 2 (swap16 p1) @ be_bytes 2 (swap16 t1)"
        DOUBLE_INNER_PROTOCOL_OFFSET g3]
    by (simp add: vlan_offsets del: stored.simps(2))
qed

context skb_helpers
begin

lemma store_all_bytes: "store_all H ss k = (True, k') \<Longrightarrow> frame k' = stored ss (frame k)"
proof (induction ss arbitrary: k)
  case Nil
  then show ?case by simp
next
  case (Cons s ss)
  obtain offset v where s: "s = (offset, v)" by fastforce
  obtain b k1 where 1: "store_u16 H offset v k = (b, k1)" by fastforce
  have b: "b" "store_all H ss k1 = (True, k')" using Cons.prems 1 by (cases b; simp add: s)+
  then have "store_u16 H offset v k = (True, k1)" using 1 by simp
  from store_u16_bytes [OF this] Cons.IH [OF b(2)] show ?case by (simp add: s)
qed

lemma restore_bytes:
  assumes f: "frame k = dst @ src @ be_bytes 2 et @ payload" and len: "length dst = 6" "length src = 6"
    and run: "restore H entry l3 k = (True, k')" and d: "re_vlan_metadata entry AND VLAN_DEPTH_MASK = of_nat n" "n = 1 \<or> n = 2"
  shows "frame k' = dst @ src @ tagged (map (\<lambda>i. (swap16 (vlan_protocol_at (re_vlan_metadata entry) (word_of_nat i)),
    re_vlan_tci entry ! i)) [0..<n]) (swap16 l3) @ payload"
proof -
  let ?m = "re_vlan_metadata entry"
  obtain r k1 where room: "bpf_skb_adjust_room H (VLAN_HEADER_LEN * ucast (?m AND VLAN_DEPTH_MASK)) BPF_ADJ_ROOM_MAC k = (r, k1)"
    by fastforce
  have "0 < sint (VLAN_HEADER_LEN * ucast (of_nat n :: u8) :: 32 word)" "unat (VLAN_HEADER_LEN * ucast (of_nat n :: u8) :: 32 word) = 4 * n"
    using d(2) by (auto simp: VLAN_HEADER_LEN_def)
  moreover have "r = 0" using run room d(2) by (auto simp: restore_def d(1) MAX_VLAN_DEPTH_def Let_def split: if_splits)
  ultimately obtain gap where gap: "length gap = 4 * n" "frame k1 = dst @ src @ be_bytes 2 et @ gap @ payload"
    using adjust_room [OF room] f len by (auto simp: d(1))
  have "store_all H ([(ETH_PROTOCOL_OFFSET, vlan_protocol_at ?m 0), (OUTER_TCI_OFFSET, swap16 (re_vlan_tci entry ! 0))] @
      (if n = 1 then [(SINGLE_INNER_PROTOCOL_OFFSET, l3)]
       else [(INNER_PROTOCOL_OFFSET, vlan_protocol_at ?m 1), (INNER_TCI_OFFSET, swap16 (re_vlan_tci entry ! 1)),
             (DOUBLE_INNER_PROTOCOL_OFFSET, l3)])) k1 = (True, k')"
    using run room \<open>r = 0\<close> d(2)
    by (auto simp: restore_def d(1) MAX_VLAN_DEPTH_def Let_def split: prod.splits bool.splits)
  note s = store_all_bytes [OF this]
  from d(2) show ?thesis
  proof
    assume "n = 1"
    then show ?thesis using s gap len stored_one_tag [of "dst @ src" "be_bytes 2 et" gap]
      by (simp del: stored.simps(2))
  next
    assume "n = 2"
    then show ?thesis using s gap len stored_two_tags [of "dst @ src" "be_bytes 2 et" gap]
      by (simp add: upt_rec del: stored.simps(2))
  qed
qed

end

section \<open>A packet as a list of bytes\<close>

text \<open>An instance of the helpers; the room made at the MAC layer is zeroed.\<close>

record skb_table = udp_table +
  st_frame :: bytes

definition frame_store :: "u32 \<Rightarrow> bytes \<Rightarrow> 'b skb_table_scheme \<Rightarrow> i64 \<times> 'b skb_table_scheme" where
  "frame_store offset bs s =
     (if unat offset + length bs \<le> length (st_frame s)
      then (0, s\<lparr>st_frame := take (unat offset) (st_frame s) @ bs @ drop (unat offset + length bs) (st_frame s)\<rparr>)
      else (- 14, s))"

definition frame_vlan_pop :: "'b skb_table_scheme \<Rightarrow> i64 \<times> 'b skb_table_scheme" where
  "frame_vlan_pop s =
     (if length (st_frame s) \<ge> 18 \<and> is_tpid (be_word (take 2 (drop 12 (st_frame s))))
      then (0, s\<lparr>st_frame := take 12 (st_frame s) @ drop 16 (st_frame s)\<rparr>)
      else (- 22, s))"

definition frame_adjust_room :: "32 word \<Rightarrow> u32 \<Rightarrow> 'b skb_table_scheme \<Rightarrow> i64 \<times> 'b skb_table_scheme" where
  "frame_adjust_room n mode s =
     (if sint n > 0 \<and> mode = BPF_ADJ_ROOM_MAC \<and> length (st_frame s) \<ge> 14
      then (0, s\<lparr>st_frame := take 14 (st_frame s) @ replicate (unat n) 0 @ drop 14 (st_frame s)\<rparr>)
      else (- 22, s))"

definition frame_change_head :: "u32 \<Rightarrow> 'b skb_table_scheme \<Rightarrow> i64 \<times> 'b skb_table_scheme" where
  "frame_change_head n s = (0, s\<lparr>st_frame := replicate (unat n) 0 @ st_frame s\<rparr>)"

definition ref_skb_kernel :: "nat \<Rightarrow> 'b skb_table_scheme skb_kernel" where
  "ref_skb_kernel cap =
     udp_kernel.extend (ref_kernel cap)
       (skb_kernel.fields frame_store frame_vlan_pop frame_adjust_room frame_change_head)"

lemma ref_skb_kernel_simps [simp]:
  "udp_conn_state_lookup (ref_skb_kernel cap) = udp_conn_state_lookup (ref_kernel cap)"
  "bpf_skb_store_bytes (ref_skb_kernel cap) = frame_store"
  "bpf_skb_vlan_pop (ref_skb_kernel cap) = frame_vlan_pop"
  "bpf_skb_adjust_room (ref_skb_kernel cap) = frame_adjust_room"
  "bpf_skb_change_head (ref_skb_kernel cap) = frame_change_head"
  by (simp_all add: ref_skb_kernel_def udp_kernel.defs skb_kernel.defs)

interpretation frame: skb_helpers "ref_skb_kernel cap" st_frame for cap
  by unfold_locales (auto simp: frame_store_def frame_adjust_room_def split: if_splits)

lemma restore_frame:
  assumes "skb_helpers H frame" "link_ok info" "capture info entry0 = Some entry"
    and "frame k = eth_frame dst src [] (swap16 l3_protocol) payload" "length dst = 6" "length src = 6"
    and "restore H entry l3_protocol k = (True, k')"
  shows "frame k' = eth_frame dst src (vlan_tags_of info) (swap16 l3_protocol) payload"
proof -
  have e: "re_vlan_metadata entry = vlan_metadata info" "re_vlan_tci entry = vlan_tci info"
    using assms(3) by (auto simp: capture_def split: if_splits)
  let ?n = "unat (vlan_metadata info AND VLAN_DEPTH_MASK)"
  have "?n \<le> 2" using assms(2) by (simp add: link_ok_def word_le_nat_alt)
  then consider "?n = 0" | "?n = 1 \<or> ?n = 2" by linarith
  then show ?thesis
  proof cases
    case 1
    then show ?thesis using assms(4,7) by (auto simp: restore_def e vlan_tags_of_def unat_eq_0 MAX_VLAN_DEPTH_def Let_def)
  next
    case 2
    have "frame k = dst @ src @ be_bytes 2 (swap16 l3_protocol) @ payload"
      using assms(4) by (simp add: eth_frame_def)
    from skb_helpers.restore_bytes [OF assms(1) this assms(5-7) _ 2] show ?thesis
      by (simp add: e vlan_tags_of_def eth_frame_def)
  qed
qed

text \<open>
  C28. The tags come back: when the tags recorded from a packet are restored onto an untagged frame, the
  frame that results carries exactly these tags, outermost first, around the same payload.
\<close>

theorem restore_captured_tags:
  assumes "skb_helpers H frame" "link_ok info" "capture info entry0 = Some entry"
    and "frame k = eth_frame dst src [] (swap16 l3_protocol) payload" "length dst = 6" "length src = 6"
    and "restore H entry l3_protocol k = (True, k')"
  shows "frame k' = eth_frame dst src (vlan_tags_of info) (swap16 l3_protocol) payload"
  by (rule restore_frame [OF assms])

definition sample_packet :: ParsedPacket where
  "sample_packet = ParsedPacket_zeroed\<lparr>vlan_metadata := 5, vlan_tci := [100, 0]\<rparr>"

definition sample_skb_table :: skb_table where
  "sample_skb_table =
     \<lparr>ut_entries = [], ut_metrics = ut_metrics sample_table,
      st_frame = eth_frame (replicate 6 1) (replicate 6 2) [] (swap16 8) [0x45]\<rparr>"

theorem restore_captured_tags_witness:
  "\<exists>entry k'. capture sample_packet BpfRedirectEntry_zeroed = Some entry \<and>
     restore (ref_skb_kernel 1) entry 8 sample_skb_table = (True, k') \<and>
     st_frame k' = eth_frame (replicate 6 1) (replicate 6 2) [(0x88a8, 100)] (swap16 8) [0x45]"
proof -
  let ?e = "BpfRedirectEntry_zeroed\<lparr>re_vlan_metadata := 5, re_vlan_tci := [100, 0]\<rparr>"
  have c: "capture sample_packet BpfRedirectEntry_zeroed = Some ?e"
    by (simp add: capture_def sample_packet_def MAX_VLAN_DEPTH_def VLAN_DEPTH_MASK_def)
  have "fst (restore (ref_skb_kernel 1) ?e 8 sample_skb_table)"
    by (simp add: restore_def VLAN_DEPTH_MASK_def MAX_VLAN_DEPTH_def VLAN_HEADER_LEN_def frame_adjust_room_def Let_def
        sample_skb_table_def eth_frame_def store_u16_def frame_store_def vlan_offsets)
  then obtain k' where r: "restore (ref_skb_kernel 1) ?e 8 sample_skb_table = (True, k')"
    by (metis prod.collapse)
  have l: "link_ok sample_packet"
    by (simp add: link_ok_def sample_packet_def ParsedPacket_zeroed_def VLAN_DEPTH_MASK_def)
  have t: "vlan_tags_of sample_packet = [(0x88a8, 100)]"
    by (simp add: vlan_tags_of_def sample_packet_def vlan_consts vlan_protocol_at_def)
  have "st_frame k' = eth_frame (replicate 6 1) (replicate 6 2) (vlan_tags_of sample_packet) (swap16 8) [0x45]"
    by (rule restore_captured_tags [OF frame.skb_helpers_axioms l c _ _ _ r]) (simp_all add: sample_skb_table_def)
  with c r t show ?thesis by auto
qed

end
