(* ===== verification/Bpf_Tproxy.thy ===== *)
theory Bpf_Tproxy
  imports Bpf_Routing Bpf_Redirect_Vlan
begin

text \<open>
  \<^verbatim>\<open>dae-ebpf-program/src/tproxy.rs\<close> and the remaining functions of \<^verbatim>\<open>routing.rs\<close>: the traffic control
  programs on the LAN and WAN interfaces and on the pair of virtual interfaces that leads to
  the daemon.  They compose the parser, the conversation table, the routing decision and the
  redirect table.

  All kernel state is reached through the parameter \<open>kernel\<close>, which extends the helpers of the
  previous theories by the fields of the packet, the sockets and the remaining maps.  An action
  is a signed 32-bit value.
\<close>

section \<open>Constants and helpers\<close>

type_synonym i32 = "32 word"

definition TC_ACT_UNSPEC :: i32 where "TC_ACT_UNSPEC = - 1"
definition TCX_NEXT :: i32 where "TCX_NEXT = TC_ACT_UNSPEC"
definition TC_ACT_OK :: i32 where "TC_ACT_OK = 0"
definition TC_ACT_SHOT :: i32 where "TC_ACT_SHOT = 2"
definition BPF_ANY :: u64 where "BPF_ANY = 0"
definition BPF_F_INGRESS :: u64 where "BPF_F_INGRESS = 1"
definition PACKET_HOST :: u32 where "PACKET_HOST = 0"
definition PACKET_OTHERHOST :: u32 where "PACKET_OTHERHOST = 3"
definition BPF_TCP_LISTEN :: u32 where "BPF_TCP_LISTEN = 10"
definition NOWHERE_IFINDEX :: u32 where "NOWHERE_IFINDEX = 0"
definition LISTEN_SOCKET_KEY_TCP4 :: u32 where "LISTEN_SOCKET_KEY_TCP4 = 0"
definition LISTEN_SOCKET_KEY_TCP6 :: u32 where "LISTEN_SOCKET_KEY_TCP6 = 1"
definition LISTEN_SOCKET_KEY_UDP4 :: u32 where "LISTEN_SOCKET_KEY_UDP4 = 2"
definition LISTEN_SOCKET_KEY_UDP6 :: u32 where "LISTEN_SOCKET_KEY_UDP6 = 3"
definition REDIRECT_LINK_LAYER_L2 :: u8 where "REDIRECT_LINK_LAYER_L2 = 2"
definition REDIRECT_LINK_LAYER_L3 :: u8 where "REDIRECT_LINK_LAYER_L3 = 3"
definition TPROXY_METRICS_KEY :: u32 where "TPROXY_METRICS_KEY = 0"
definition METRIC_SK_ASSIGN_FAILURE :: u32 where "METRIC_SK_ASSIGN_FAILURE = 0"
definition METRIC_REDIRECT_PREP_STORE_FAILURE :: u32 where "METRIC_REDIRECT_PREP_STORE_FAILURE = 1"
definition METRIC_REDIRECT_RESTORE_STORE_FAILURE :: u32 where "METRIC_REDIRECT_RESTORE_STORE_FAILURE = 2"
definition METRIC_REDIRECT_TRACK_UPDATE_FAILURE :: u32 where "METRIC_REDIRECT_TRACK_UPDATE_FAILURE = 3"
definition METRIC_REDIRECT_PEER_LOOKUP_MISS :: u32 where "METRIC_REDIRECT_PEER_LOOKUP_MISS = 4"
definition METRIC_REDIRECT_PEER_ABI_MISMATCH :: u32 where "METRIC_REDIRECT_PEER_ABI_MISMATCH = 5"
definition METRIC_REDIRECT_RETURN_LOOKUP_MISS :: u32 where "METRIC_REDIRECT_RETURN_LOOKUP_MISS = 6"
definition METRIC_REDIRECT_RETURN_ABI_MISMATCH :: u32 where "METRIC_REDIRECT_RETURN_ABI_MISMATCH = 7"
definition ETH_DST_OFFSET :: u32 where "ETH_DST_OFFSET = 0"

record BpfTproxyMetrics =
  sk_assign_failure_total :: u64
  redirect_prep_store_failure_total :: u64
  redirect_restore_store_failure_total :: u64
  redirect_track_update_failure_total :: u64
  redirect_peer_lookup_miss_total :: u64
  redirect_peer_abi_mismatch_total :: u64
  redirect_return_lookup_miss_total :: u64
  redirect_return_abi_mismatch_total :: u64

text \<open>A socket pointer is a number; looking one up takes a reference.\<close>

record 'k kernel = "'k skb_kernel" +
  skb_load_bytes :: "'k \<Rightarrow> load_helper"
  skb_fields :: "'k \<Rightarrow> skb_meta"
  skb_ifindex :: "'k \<Rightarrow> u32"
  skb_ingress_ifindex :: "'k \<Rightarrow> u32"
  skb_mark :: "'k \<Rightarrow> u32"
  set_skb_mark :: "u32 \<Rightarrow> 'k \<Rightarrow> 'k"
  bpf_skb_change_type :: "u32 \<Rightarrow> 'k \<Rightarrow> i64 \<times> 'k"
  bpf_redirect :: "u32 \<Rightarrow> u64 \<Rightarrow> 'k \<Rightarrow> i64 \<times> 'k"
  tproxy_metrics_lookup :: "u32 \<Rightarrow> 'k \<Rightarrow> BpfTproxyMetrics option"
  tproxy_metrics_write :: "u32 \<Rightarrow> BpfTproxyMetrics \<Rightarrow> 'k \<Rightarrow> 'k"
  listen_socket_lookup :: "u32 \<Rightarrow> 'k \<Rightarrow> u64 option \<times> 'k"
  bpf_sk_assign :: "u64 \<Rightarrow> 'k \<Rightarrow> i64 \<times> 'k"
  bpf_sk_release :: "u64 \<Rightarrow> 'k \<Rightarrow> i64 \<times> 'k"
  bpf_skc_lookup_tcp :: "BpfSockTuple \<Rightarrow> u32 \<Rightarrow> u64 \<Rightarrow> 'k \<Rightarrow> u64 option \<times> 'k"
  sock_state :: "u64 \<Rightarrow> 'k \<Rightarrow> u32"
  redirect_track_lookup :: "BpfRedirectKey \<Rightarrow> 'k \<Rightarrow> BpfRedirectEntry option"
  redirect_track_update :: "BpfRedirectKey \<Rightarrow> BpfRedirectEntry \<Rightarrow> u64 \<Rightarrow> 'k \<Rightarrow> i64 \<times> 'k"
  routing_tuples_lookup :: "BpfTuplesKey \<Rightarrow> 'k \<Rightarrow> BpfRoutingResult option"
  routing_tuples_update :: "BpfTuplesKey \<Rightarrow> BpfRoutingResult \<Rightarrow> u64 \<Rightarrow> 'k \<Rightarrow> i64 \<times> 'k"
  outbound_connectivity_lookup :: "BpfOutboundConnectivityQuery \<Rightarrow> 'k \<Rightarrow> u32 option"
  bpf_get_socket_cookie :: "'k \<Rightarrow> u64"
  cookie_pid_lookup :: "u64 \<Rightarrow> 'k \<Rightarrow> BpfPidPname option"
  route_maps_of :: "'k \<Rightarrow> route_maps"
  bpf_loop :: loop_helper

section \<open>Counters\<close>

definition bump_tproxy_metric :: "u32 \<Rightarrow> BpfTproxyMetrics \<Rightarrow> BpfTproxyMetrics option" where
  "bump_tproxy_metric metric m =
     (if metric = METRIC_SK_ASSIGN_FAILURE then Some (m\<lparr>sk_assign_failure_total := sk_assign_failure_total m + 1\<rparr>)
      else if metric = METRIC_REDIRECT_PREP_STORE_FAILURE
      then Some (m\<lparr>redirect_prep_store_failure_total := redirect_prep_store_failure_total m + 1\<rparr>)
      else if metric = METRIC_REDIRECT_RESTORE_STORE_FAILURE
      then Some (m\<lparr>redirect_restore_store_failure_total := redirect_restore_store_failure_total m + 1\<rparr>)
      else if metric = METRIC_REDIRECT_TRACK_UPDATE_FAILURE
      then Some (m\<lparr>redirect_track_update_failure_total := redirect_track_update_failure_total m + 1\<rparr>)
      else if metric = METRIC_REDIRECT_PEER_LOOKUP_MISS
      then Some (m\<lparr>redirect_peer_lookup_miss_total := redirect_peer_lookup_miss_total m + 1\<rparr>)
      else if metric = METRIC_REDIRECT_PEER_ABI_MISMATCH
      then Some (m\<lparr>redirect_peer_abi_mismatch_total := redirect_peer_abi_mismatch_total m + 1\<rparr>)
      else if metric = METRIC_REDIRECT_RETURN_LOOKUP_MISS
      then Some (m\<lparr>redirect_return_lookup_miss_total := redirect_return_lookup_miss_total m + 1\<rparr>)
      else if metric = METRIC_REDIRECT_RETURN_ABI_MISMATCH
      then Some (m\<lparr>redirect_return_abi_mismatch_total := redirect_return_abi_mismatch_total m + 1\<rparr>)
      else None)"

definition increment_tproxy_metric :: "('k, 'a) kernel_scheme \<Rightarrow> u32 \<Rightarrow> 'k \<Rightarrow> 'k" where
  "increment_tproxy_metric H metric k =
     (case tproxy_metrics_lookup H TPROXY_METRICS_KEY k of
        None \<Rightarrow> k
      | Some m \<Rightarrow>
          (case bump_tproxy_metric metric m of
             None \<Rightarrow> k
           | Some m' \<Rightarrow> tproxy_metrics_write H TPROXY_METRICS_KEY m' k))"

section \<open>Packets and parameters\<close>

definition redirect_link_layer_for_header_len :: "u32 \<Rightarrow> u8" where
  "redirect_link_layer_for_header_len link_h_len =
     (if link_h_len = 0 then REDIRECT_LINK_LAYER_L3 else REDIRECT_LINK_LAYER_L2)"

definition redirect_entry_requires_l2_restore :: "BpfRedirectEntry \<Rightarrow> bool" where
  "redirect_entry_requires_l2_restore entry \<longleftrightarrow> re_link_layer entry = REDIRECT_LINK_LAYER_L2"

definition redirect_entry_uses_l3_no_mac_redirect :: "BpfRedirectEntry \<Rightarrow> bool" where
  "redirect_entry_uses_l3_no_mac_redirect entry \<longleftrightarrow> re_link_layer entry = REDIRECT_LINK_LAYER_L3"

definition chain_next :: i32 where
  "chain_next = TCX_NEXT"

definition is_new_tcp :: "ParsedPacket \<Rightarrow> bool" where
  "is_new_tcp info \<longleftrightarrow>
     p_l4proto info = IPPROTO_TCP \<and> tcp_syn (tcp_flags info) \<and> \<not> tcp_ack (tcp_flags info)"

definition is_dns_udp :: "ParsedPacket \<Rightarrow> bool" where
  "is_dns_udp info \<longleftrightarrow> p_l4proto info = IPPROTO_UDP \<and> p_dport info = swap16 53"

definition protected_wan_destination :: "u8 \<Rightarrow> u16 \<Rightarrow> bool \<Rightarrow> u16 \<Rightarrow> bool" where
  "protected_wan_destination l4proto dport protect port \<longleftrightarrow>
     protect \<and> (l4proto = IPPROTO_TCP \<or> l4proto = IPPROTO_UDP) \<and> dport = port"

definition udp_state_unavailable_action_for_policy :: "u32 \<Rightarrow> i32" where
  "udp_state_unavailable_action_for_policy policy =
     (if policy = UDP_STATE_SATURATION_POLICY_FAIL_CLOSED then TC_ACT_SHOT else TC_ACT_SHOT)"

definition udp_state_unavailable_action :: "BpfDaeParam \<Rightarrow> i32" where
  "udp_state_unavailable_action P = udp_state_unavailable_action_for_policy (udp_state_saturation_policy P)"

definition physical_wan_control_plane_passthrough_action :: i32 where
  "physical_wan_control_plane_passthrough_action = chain_next"

definition copy_process_name :: "bytes \<Rightarrow> bytes" where
  "copy_process_name src = take 16 src"

definition route_params_from_packet :: "ParsedPacket \<Rightarrow> bool \<Rightarrow> BpfPidPname option \<Rightarrow> RouteParams" where
  "route_params_from_packet info is_wan pid_pname =
     (let params = RouteParams_zeroed
        \<lparr>rp_l4proto_type := (if p_l4proto info = IPPROTO_TCP then L4_PROTO_TCP_MATCH else L4_PROTO_UDP_MATCH),
         rp_ipversion_type := (if p_is_ipv4 info \<noteq> 0 then IP_VERSION_4_MATCH else IP_VERSION_6_MATCH),
         rp_is_wan := (if is_wan then 1 else 0),
         rp_dscp := ucast (p_dscp info),
         rp_h_sport := swap16 (p_sport info),
         rp_h_dport := swap16 (p_dport info),
         rp_saddr := p_sip info,
         rp_daddr := p_dip info,
         rp_mac := replicate 10 0 @ eth_src info\<rparr>
      in case pid_pname of
           None \<Rightarrow> params
         | Some p \<Rightarrow> params\<lparr>rp_pname := copy_process_name (pp_pname p)\<rparr>)"

definition save_routing_result ::
    "('k, 'a) kernel_scheme \<Rightarrow> BpfTuplesKey \<Rightarrow> ParsedPacket \<Rightarrow> u8 \<Rightarrow> u32 \<Rightarrow> bool \<Rightarrow> BpfPidPname option \<Rightarrow>
     'k \<Rightarrow> bool \<times> 'k" where
  "save_routing_result H key info outbound mark must pid_pname k =
     (let result = \<lparr>rr_mark = mark, rr_must = (if must then 1 else 0), rr_mac = eth_src info,
                    rr_outbound = outbound,
                    rr_pname = (case pid_pname of None \<Rightarrow> replicate 16 0 | Some p \<Rightarrow> copy_process_name (pp_pname p)),
                    rr_pid = (case pid_pname of None \<Rightarrow> 0 | Some p \<Rightarrow> pp_pid p),
                    rr_dscp = p_dscp info\<rparr>
      in case routing_tuples_update H key result BPF_ANY k of (r, k') \<Rightarrow> (r = 0, k'))"

definition outbound_alive :: "('k, 'a) kernel_scheme \<Rightarrow> ParsedPacket \<Rightarrow> u8 \<Rightarrow> 'k \<Rightarrow> bool" where
  "outbound_alive H info outbound k =
     (case outbound_connectivity_lookup H
             \<lparr>ocq_outbound = outbound, ocq_l4proto = p_l4proto info,
              ocq_ipversion = (if p_is_ipv4 info \<noteq> 0 then 4 else 6)\<rparr> k of
        None \<Rightarrow> True
      | Some alive \<Rightarrow> alive \<noteq> 0)"

definition pid_pname_for_packet :: "('k, 'a) kernel_scheme \<Rightarrow> 'k \<Rightarrow> BpfPidPname option" where
  "pid_pname_for_packet H k = cookie_pid_lookup H (bpf_get_socket_cookie H k) k"

section \<open>Sockets\<close>

definition listener_key :: "u32 \<Rightarrow> u32 \<Rightarrow> u32 option" where
  "listener_key l4proto ipv4 =
     (if l4proto = ucast IPPROTO_TCP
      then Some (if ipv4 \<noteq> 0 then LISTEN_SOCKET_KEY_TCP4 else LISTEN_SOCKET_KEY_TCP6)
      else if l4proto = ucast IPPROTO_UDP
      then Some (if ipv4 \<noteq> 0 then LISTEN_SOCKET_KEY_UDP4 else LISTEN_SOCKET_KEY_UDP6)
      else None)"

definition assign_listener :: "('k, 'a) kernel_scheme \<Rightarrow> u32 \<Rightarrow> u32 \<Rightarrow> 'k \<Rightarrow> 'k" where
  "assign_listener H l4proto ipv4 k =
     (case listener_key l4proto ipv4 of
        None \<Rightarrow> k
      | Some key \<Rightarrow>
          (case listen_socket_lookup H key k of
             (None, k1) \<Rightarrow> k1
           | (Some sock, k1) \<Rightarrow>
               (case bpf_sk_assign H sock k1 of
                  (r, k2) \<Rightarrow>
                    let k3 = (if r \<noteq> 0 then increment_tproxy_metric H METRIC_SK_ASSIGN_FAILURE k2 else k2)
                    in snd (bpf_sk_release H sock k3))))"

definition current_dae_netns_tcp_state ::
    "('k, 'a) kernel_scheme \<Rightarrow> BpfDaeParam \<Rightarrow> ParsedPacket \<Rightarrow> 'k \<Rightarrow> u32 option \<times> 'k" where
  "current_dae_netns_tcp_state H P info k =
     (case build_sock_tuple info of
        (tuple, tuple_size) \<Rightarrow>
          (case bpf_skc_lookup_tcp H tuple tuple_size (ucast (dae_netns_id P)) k of
             (None, k1) \<Rightarrow> (None, k1)
           | (Some sk, k1) \<Rightarrow> (Some (sock_state H sk k1), snd (bpf_sk_release H sk k1))))"

section \<open>Redirection\<close>

text \<open>A store that is counted when refused.\<close>

definition store_counted :: "('k, 'a) kernel_scheme \<Rightarrow> u32 \<Rightarrow> u32 \<Rightarrow> bytes \<Rightarrow> 'k \<Rightarrow> bool \<times> 'k" where
  "store_counted H metric offset bs k =
     (case bpf_skb_store_bytes H offset bs k of
        (r, k') \<Rightarrow> if r \<noteq> 0 then (False, increment_tproxy_metric H metric k') else (True, k'))"

text \<open>A packet of a device without link header gets an Ethernet header.\<close>

definition prep_link_header :: "('k, 'a) kernel_scheme \<Rightarrow> u32 \<Rightarrow> ParsedPacket \<Rightarrow> 'k \<Rightarrow> bool \<times> 'k" where
  "prep_link_header H link_h_len info k =
     (if link_h_len = 0
      then case bpf_skb_change_head H ETH_HLEN k of
             (r, k1) \<Rightarrow>
               if r \<noteq> 0 then (False, k1)
               else store_counted H METRIC_REDIRECT_PREP_STORE_FAILURE ETH_PROTO_OFFSET
                      (le_bytes 2 (ucast (h_proto info) :: u16)) k1
      else (True, k))"

definition redirect_entry_for :: "ParsedPacket \<Rightarrow> u32 \<Rightarrow> u32 \<Rightarrow> bool \<Rightarrow> BpfRedirectEntry" where
  "redirect_entry_for info ifindex link_h_len from_wan =
     BpfRedirectEntry_zeroed
       \<lparr>re_ifindex := ifindex, re_smac := eth_src info, re_dmac := eth_dst info,
        re_from_wan := (if from_wan then 1 else 0),
        re_link_layer := redirect_link_layer_for_header_len link_h_len,
        re_abi_version := REDIRECT_TRACK_ABI_VERSION\<rparr>"

definition prep_redirect_to_control_plane ::
    "('k, 'a) kernel_scheme \<Rightarrow> BpfDaeParam \<Rightarrow> u32 \<Rightarrow> ParsedPacket \<Rightarrow> BpfTuplesKey \<Rightarrow> bool \<Rightarrow> 'k \<Rightarrow> bool \<times> 'k" where
  "prep_redirect_to_control_plane H P link_h_len info key from_wan k =
     (case prep_link_header H link_h_len info k of
        (False, k1) \<Rightarrow> (False, k1)
      | (True, k1) \<Rightarrow>
          (case strip H info k1 of
             (False, k2) \<Rightarrow> (False, k2)
           | (True, k2) \<Rightarrow>
               (case store_counted H METRIC_REDIRECT_PREP_STORE_FAILURE ETH_DST_OFFSET (dae0peer_mac P) k2 of
                  (False, k3) \<Rightarrow> (False, k3)
                | (True, k3) \<Rightarrow>
                    (case capture info (redirect_entry_for info (skb_ifindex H k3) link_h_len from_wan) of
                       None \<Rightarrow> (False, k3)
                     | Some entry \<Rightarrow>
                         (case redirect_track_update H (from_forward_tuple P key) entry BPF_ANY k3 of
                            (r, k4) \<Rightarrow>
                              if r \<noteq> 0
                              then (False, increment_tproxy_metric H METRIC_REDIRECT_TRACK_UPDATE_FAILURE k4)
                              else (True, k4))))))"

definition redirect_to_control_plane ::
    "('k, 'a) kernel_scheme \<Rightarrow> BpfDaeParam \<Rightarrow> u32 \<Rightarrow> ParsedPacket \<Rightarrow> BpfTuplesKey \<Rightarrow> bool \<Rightarrow> 'k \<Rightarrow> i32 \<times> 'k" where
  "redirect_to_control_plane H P link_h_len info key from_wan k =
     (case prep_redirect_to_control_plane H P link_h_len info key from_wan k of
        (False, k1) \<Rightarrow> (TC_ACT_SHOT, k1)
      | (True, k1) \<Rightarrow> (case bpf_redirect H (dae0_ifindex P) 0 k1 of (r, k2) \<Rightarrow> (ucast r, k2)))"

section \<open>The programs on the virtual interfaces\<close>

definition parse_skb :: "('k, 'a) kernel_scheme \<Rightarrow> u32 \<Rightarrow> 'k \<Rightarrow> int \<times> ParsedPacket" where
  "parse_skb H link_h_len k = parse_transport (skb_fields H k) (skb_load_bytes H k) link_h_len"

definition dae0peer_ingress :: "('k, 'a) kernel_scheme \<Rightarrow> BpfDaeParam \<Rightarrow> 'k \<Rightarrow> i32 \<times> 'k" where
  "dae0peer_ingress H P k =
     (case parse_skb H ETH_HLEN k of
        (ret, info) \<Rightarrow>
          if ret \<noteq> 0 then (TC_ACT_SHOT, k)
          else case redirect_track_lookup H (from_forward_tuple P (build_tuples info)) k of
            None \<Rightarrow> (TC_ACT_SHOT, increment_tproxy_metric H METRIC_REDIRECT_PEER_LOOKUP_MISS k)
          | Some entry \<Rightarrow>
              if re_abi_version entry \<noteq> REDIRECT_TRACK_ABI_VERSION
              then (TC_ACT_SHOT, increment_tproxy_metric H METRIC_REDIRECT_PEER_ABI_MISMATCH k)
              else let k1 = set_skb_mark H TPROXY_MARK k;
                       k2 = snd (bpf_skb_change_type H PACKET_HOST k1)
                   in (TC_ACT_OK,
                       if is_new_tcp info \<or> p_l4proto info = IPPROTO_UDP
                       then assign_listener H (ucast (p_l4proto info)) (ucast (p_is_ipv4 info)) k2
                       else k2))"

text \<open>Putting back the link header of the original device.\<close>

definition restore_link :: "('k, 'a) kernel_scheme \<Rightarrow> BpfRedirectEntry \<Rightarrow> u16 \<Rightarrow> 'k \<Rightarrow> bool \<times> 'k" where
  "restore_link H entry l3_protocol k =
     (if redirect_entry_requires_l2_restore entry
      then case restore H entry l3_protocol k of
             (False, k1) \<Rightarrow> (False, k1)
           | (True, k1) \<Rightarrow>
               (case store_counted H METRIC_REDIRECT_RESTORE_STORE_FAILURE ETH_SRC_OFFSET (re_dmac entry) k1 of
                  (False, k2) \<Rightarrow> (False, k2)
                | (True, k2) \<Rightarrow>
                    store_counted H METRIC_REDIRECT_RESTORE_STORE_FAILURE ETH_DST_OFFSET (re_smac entry) k2)
      else (redirect_entry_uses_l3_no_mac_redirect entry, k))"

definition dae0_ingress :: "('k, 'a) kernel_scheme \<Rightarrow> BpfDaeParam \<Rightarrow> 'k \<Rightarrow> i32 \<times> 'k" where
  "dae0_ingress H P k =
     (case parse_skb H ETH_HLEN k of
        (ret, info) \<Rightarrow>
          if ret \<noteq> 0 then (TC_ACT_OK, k)
          else case redirect_track_lookup H (from_return_tuple P (build_tuples info)) k of
            None \<Rightarrow> (TC_ACT_OK, increment_tproxy_metric H METRIC_REDIRECT_RETURN_LOOKUP_MISS k)
          | Some entry \<Rightarrow>
              if re_abi_version entry \<noteq> REDIRECT_TRACK_ABI_VERSION
              then (TC_ACT_OK, increment_tproxy_metric H METRIC_REDIRECT_RETURN_ABI_MISMATCH k)
              else case restore_link H entry (ucast (h_proto info)) k of
                (False, k1) \<Rightarrow> (TC_ACT_SHOT, k1)
              | (True, k1) \<Rightarrow>
                  let k2 = snd (bpf_skb_change_type H
                             (if re_from_wan entry \<noteq> 0 then PACKET_HOST else PACKET_OTHERHOST) k1)
                  in case bpf_redirect H (re_ifindex entry) (if re_from_wan entry \<noteq> 0 then BPF_F_INGRESS else 0) k2 of
                       (r, k3) \<Rightarrow> (ucast r, k3))"

section \<open>The programs on the physical interfaces\<close>

definition refresh_or_drop :: "('k, 'a) kernel_scheme \<Rightarrow> BpfDaeParam \<Rightarrow> ParsedPacket \<Rightarrow> 'k \<Rightarrow> i32 \<times> 'k" where
  "refresh_or_drop H P info k =
     (if p_l4proto info = IPPROTO_UDP
      then case refresh_reversed_udp_state H P info True k of
             (refreshed, k1) \<Rightarrow> (if refreshed then chain_next else udp_state_unavailable_action P, k1)
      else (chain_next, k))"

definition lan_egress :: "('k, 'a) kernel_scheme \<Rightarrow> BpfDaeParam \<Rightarrow> u32 \<Rightarrow> 'k \<Rightarrow> i32 \<times> 'k" where
  "lan_egress H P link_h_len k =
     (case parse_skb H link_h_len k of
        (ret, info) \<Rightarrow>
          if ret \<noteq> 0 then (chain_next, k)
          else if skb_ingress_ifindex H k = NOWHERE_IFINDEX \<and> p_l4proto info = IPPROTO_ICMPV6 \<and>
                  icmp6_type info = NDP_REDIRECT
          then (TC_ACT_SHOT, k)
          else refresh_or_drop H P info k)"

definition wan_ingress :: "('k, 'a) kernel_scheme \<Rightarrow> BpfDaeParam \<Rightarrow> u32 \<Rightarrow> 'k \<Rightarrow> i32 \<times> 'k" where
  "wan_ingress H P link_h_len k =
     (case parse_skb H link_h_len k of
        (ret, info) \<Rightarrow>
          if ret \<noteq> 0 then (chain_next, k)
          else if protected_wan_destination (p_l4proto info) (p_dport info) (param_tproxy_port_protect P)
                    (param_tproxy_port P)
          then (TC_ACT_SHOT, k)
          else refresh_or_drop H P info k)"

text \<open>The action that ends the program for a UDP packet, if its conversation already decides.\<close>

definition udp_gate ::
    "('k, 'a) kernel_scheme \<Rightarrow> BpfDaeParam \<Rightarrow> ParsedPacket \<Rightarrow> BpfTuplesKey \<Rightarrow> 'k \<Rightarrow> i32 option \<times> 'k" where
  "udp_gate H P info key k =
     (if p_l4proto info = IPPROTO_UDP
      then case refresh_udp_conn_state H P key False k of
             (None, k1) \<Rightarrow> (Some (udp_state_unavailable_action P), k1)
           | (Some state, k1) \<Rightarrow>
               (if uc_is_wan_ingress_direction state \<noteq> 0 then Some chain_next else None, k1)
      else (None, k))"

text \<open>The parts of a routing result; bits 8 to 40 are those of the arithmetic shift.\<close>

definition result_outbound :: "i64 \<Rightarrow> u8" where
  "result_outbound r = ucast (r AND 0xff)"

definition result_mark :: "i64 \<Rightarrow> u32" where
  "result_mark r = ucast (drop_bit 8 r)"

definition result_must :: "i64 \<Rightarrow> bool" where
  "result_must r \<longleftrightarrow> drop_bit 40 r AND 1 \<noteq> 0"

text \<open>What is left once neither direct nor already decided: drop, or hand over to the daemon.\<close>

definition proxy_or_drop ::
    "('k, 'a) kernel_scheme \<Rightarrow> BpfDaeParam \<Rightarrow> u32 \<Rightarrow> ParsedPacket \<Rightarrow> BpfTuplesKey \<Rightarrow> bool \<Rightarrow> u8 \<Rightarrow> 'k \<Rightarrow> i32 \<times> 'k" where
  "proxy_or_drop H P link_h_len info key from_wan outbound k =
     (if outbound = BLOCK then (TC_ACT_SHOT, k)
      else if \<not> outbound_alive H info outbound k \<and> \<not> is_dns_udp info then (TC_ACT_SHOT, k)
      else redirect_to_control_plane H P link_h_len info key from_wan k)"

text \<open>A TCP segment of a connection that is not being opened.\<close>

definition lan_established ::
    "('k, 'a) kernel_scheme \<Rightarrow> BpfDaeParam \<Rightarrow> u32 \<Rightarrow> ParsedPacket \<Rightarrow> BpfTuplesKey \<Rightarrow> 'k \<Rightarrow> i32 \<times> 'k" where
  "lan_established H P link_h_len info key k =
     (case current_dae_netns_tcp_state H P info k of
        (state, k1) \<Rightarrow>
          if state \<noteq> None \<and> state \<noteq> Some BPF_TCP_LISTEN
          then redirect_to_control_plane H P link_h_len info key False k1
          else case routing_tuples_lookup H key k1 of
                 None \<Rightarrow> (chain_next, k1)
               | Some result \<Rightarrow> (chain_next, set_skb_mark H (rr_mark result) k1))"

definition lan_route ::
    "('k, 'a) kernel_scheme \<Rightarrow> BpfDaeParam \<Rightarrow> u32 \<Rightarrow> ParsedPacket \<Rightarrow> BpfTuplesKey \<Rightarrow> 'k \<Rightarrow> i32 \<times> 'k" where
  "lan_route H P link_h_len info key k =
     (let route_result = route (bpf_loop H) (route_maps_of H k) (route_params_from_packet info False None);
          outbound = result_outbound route_result;
          mark = result_mark route_result
      in if sint route_result < 0 then (TC_ACT_SHOT, k)
         else case save_routing_result H key info outbound mark (result_must route_result) None k of
                (False, k1) \<Rightarrow> (TC_ACT_SHOT, k1)
              | (True, k1) \<Rightarrow>
                  if outbound = DIRECT then (chain_next, set_skb_mark H mark k1)
                  else proxy_or_drop H P link_h_len info key False outbound k1)"

definition lan_ingress :: "('k, 'a) kernel_scheme \<Rightarrow> BpfDaeParam \<Rightarrow> u32 \<Rightarrow> 'k \<Rightarrow> i32 \<times> 'k" where
  "lan_ingress H P link_h_len k =
     (case parse_skb H link_h_len k of
        (ret, info) \<Rightarrow>
          if ret \<noteq> 0 \<or> p_l4proto info = IPPROTO_ICMPV6 then (chain_next, k)
          else let key = build_tuples info
               in if p_l4proto info = IPPROTO_TCP \<and> \<not> is_new_tcp info
                  then lan_established H P link_h_len info key k
                  else case udp_gate H P info key k of
                         (Some action, k1) \<Rightarrow> (action, k1)
                       | (None, k1) \<Rightarrow> lan_route H P link_h_len info key k1)"

text \<open>
  The outbound and the mark of a packet that leaves through the WAN: those of the connection, or
  freshly routed and remembered; otherwise the action that ends the program.
\<close>

definition wan_decision ::
    "('k, 'a) kernel_scheme \<Rightarrow> BpfDaeParam \<Rightarrow> ParsedPacket \<Rightarrow> BpfTuplesKey \<Rightarrow> BpfPidPname option \<Rightarrow> 'k \<Rightarrow>
     (i32, u8 \<times> u32) result \<times> 'k" where
  "wan_decision H P info key pid_pname k =
     (if p_l4proto info = IPPROTO_TCP \<and> \<not> is_new_tcp info
      then case routing_tuples_lookup H key k of
             None \<Rightarrow> (Inl chain_next, k)
           | Some result \<Rightarrow> (Inr (rr_outbound result, rr_mark result), k)
      else case udp_gate H P info key k of
             (Some action, k1) \<Rightarrow> (Inl action, k1)
           | (None, k1) \<Rightarrow>
               let route_result = route (bpf_loop H) (route_maps_of H k1) (route_params_from_packet info True pid_pname);
                   outbound = result_outbound route_result;
                   mark = result_mark route_result;
                   must = result_must route_result
               in if sint route_result < 0 then (Inl TC_ACT_SHOT, k1)
                  else if outbound \<noteq> DIRECT \<or> mark \<noteq> 0 \<or> must
                  then case save_routing_result H key info outbound mark must pid_pname k1 of
                         (False, k2) \<Rightarrow> (Inl TC_ACT_SHOT, k2)
                       | (True, k2) \<Rightarrow> (Inr (outbound, mark), k2)
                  else (Inr (outbound, mark), k1))"

definition wan_egress :: "('k, 'a) kernel_scheme \<Rightarrow> BpfDaeParam \<Rightarrow> u32 \<Rightarrow> 'k \<Rightarrow> i32 \<times> 'k" where
  "wan_egress H P link_h_len k =
     (if skb_ingress_ifindex H k \<noteq> NOWHERE_IFINDEX then (chain_next, k)
      else case parse_skb H link_h_len k of
        (ret, info) \<Rightarrow>
          if ret \<noteq> 0 \<or> p_l4proto info = IPPROTO_ICMPV6 then (chain_next, k)
          else let key = build_tuples info;
                   pid_pname = pid_pname_for_packet H k
               in if pid_is_control_plane P (skb_mark H k) pid_pname
                  then (physical_wan_control_plane_passthrough_action, k)
                  else case wan_decision H P info key pid_pname k of
                    (Inl action, k1) \<Rightarrow> (action, k1)
                  | (Inr (outbound, mark), k1) \<Rightarrow>
                      if outbound = DIRECT \<and> mark = 0 then (chain_next, set_skb_mark H mark k1)
                      else proxy_or_drop H P link_h_len info key True outbound k1)"

section \<open>Following the rules\<close>

text \<open>Documented results of the redirect helper: redirect on success, drop on error.\<close>

definition redirect_ok :: "('k, 'a) kernel_scheme \<Rightarrow> bool" where
  "redirect_ok H \<longleftrightarrow> (\<forall>ifindex flags k. fst (bpf_redirect H ifindex flags k) \<in> {7, 2})"

lemmas action_defs = chain_next_def TCX_NEXT_def TC_ACT_UNSPEC_def TC_ACT_OK_def TC_ACT_SHOT_def

lemma redirect_actions:
  assumes "redirect_ok H"
  shows "fst (redirect_to_control_plane H P link_h_len info key from_wan k) \<in> {7, TC_ACT_SHOT}"
proof -
  have "ucast (fst (bpf_redirect H i f k)) \<in> {7, 2 :: i32}" for i f k
    using assms by (auto simp: redirect_ok_def dest!: spec [of _ i] spec [of _ f] spec [of _ k])
  then show ?thesis
    by (auto simp: redirect_to_control_plane_def TC_ACT_SHOT_def split: prod.splits bool.splits) (metis fst_conv)
qed

lemma proxy_or_drop_actions:
  "redirect_ok H \<Longrightarrow> fst (proxy_or_drop H P link_h_len info key from_wan outbound k) \<in> {7, TC_ACT_SHOT}"
  using redirect_actions [of H] by (auto simp: proxy_or_drop_def)

lemma chain_next_distinct: "chain_next \<noteq> 7" "chain_next \<noteq> TC_ACT_SHOT" "TC_ACT_SHOT \<noteq> 7"
  by (simp_all add: action_defs)

lemma result_fields [simp]:
  "result_outbound (encode_outcome d) = outcome_outbound d" "result_mark (encode_outcome d) = outcome_mark d"
  "result_must (encode_outcome d) = outcome_must d" "0 \<le> sint (encode_outcome d)"
proof -
  have "ucast (r AND 0xff) = (ucast r :: u8)" for r :: i64
  proof -
    have "r AND 0xff = take_bit 8 r" by (simp add: take_bit_eq_mask mask_eq_exp_minus_1)
    then show ?thesis by (simp only:) (rule bit_word_eqI, simp add: bit_simps)
  qed
  then show "result_outbound (encode_outcome d) = outcome_outbound d"
    by (simp add: result_outbound_def encode_outcome_def route_result_fields)
  show "result_must (encode_outcome d) = outcome_must d"
    using route_result_fields(4) [of "outcome_outbound d" "outcome_mark d" "outcome_must d"]
    by (simp add: result_must_def encode_outcome_def bit_iff_odd_drop_bit and_one_eq odd_iff_mod_2_eq_one)
qed (simp_all add: result_mark_def encode_outcome_def route_result_fields)


text \<open>The route of a packet, in the state its conversation check leaves.\<close>

lemma lan_route_actions:
  assumes "redirect_ok H" and r: "route (bpf_loop H) (route_maps_of H k) (route_params_from_packet info False None) = encode_outcome d"
  shows "fst (lan_route H P link_h_len info key k) \<in> {7, TC_ACT_SHOT, chain_next}"
    "fst (lan_route H P link_h_len info key k) = chain_next \<Longrightarrow> outcome_outbound d = DIRECT"
    "outcome_outbound d = BLOCK \<Longrightarrow> fst (lan_route H P link_h_len info key k) = TC_ACT_SHOT"
proof -
  have nn: "\<not> sint (encode_outcome d) < 0" by (simp add: not_less)
  have ne: "DIRECT \<noteq> BLOCK" by (simp add: outbound_consts)
  note p = proxy_or_drop_actions [OF assms(1), of P link_h_len info key False "outcome_outbound d"]
  have q: "fst (proxy_or_drop H P link_h_len info key False (outcome_outbound d) k) \<noteq> chain_next" for k
    using p [of k] chain_next_distinct by auto
  show "fst (lan_route H P link_h_len info key k) \<in> {7, TC_ACT_SHOT, chain_next}"
    using p by (auto simp: lan_route_def r nn Let_def split: prod.splits bool.splits)
  show "fst (lan_route H P link_h_len info key k) = chain_next \<Longrightarrow> outcome_outbound d = DIRECT"
    using q chain_next_distinct by (auto simp: lan_route_def r nn Let_def split: prod.splits bool.splits if_splits)
  show "outcome_outbound d = BLOCK \<Longrightarrow> fst (lan_route H P link_h_len info key k) = TC_ACT_SHOT"
    using ne by (auto simp: lan_route_def r nn Let_def proxy_or_drop_def split: prod.splits bool.splits)
qed

lemma udp_gate_action:
  "fst (udp_gate H P info key k) = Some a \<Longrightarrow>
     p_l4proto info = IPPROTO_UDP \<and>
     (case fst (refresh_udp_conn_state H P key False k) of
        None \<Rightarrow> a = TC_ACT_SHOT
      | Some state \<Rightarrow> a = chain_next \<and> uc_is_wan_ingress_direction state \<noteq> 0)"
  by (auto simp: udp_gate_def udp_state_unavailable_action_def udp_state_unavailable_action_for_policy_def
      split: prod.splits option.splits if_splits)

lemma lan_ingress_opening:
  assumes "parse_skb H link_h_len k = (0, info)" "is_new_tcp info \<or> p_l4proto info = IPPROTO_UDP"
  shows "lan_ingress H P link_h_len k =
    (case udp_gate H P info (build_tuples info) k of
       (Some action, k1) \<Rightarrow> (action, k1)
     | (None, k1) \<Rightarrow> lan_route H P link_h_len info (build_tuples info) k1)"
proof -
  have "p_l4proto info \<noteq> IPPROTO_ICMPV6" "\<not> (p_l4proto info = IPPROTO_TCP \<and> \<not> is_new_tcp info)"
    using assms(2) by (auto simp: is_new_tcp_def IPPROTO_TCP_def IPPROTO_UDP_def IPPROTO_ICMPV6_def)
  then show ?thesis using assms(1) by (auto simp: lan_ingress_def Let_def)
qed

text \<open>
  C3. Traffic from the LAN does not bypass the proxy.  A packet that opens a TCP connection or belongs to a
  UDP conversation is passed on only if the routing rules decide \<^verbatim>\<open>direct\<close> for it, or if the
  conversation was opened from the WAN side; a packet the rules block is dropped; every other
  one is dropped or handed to the daemon, whatever the helpers refuse.
\<close>

theorem lan_ingress_follows_rules:
  fixes H :: "('k, 'a) kernel_scheme"
  assumes "bpf_loop_ok (bpf_loop H)" "redirect_ok H"
    and "parse_skb H link_h_len k = (0, info)" "is_new_tcp info \<or> p_l4proto info = IPPROTO_UDP"
    and "udp_gate H P info (build_tuples info) k = (gate, k1)"
    and "params = route_params_from_packet info False None"
    and "rules_decide (route_maps_of H k1) params ms d"
    and "lan_ingress H P link_h_len k = (action, k')"
  shows "action \<in> {7, TC_ACT_SHOT, chain_next} \<and>
    (action = chain_next \<longrightarrow>
       outcome_outbound (kernel_outcome params d) = DIRECT \<or>
       (p_l4proto info = IPPROTO_UDP \<and>
        (\<exists>state. fst (refresh_udp_conn_state H P (build_tuples info) False k) = Some state \<and>
           uc_is_wan_ingress_direction state \<noteq> 0))) \<and>
    (gate = None \<and> outcome_outbound (kernel_outcome params d) = BLOCK \<longrightarrow> action = TC_ACT_SHOT)"
proof -
  have r: "route (bpf_loop H) (route_maps_of H k1) (route_params_from_packet info False None) =
      encode_outcome (kernel_outcome params d)"
    using route_decides [OF assms(1,7)] by (simp add: assms(6))
  note l = lan_route_actions [OF assms(2) r, of P link_h_len "build_tuples info"]
  show ?thesis
  proof (cases gate)
    case None
    then have "lan_route H P link_h_len info (build_tuples info) k1 = (action, k')"
      using lan_ingress_opening [OF assms(3,4), of P] assms(5,8) by simp
    then show ?thesis using l by simp
  next
    case (Some a)
    then have "action = a" using lan_ingress_opening [OF assms(3,4), of P] assms(5,8) by simp
    then show ?thesis
      using udp_gate_action [of H P info "build_tuples info" k a] assms(5) Some chain_next_distinct
      by (auto split: option.splits)
  qed
qed

lemma wan_route_decision:
  assumes r: "route (bpf_loop H) (route_maps_of H k1) (route_params_from_packet info True pid_pname) = encode_outcome d"
    and "udp_gate H P info key k = (None, k1)" "is_new_tcp info \<or> p_l4proto info = IPPROTO_UDP"
  shows "fst (wan_decision H P info key pid_pname k) \<in> {Inl TC_ACT_SHOT, Inr (outcome_outbound d, outcome_mark d)}"
proof -
  have nn: "\<not> sint (encode_outcome d) < 0" by (simp add: not_less)
  have "\<not> (p_l4proto info = IPPROTO_TCP \<and> \<not> is_new_tcp info)"
    using assms(3) by (auto simp: is_new_tcp_def IPPROTO_TCP_def IPPROTO_UDP_def)
  then show ?thesis
    using assms(2) by (auto simp: wan_decision_def r nn Let_def split: prod.splits bool.splits)
qed



section \<open>The way back\<close>

text \<open>
  Documented behaviour the redirect table relies on: a successful update is found by a lookup, and
  editing the packet does not change the interface it was received on.
\<close>

locale track_helpers =
  fixes H :: "('k, 'a) kernel_scheme"
  assumes track_update:
      "redirect_track_update H key entry BPF_ANY k = (r, k') \<Longrightarrow> r = 0 \<Longrightarrow> redirect_track_lookup H key k' = Some entry"
    and ifindex:
      "skb_ifindex H (snd (bpf_skb_store_bytes H offset bs k)) = skb_ifindex H k"
      "skb_ifindex H (snd (bpf_skb_change_head H n k)) = skb_ifindex H k"
      "skb_ifindex H (snd (bpf_skb_vlan_pop H k)) = skb_ifindex H k"
begin

lemma store_counted_ifindex: "store_counted H metric offset bs k = (True, k') \<Longrightarrow> skb_ifindex H k' = skb_ifindex H k"
  using ifindex(1) [of offset bs k] by (auto simp: store_counted_def split: prod.splits if_splits)

lemma prep_link_header_ifindex: "prep_link_header H len info k = (True, k') \<Longrightarrow> skb_ifindex H k' = skb_ifindex H k"
  using ifindex(2) [of ETH_HLEN k]
  by (auto simp: prep_link_header_def dest: store_counted_ifindex split: prod.splits if_splits)

lemma strip_ifindex:
  assumes "strip H info k = (True, k')"
  shows "skb_ifindex H k' = skb_ifindex H k"
proof -
  have "skb_ifindex H k2 = skb_ifindex H k1" if "bpf_skb_vlan_pop H k1 = (r, k2)" for r k1 k2
    using ifindex(3) [of k1] that by simp
  then show ?thesis using assms
    by (auto simp: strip_def Let_def split: prod.splits if_splits bool.splits)
qed

lemma prep_redirect_entry:
  assumes "prep_redirect_to_control_plane H P len info key from_wan k = (True, k')"
  obtains entry where "redirect_track_lookup H (from_forward_tuple P key) k' = Some entry"
    "capture info (redirect_entry_for info (skb_ifindex H k) len from_wan) = Some entry"
proof -
  from assms obtain k1 k2 k3 entry r where
    1: "prep_link_header H len info k = (True, k1)" and 2: "strip H info k1 = (True, k2)"
    and 3: "store_counted H METRIC_REDIRECT_PREP_STORE_FAILURE ETH_DST_OFFSET (dae0peer_mac P) k2 = (True, k3)"
    and c: "capture info (redirect_entry_for info (skb_ifindex H k3) len from_wan) = Some entry"
    and u: "redirect_track_update H (from_forward_tuple P key) entry BPF_ANY k3 = (r, k')" "r = 0"
    by (auto simp: prep_redirect_to_control_plane_def split: prod.splits bool.splits option.splits if_splits)
  have "skb_ifindex H k3 = skb_ifindex H k"
    using prep_link_header_ifindex [OF 1] strip_ifindex [OF 2] store_counted_ifindex [OF 3] by simp
  with that c track_update [OF u] show ?thesis by simp
qed

end

locale tproxy_helpers = skb_helpers H frame + track_helpers H
  for H :: "('k, 'a) kernel_scheme" and frame :: "'k \<Rightarrow> bytes"
begin

lemma store_counted_bytes:
  "store_counted H metric offset bs k = (True, k') \<Longrightarrow>
     frame k' = take (unat offset) (frame k) @ bs @ drop (unat offset + length bs) (frame k)"
  using store by (auto simp: store_counted_def split: prod.splits if_splits)

lemma restore_link_frame:
  assumes "capture info (redirect_entry_for info ifindex len from_wan) = Some entry" "len \<noteq> 0" "link_ok info"
    and "frame k = eth_frame dst src [] (swap16 l3_protocol) payload" "length dst = 6" "length src = 6"
    and "restore_link H entry l3_protocol k = (True, k')"
  shows "frame k' = eth_frame (eth_src info) (eth_dst info) (vlan_tags_of info) (swap16 l3_protocol) payload"
proof -
  have e: "re_smac entry = eth_src info" "re_dmac entry = eth_dst info" "re_link_layer entry = REDIRECT_LINK_LAYER_L2"
    using assms(1,2)
    by (auto simp: capture_def redirect_entry_for_def redirect_link_layer_for_header_len_def split: if_splits)
  obtain k1 k2 where 1: "restore H entry l3_protocol k = (True, k1)"
    and 2: "store_counted H METRIC_REDIRECT_RESTORE_STORE_FAILURE ETH_SRC_OFFSET (eth_dst info) k1 = (True, k2)"
    and 3: "store_counted H METRIC_REDIRECT_RESTORE_STORE_FAILURE ETH_DST_OFFSET (eth_src info) k2 = (True, k')"
    using assms(7) e
    by (auto simp: restore_link_def redirect_entry_requires_l2_restore_def split: prod.splits bool.splits)
  have f1: "frame k1 = eth_frame dst src (vlan_tags_of info) (swap16 l3_protocol) payload"
    by (rule restore_frame [OF skb_helpers_axioms assms(3,1,4-6) 1])
  have "length (eth_src info) = 6" "length (eth_dst info) = 6" using assms(3) by (simp_all add: link_ok_def)
  then show ?thesis
    using store_counted_bytes [OF 2] store_counted_bytes [OF 3] f1 assms(5,6)
    by (simp add: eth_frame_def ETH_SRC_OFFSET_def ETH_DST_OFFSET_def)
qed

lemma dae0_ingress_reply:
  assumes prep: "prep_redirect_to_control_plane H P len info key from_wan k = (True, k1)" and info: "link_ok info"
    and same: "redirect_track_lookup H (from_forward_tuple P key) k2 = redirect_track_lookup H (from_forward_tuple P key) k1"
    and reply: "parse_skb H ETH_HLEN k2 = (0, reply)" "build_tuples reply = reverse_tuples key"
    and f: "frame k2 = eth_frame dst src [] (swap16 (ucast (h_proto reply))) payload" "length dst = 6" "length src = 6"
    and run: "dae0_ingress H P k2 = (action, k')"
  shows "action = TC_ACT_SHOT \<or>
    (\<exists>k3 r.
       frame k3 = (if len = 0 then frame k2
                   else eth_frame (eth_src info) (eth_dst info) (vlan_tags_of info)
                          (swap16 (ucast (h_proto reply))) payload) \<and>
       bpf_redirect H (skb_ifindex H k) (if from_wan then BPF_F_INGRESS else 0)
         (snd (bpf_skb_change_type H (if from_wan then PACKET_HOST else PACKET_OTHERHOST) k3)) = (r, k') \<and>
       action = ucast r)"
proof -
  obtain entry where l: "redirect_track_lookup H (from_forward_tuple P key) k1 = Some entry"
    and c: "capture info (redirect_entry_for info (skb_ifindex H k) len from_wan) = Some entry"
    using prep_redirect_entry [OF prep] by blast
  have e: "re_abi_version entry = REDIRECT_TRACK_ABI_VERSION" "re_ifindex entry = skb_ifindex H k"
    "re_from_wan entry \<noteq> 0 \<longleftrightarrow> from_wan" "re_link_layer entry = redirect_link_layer_for_header_len len"
    using c by (auto simp: capture_def redirect_entry_for_def split: if_splits)
  have key: "from_return_tuple P (build_tuples reply) = from_forward_tuple P key"
    by (simp add: from_return_tuple_def reply(2))
  obtain ok k3 where rl: "restore_link H entry (ucast (h_proto reply)) k2 = (ok, k3)" by fastforce
  show ?thesis
  proof (cases ok)
    case False
    then show ?thesis using run reply(1) key same l e(1) rl by (simp add: dae0_ingress_def)
  next
    case True
    have "frame k3 = (if len = 0 then frame k2 else eth_frame (eth_src info) (eth_dst info) (vlan_tags_of info)
        (swap16 (ucast (h_proto reply))) payload)"
    proof (cases "len = 0")
      case l3: True
      then show ?thesis using rl True e(4)
        by (simp add: restore_link_def redirect_entry_requires_l2_restore_def redirect_link_layer_for_header_len_def
            REDIRECT_LINK_LAYER_L2_def REDIRECT_LINK_LAYER_L3_def)
    next
      case l2: False
      then show ?thesis using restore_link_frame [OF c l2 info f] rl True by simp
    qed
    then show ?thesis
      using run reply(1) key same l e rl True
      by (cases from_wan)
        (rule disjI2, rule exI [of _ k3], simp add: dae0_ingress_def Let_def split: prod.splits)+
  qed
qed

end

section \<open>An instance of the kernel\<close>

text \<open>Tables without bound, no sockets, every outbound alive, and all packet edits carried out.\<close>

record world = skb_table +
  w_fields :: skb_meta
  w_ifindex :: u32
  w_ingress_ifindex :: u32
  w_mark :: u32
  w_redirects :: "(BpfRedirectKey \<times> BpfRedirectEntry) list"
  w_results :: "(BpfTuplesKey \<times> BpfRoutingResult) list"
  w_maps :: route_maps

definition ref_tproxy_kernel :: "nat \<Rightarrow> world kernel" where
  "ref_tproxy_kernel cap =
     skb_kernel.extend (ref_skb_kernel cap)
       (kernel.fields (load_ref \<circ> st_frame) w_fields w_ifindex w_ingress_ifindex w_mark
         (\<lambda>m k. k\<lparr>w_mark := m\<rparr>) (\<lambda>_ k. (0, k)) (\<lambda>_ _ k. (7, k)) (\<lambda>_ _. None) (\<lambda>_ _ k. k)
         (\<lambda>_ k. (None, k)) (\<lambda>_ k. (0, k)) (\<lambda>_ k. (0, k)) (\<lambda>_ _ _ k. (None, k)) (\<lambda>_ _. 0)
         (\<lambda>key k. map_of (w_redirects k) key) (\<lambda>key e _ k. (0, k\<lparr>w_redirects := (key, e) # w_redirects k\<rparr>))
         (\<lambda>key k. map_of (w_results k) key) (\<lambda>key e _ k. (0, k\<lparr>w_results := (key, e) # w_results k\<rparr>))
         (\<lambda>_ _. None) (\<lambda>_. 0) (\<lambda>_ _. None) w_maps bpf_loop_ref)"

lemma ref_tproxy_kernel_simps [simp]:
  "udp_conn_state_lookup (ref_tproxy_kernel cap) = udp_conn_state_lookup (ref_kernel cap)"
  "udp_conn_state_update (ref_tproxy_kernel cap) = udp_conn_state_update (ref_kernel cap)"
  "udp_conn_state_delete (ref_tproxy_kernel cap) = udp_conn_state_delete (ref_kernel cap)"
  "udp_state_metrics_lookup (ref_tproxy_kernel cap) = udp_state_metrics_lookup (ref_kernel cap)"
  "udp_state_metrics_write (ref_tproxy_kernel cap) = udp_state_metrics_write (ref_kernel cap)"
  "bpf_timer_init (ref_tproxy_kernel cap) = bpf_timer_init (ref_kernel cap)"
  "bpf_timer_set_callback (ref_tproxy_kernel cap) = bpf_timer_set_callback (ref_kernel cap)"
  "bpf_timer_start (ref_tproxy_kernel cap) = bpf_timer_start (ref_kernel cap)"
  "bpf_skb_store_bytes (ref_tproxy_kernel cap) = frame_store"
  "bpf_skb_vlan_pop (ref_tproxy_kernel cap) = frame_vlan_pop"
  "bpf_skb_adjust_room (ref_tproxy_kernel cap) = frame_adjust_room"
  "bpf_skb_change_head (ref_tproxy_kernel cap) = frame_change_head"
  "skb_load_bytes (ref_tproxy_kernel cap) = load_ref \<circ> st_frame"
  "skb_fields (ref_tproxy_kernel cap) = w_fields"
  "skb_ifindex (ref_tproxy_kernel cap) = w_ifindex"
  "skb_ingress_ifindex (ref_tproxy_kernel cap) = w_ingress_ifindex"
  "skb_mark (ref_tproxy_kernel cap) = w_mark"
  "bpf_redirect (ref_tproxy_kernel cap) = (\<lambda>_ _ k. (7, k))"
  "redirect_track_lookup (ref_tproxy_kernel cap) = (\<lambda>key k. map_of (w_redirects k) key)"
  "redirect_track_update (ref_tproxy_kernel cap) = (\<lambda>key e _ k. (0, k\<lparr>w_redirects := (key, e) # w_redirects k\<rparr>))"
  "cookie_pid_lookup (ref_tproxy_kernel cap) = (\<lambda>_ _. None)"
  "route_maps_of (ref_tproxy_kernel cap) = w_maps"
  "bpf_loop (ref_tproxy_kernel cap) = bpf_loop_ref"
  by (simp_all add: ref_tproxy_kernel_def ref_skb_kernel_def udp_kernel.defs skb_kernel.defs kernel.defs)

interpretation world: tproxy_helpers "ref_tproxy_kernel cap" st_frame for cap
  by unfold_locales
    (auto simp: frame_store_def frame_adjust_room_def frame_change_head_def frame_vlan_pop_def split: if_splits)

lemma ref_redirect_ok: "redirect_ok (ref_tproxy_kernel cap)"
  by (simp add: redirect_ok_def)

lemma ref_loop_ok: "bpf_loop_ok bpf_loop_ref"
  by (simp add: bpf_loop_ok_def)

text \<open>
  C4. A reply finds the way back.  After a packet was handed to the daemon, the daemon's answer to this flow
  that arrives on the virtual interface is sent out through the interface the packet came in on,
  in the direction it came from, with the MAC addresses swapped and the VLAN tags of the original
  frame restored; if any edit is refused, it is dropped.
\<close>

theorem reply_returns_to_origin:
  assumes "tproxy_helpers H frame"
    and "prep_redirect_to_control_plane H P len info key from_wan k = (True, k1)" "link_ok info"
    and "redirect_track_lookup H (from_forward_tuple P key) k2 = redirect_track_lookup H (from_forward_tuple P key) k1"
    and "parse_skb H ETH_HLEN k2 = (0, reply)" "build_tuples reply = reverse_tuples key"
    and "frame k2 = eth_frame dst src [] (swap16 (ucast (h_proto reply))) payload" "length dst = 6" "length src = 6"
    and "dae0_ingress H P k2 = (action, k')"
  shows "action = TC_ACT_SHOT \<or>
    (\<exists>k3 r.
       frame k3 = (if len = 0 then frame k2
                   else eth_frame (eth_src info) (eth_dst info) (vlan_tags_of info)
                          (swap16 (ucast (h_proto reply))) payload) \<and>
       bpf_redirect H (skb_ifindex H k) (if from_wan then BPF_F_INGRESS else 0)
         (snd (bpf_skb_change_type H (if from_wan then PACKET_HOST else PACKET_OTHERHOST) k3)) = (r, k') \<and>
       action = ucast r)"
  by (rule tproxy_helpers.dae0_ingress_reply [OF assms])

definition sample_rule :: BpfMatchSet where
  "sample_rule = \<lparr>match_value = replicate 16 0, match_not = 0, match_kind = MATCH_TYPE_FALLBACK, match_outbound = BLOCK,
     match_must = 1, match_mark = 0\<rparr>"

definition sample_world :: "bytes \<Rightarrow> world" where
  "sample_world frame =
     \<lparr>ut_entries = [], ut_metrics = ut_metrics sample_table, st_frame = frame, w_fields = sample_skb,
      w_ifindex = 3, w_ingress_ifindex = 0, w_mark = 0, w_redirects = [], w_results = [],
      w_maps = \<lparr>routing_map = (\<lambda>i. if i = 0 then Some sample_rule else None), lpm_array_map = (\<lambda>_. None),
                domain_routing_map = (\<lambda>_. None)\<rparr>\<rparr>"

lemma sample_rules_decide:
  "rules_decide (w_maps (sample_world frame)) params [sample_rule]
     \<lparr>outcome_outbound = BLOCK, outcome_mark = 0, outcome_must = True\<rparr>"
proof -
  have "kernel_holds (w_maps (sample_world frame)) params 0 sample_rule = Some True"
    by (simp add: kernel_holds_def sample_rule_def match_type_consts)
  then show ?thesis
    by (simp add: rules_decide_def kernel_clause_def rules_of_def ends_rule_def rule_holds_from rule_outcome_def
        sample_world_def) (simp add: sample_rule_def outbound_consts)
qed

lemma sample_gate:
  assumes "p_l4proto info = IPPROTO_UDP"
  obtains e m where "udp_gate (ref_tproxy_kernel 1) P info key (sample_world frame) =
    (None, (sample_world frame)\<lparr>ut_entries := e, ut_metrics := m\<rparr>)"
proof -
  have "\<exists>e m. udp_gate (ref_tproxy_kernel 1) P info key (sample_world frame) =
      (None, (sample_world frame)\<lparr>ut_entries := e, ut_metrics := m\<rparr>)"
    using assms
    by (simp add: udp_gate_def refresh_udp_conn_state_def arm_new_state_def increment_udp_state_metric_def
        bump_udp_state_metric_def ref_kernel_def table_insert_def table_set_timer_def table_lookup_def sample_world_def
        BpfUdpConnState_new_def Let_def)
  with that show ?thesis by blast
qed

theorem lan_ingress_follows_rules_witness:
  "fst (lan_ingress (ref_tproxy_kernel 1) BpfDaeParam_zeroed ETH_HLEN (sample_world sample_frame)) = TC_ACT_SHOT"
proof -
  let ?H = "ref_tproxy_kernel 1" and ?w = "sample_world sample_frame" and ?P = BpfDaeParam_zeroed
  obtain info where p: "parse_transport sample_skb (load_ref sample_frame) ETH_HLEN = (0, info)" "packet_ok info"
    and udp: "p_l4proto info = IPPROTO_UDP"
    by (rule sample_parses)
  then have parse: "parse_skb ?H ETH_HLEN ?w = (0, info)" by (simp add: parse_skb_def sample_world_def)
  obtain e m where gate: "udp_gate ?H ?P info (build_tuples info) ?w = (None, ?w\<lparr>ut_entries := e, ut_metrics := m\<rparr>)"
    by (rule sample_gate [OF udp])
  obtain a k' where run: "lan_ingress ?H ?P ETH_HLEN ?w = (a, k')" by fastforce
  have "w_maps (?w\<lparr>ut_entries := e, ut_metrics := m\<rparr>) = w_maps ?w" by (simp add: sample_world_def)
  then have d: "rules_decide (route_maps_of ?H (?w\<lparr>ut_entries := e, ut_metrics := m\<rparr>))
      (route_params_from_packet info False None) [sample_rule]
      \<lparr>outcome_outbound = BLOCK, outcome_mark = 0, outcome_must = True\<rparr>"
    using sample_rules_decide by simp
  show ?thesis
    using lan_ingress_follows_rules [OF _ ref_redirect_ok parse disjI2 [OF udp] gate refl d run] run
    by (simp add: ref_loop_ok kernel_outcome_def)
qed



definition reply_frame :: bytes where
  "reply_frame = eth_frame (replicate 6 7) (replicate 6 8) [] 0x0800
     (ipv4_bytes sample_header @ be_bytes 2 (1024 :: u16) @ be_bytes 2 (53 :: u16) @ [0, 8, 0, 0])"

definition request_info :: ParsedPacket where
  "request_info = ParsedPacket_zeroed
     \<lparr>p_sip := mapped_octets (V4 (h4_destination sample_header)), p_dip := mapped_octets (V4 (h4_source sample_header)),
      p_sport := swap16 53, p_dport := swap16 1024, p_l4proto := 17\<rparr>"

definition handed_over :: world where
  "handed_over =
     snd (prep_redirect_to_control_plane (ref_tproxy_kernel 1) BpfDaeParam_zeroed ETH_HLEN request_info
       (build_tuples request_info) False (sample_world reply_frame))"

theorem reply_returns_to_origin_witness:
  "fst (dae0_ingress (ref_tproxy_kernel 1) BpfDaeParam_zeroed (handed_over\<lparr>st_frame := reply_frame\<rparr>)) \<in> {TC_ACT_SHOT, 7}"
proof -
  let ?H = "ref_tproxy_kernel 1" and ?P = BpfDaeParam_zeroed and ?k2 = "handed_over\<lparr>st_frame := reply_frame\<rparr>"
  let ?key = "build_tuples request_info"
  have "fst (prep_redirect_to_control_plane ?H ?P ETH_HLEN request_info ?key False (sample_world reply_frame))"
    by (simp add: prep_redirect_to_control_plane_def prep_link_header_def strip_def store_counted_def frame_store_def
        capture_def request_info_def ParsedPacket_zeroed_def MAX_VLAN_DEPTH_def VLAN_DEPTH_MASK_def Let_def ETH_HLEN_def
        BpfDaeParam_zeroed_def ETH_DST_OFFSET_def sample_world_def reply_frame_def eth_frame_def)
  then have prep: "prep_redirect_to_control_plane ?H ?P ETH_HLEN request_info ?key False (sample_world reply_frame) =
      (True, handed_over)"
    by (simp add: handed_over_def prod_eq_iff)
  have "w_fields handed_over = sample_skb"
    by (simp add: handed_over_def prep_redirect_to_control_plane_def prep_link_header_def strip_def store_counted_def frame_store_def
        capture_def request_info_def ParsedPacket_zeroed_def MAX_VLAN_DEPTH_def VLAN_DEPTH_MASK_def Let_def ETH_HLEN_def
        BpfDaeParam_zeroed_def ETH_DST_OFFSET_def sample_world_def reply_frame_def eth_frame_def)
  then have ps: "parse_skb ?H ETH_HLEN ?k2 = parse_transport sample_skb (load_ref reply_frame) ETH_HLEN"
    by (simp add: parse_skb_def)
  have lk: "link_ok request_info"
    by (simp add: link_ok_def request_info_def ParsedPacket_zeroed_def VLAN_DEPTH_MASK_def)
  obtain reply where parse: "parse_transport sample_skb (load_ref reply_frame) ETH_HLEN = (0, reply)"
    and v4: "p_is_ipv4 reply = 1"
    and tk: "build_tuples reply = \<lparr>tk_sip = mapped_octets (V4 (h4_source sample_header)),
      tk_dip = mapped_octets (V4 (h4_destination sample_header)), tk_sport = swap16 1024, tk_dport = swap16 53,
      tk_l4proto = h4_protocol sample_header\<rparr>"
    by (rule parse_transport_frame_ex [of "replicate 6 7" "replicate 6 8" "[]" sample_skb sample_header "[0, 8, 0, 0]" 1024 53])
      (simp_all add: tags_ok_def sample_skb_def sample_header_def ipv4_unfragmented_def IPPROTO_UDP_def reply_frame_def)
  have hp: "h_proto reply = ETH_P_IP_NETWORK"
    using parse_transport_ok [OF load_ref_ok parse] v4 by (simp add: packet_ok_def)
  have rev: "build_tuples reply = reverse_tuples ?key"
    using tk by (simp add: reverse_tuples_def build_tuples_def request_info_def sample_header_def)
  obtain a k' where run: "dae0_ingress ?H ?P ?k2 = (a, k')" by fastforce
  have fr: "st_frame ?k2 = eth_frame (replicate 6 7) (replicate 6 8) [] (swap16 (ucast (h_proto reply)))
      (ipv4_bytes sample_header @ be_bytes 2 (1024 :: u16) @ be_bytes 2 (53 :: u16) @ [0, 8, 0, 0])"
    by (simp add: reply_frame_def hp ETH_P_IP_NETWORK_def)
  have "a = TC_ACT_SHOT \<or> a = 7"
    using reply_returns_to_origin [OF world.tproxy_helpers_axioms prep lk _ _ rev fr _ _ run] ps parse by auto
  then show ?thesis using run by simp
qed

end
