(* ===== verification/Bpf_Cgroup.thy ===== *)
theory Bpf_Cgroup
  imports Bpf_Tproxy
begin

text \<open>
  \<^verbatim>\<open>dae-ebpf-program/src/cgroup.rs\<close>: the socket programs that remember which process opened a
  socket.  The process name is the task's command name, or with the feature \<^verbatim>\<open>pname-core\<close> the base
  name of its first argument, read through offsets into kernel structures.  The model is that
  of the object built with the feature; with \<^verbatim>\<open>has_bpf_get_current_task\<close> zero it is the other one.
\<close>

section \<open>The program\<close>

definition MAX_ARG_LEN :: nat where "MAX_ARG_LEN = 128"

text \<open>
  Reading kernel memory gives a return code and the word, reading a user string a return code and
  the filled buffer; a null task is address 0.
\<close>

record PnameArgScanCtx =
  arg_buf :: bytes
  arg_offset :: u8

type_synonym arg_loop = "u32 \<Rightarrow> (u32 \<Rightarrow> PnameArgScanCtx \<Rightarrow> i64 \<times> PnameArgScanCtx) \<Rightarrow> PnameArgScanCtx \<Rightarrow> i64 \<times> PnameArgScanCtx"

record 'k pid_kernel = "'k kernel" +
  cookie_pid_update :: "u64 \<Rightarrow> BpfPidPname \<Rightarrow> u64 \<Rightarrow> 'k \<Rightarrow> i64 \<times> 'k"
  cookie_pid_delete :: "u64 \<Rightarrow> 'k \<Rightarrow> i64 \<times> 'k"
  bpf_get_current_pid_tgid :: "'k \<Rightarrow> u64"
  bpf_get_current_comm :: "'k \<Rightarrow> bytes"
  bpf_get_current_task :: "'k \<Rightarrow> u64"
  bpf_probe_read_kernel :: "u64 \<Rightarrow> 'k \<Rightarrow> i64 \<times> u64"
  bpf_probe_read_user_str :: "u64 \<Rightarrow> 'k \<Rightarrow> i64 \<times> bytes"
  bpf_arg_loop :: arg_loop

definition allow :: i32 where
  "allow = 1"

definition pname_arg_scan_loop_cb :: "u32 \<Rightarrow> PnameArgScanCtx \<Rightarrow> i64 \<times> PnameArgScanCtx" where
  "pname_arg_scan_loop_cb index ctx =
     (if index \<ge> word_of_nat MAX_ARG_LEN then (1, ctx)
      else
        let byte = arg_buf ctx ! unat index;
            ctx' = (if byte = 0x2F then ctx\<lparr>arg_offset := ucast (index + 1)\<rparr> else ctx)
        in if byte = 0x20 \<or> byte = 0
           then (1, ctx'\<lparr>arg_buf := (arg_buf ctx')[unat index := 0]\<rparr>)
           else (0, ctx'))"

text \<open>The copy loop, from position \<open>out\<close> with \<open>n\<close> positions left; the number of bytes copied.\<close>

fun copy_pname :: "nat \<Rightarrow> bytes \<Rightarrow> nat \<Rightarrow> nat \<Rightarrow> bytes \<Rightarrow> nat \<times> bytes" where
  "copy_pname 0 buf offset out pname = (out, pname)"
| "copy_pname (Suc n) buf offset out pname =
     (let src = offset + out
      in if src < MAX_ARG_LEN \<and> buf ! src \<noteq> 0 then copy_pname n buf offset (Suc out) (pname[out := buf ! src])
         else (out, pname[out := 0]))"

definition fill_current_task_argv0_basename ::
    "('k, 'a) pid_kernel_scheme \<Rightarrow> BpfDaeParam \<Rightarrow> 'k \<Rightarrow> BpfPidPname \<Rightarrow> bool \<times> BpfPidPname" where
  "fill_current_task_argv0_basename H P k val =
     (let task = bpf_get_current_task H k
      in if task = 0 then (False, val)
         else if task_struct_mm_offset P = 0 \<or> mm_struct_arg_start_offset P = 0 then (False, val)
         else case bpf_probe_read_kernel H (task + ucast (task_struct_mm_offset P)) k of
           (r1, mm_addr) \<Rightarrow>
             if r1 \<noteq> 0 \<or> mm_addr = 0 then (False, val)
             else case bpf_probe_read_kernel H (mm_addr + ucast (mm_struct_arg_start_offset P)) k of
               (r2, arg_start) \<Rightarrow>
                 if r2 \<noteq> 0 \<or> arg_start = 0 then (False, val)
                 else case bpf_probe_read_user_str H arg_start k of
                   (r3, buf) \<Rightarrow>
                     if sint r3 \<le> 0 then (False, val)
                     else case bpf_arg_loop H (word_of_nat MAX_ARG_LEN) pname_arg_scan_loop_cb
                                 \<lparr>arg_buf = buf, arg_offset = 0\<rparr> of
                       (r4, ctx) \<Rightarrow>
                         if sint r4 < 0 then (False, val)
                         else case copy_pname 16 (arg_buf ctx) (unat (arg_offset ctx)) 0 (pp_pname val) of
                           (out, pname) \<Rightarrow> (out \<noteq> 0, val\<lparr>pp_pname := pname\<rparr>))"

text \<open>The mutated value is returned whether or not the base name was found.\<close>

definition get_pid_pname :: "('k, 'a) pid_kernel_scheme \<Rightarrow> BpfDaeParam \<Rightarrow> 'k \<Rightarrow> BpfPidPname" where
  "get_pid_pname H P k =
     (let comm = bpf_get_current_comm H k;
          val = \<lparr>pp_pid = ucast (drop_bit 32 (bpf_get_current_pid_tgid H k)), pp_comm = comm, pp_pname = comm\<rparr>
      in if has_bpf_get_current_task P \<noteq> 0 then snd (fill_current_task_argv0_basename H P k val) else val)"

definition update_map_elem_by_cookie :: "('k, 'a) pid_kernel_scheme \<Rightarrow> BpfDaeParam \<Rightarrow> 'k \<Rightarrow> 'k" where
  "update_map_elem_by_cookie H P k =
     (let cookie = bpf_get_socket_cookie H k
      in if cookie = 0 then k
         else if cookie_pid_lookup H cookie k \<noteq> None then k
         else snd (cookie_pid_update H cookie (get_pid_pname H P k) BPF_ANY k))"

definition delete_map_elem_by_cookie :: "('k, 'a) pid_kernel_scheme \<Rightarrow> 'k \<Rightarrow> 'k" where
  "delete_map_elem_by_cookie H k =
     (let cookie = bpf_get_socket_cookie H k
      in if cookie = 0 then k else snd (cookie_pid_delete H cookie k))"

definition update_sock :: "('k, 'a) pid_kernel_scheme \<Rightarrow> BpfDaeParam \<Rightarrow> 'k \<Rightarrow> i32 \<times> 'k" where
  "update_sock H P k = (allow, update_map_elem_by_cookie H P k)"

definition update_sock_addr :: "('k, 'a) pid_kernel_scheme \<Rightarrow> BpfDaeParam \<Rightarrow> 'k \<Rightarrow> i32 \<times> 'k" where
  "update_sock_addr H P k = (allow, update_map_elem_by_cookie H P k)"

definition release_sock :: "('k, 'a) pid_kernel_scheme \<Rightarrow> 'k \<Rightarrow> i32 \<times> 'k" where
  "release_sock H k = (allow, delete_map_elem_by_cookie H k)"

section \<open>The base name\<close>

text \<open>The loop helper behaves as documented on this callback.\<close>

definition arg_loop_ok :: "arg_loop \<Rightarrow> bool" where
  "arg_loop_ok loop \<longleftrightarrow>
     (\<forall>cb ctx. loop (word_of_nat MAX_ARG_LEN) cb ctx =
        (case loop_from cb MAX_ARG_LEN 0 ctx of (i, ctx') \<Rightarrow> (word_of_nat i, ctx')))"

definition arg_char :: "u8 \<Rightarrow> bool" where
  "arg_char b \<longleftrightarrow> b \<noteq> 0 \<and> b \<noteq> 0x20"

text \<open>Scanning the characters of a path and its terminator.\<close>

lemma ucast_of_nat_Suc: "i < 128 \<Longrightarrow> ucast (word_of_nat i + 1 :: u32) = (word_of_nat (Suc i) :: u8)"
proof -
  assume i: "i < 128"
  have "word_of_nat i + 1 = (word_of_nat (Suc i) :: u32)" by simp
  then show ?thesis using i by (simp only:) (simp add: unsigned_of_nat take_bit_nat_eq_self del: of_nat_Suc)
qed

lemma scan_step:
  assumes "i < 128"
  shows "pname_arg_scan_loop_cb (word_of_nat i) ctx =
    (let b = arg_buf ctx ! i; ctx' = (if b = 0x2F then ctx\<lparr>arg_offset := word_of_nat (Suc i)\<rparr> else ctx)
     in if arg_char b then (0, ctx') else (1, ctx'\<lparr>arg_buf := (arg_buf ctx')[i := 0]\<rparr>))"
proof -
  have "\<not> word_of_nat i \<ge> (word_of_nat MAX_ARG_LEN :: u32)" "unat (word_of_nat i :: u32) = i"
    using assms(1) by (simp_all add: MAX_ARG_LEN_def word_le_nat_alt unat_of_nat)
  then show ?thesis
    by (auto simp: pname_arg_scan_loop_cb_def arg_char_def Let_def ucast_of_nat_Suc assms)
qed

text \<open>The position behind the last slash, or the given one.\<close>

fun after_slash :: "nat \<Rightarrow> u8 \<Rightarrow> bytes \<Rightarrow> u8" where
  "after_slash i offset [] = offset"
| "after_slash i offset (b # bs) = after_slash (Suc i) (if b = 0x2F then word_of_nat (Suc i) else offset) bs"

lemma scan_loop:
  assumes "arg_buf ctx = pre @ path @ t # rest" "length pre = i" "list_all arg_char path" "\<not> arg_char t"
    and "length path < n" "i + n \<le> 128"
  shows "loop_from pname_arg_scan_loop_cb n i ctx =
    (Suc (i + length path), ctx\<lparr>arg_buf := pre @ path @ 0 # rest, arg_offset := after_slash i (arg_offset ctx) path\<rparr>)"
  using assms
proof (induction path arbitrary: pre i n ctx)
  case Nil
  then obtain m where n: "n = Suc m" by (cases n) auto
  have "arg_buf ctx ! i = t" "(arg_buf ctx)[i := 0] = pre @ 0 # rest" "t \<noteq> 0x2F"
    using Nil.prems by (auto simp: nth_append list_update_append arg_char_def)
  then show ?case using Nil.prems by (simp add: n scan_step)
next
  case (Cons b path)
  then obtain m where n: "n = Suc m" by (cases n) auto
  let ?ctx = "if b = 0x2F then ctx\<lparr>arg_offset := word_of_nat (Suc i)\<rparr> else ctx"
  have b: "arg_buf ctx ! i = b" using Cons.prems(1,2) by (simp add: nth_append)
  have step: "pname_arg_scan_loop_cb (word_of_nat i) ctx = (0, ?ctx)"
    using Cons.prems(3,5,6) by (simp add: scan_step b Let_def)
  have "loop_from pname_arg_scan_loop_cb m (Suc i) ?ctx =
      (Suc (Suc i + length path), ?ctx\<lparr>arg_buf := (pre @ [b]) @ path @ 0 # rest,
        arg_offset := after_slash (Suc i) (arg_offset ?ctx) path\<rparr>)"
    by (rule Cons.IH) (use Cons.prems n in auto)
  then show ?case by (simp add: n step)
qed

lemma after_slash_base:
  assumes "0x2F \<notin> set base"
  shows "after_slash i offset base = offset"
  using assms by (induction base arbitrary: i) auto

lemma after_slash_append:
  "after_slash i offset (xs @ ys) = after_slash (i + length xs) (after_slash i offset xs) ys"
  by (induction xs arbitrary: i offset) auto

lemma after_slash_path:
  assumes "dir = [] \<or> last dir = 0x2F" "0x2F \<notin> set base"
  shows "after_slash 0 0 (dir @ base) = word_of_nat (length dir)"
proof (cases dir rule: rev_cases)
  case Nil
  then show ?thesis using after_slash_base [OF assms(2)] by simp
next
  case (snoc xs b)
  then show ?thesis using assms by (simp add: after_slash_append after_slash_base)
qed

lemma copy_pname_path:
  assumes "list_all (\<lambda>b. b \<noteq> 0) base" "buf = pre @ base @ 0 # rest" "length buf = 128"
    and "length pre = offset + out" "out + n = length pname"
  shows "copy_pname n buf offset out pname =
    (out + min n (length base), take out pname @ take n (base @ 0 # drop (Suc (out + length base)) pname))"
  using assms
proof (induction n arbitrary: out pname pre base)
  case 0
  then show ?case by simp
next
  case (Suc n)
  have o: "out < length pname" using Suc.prems(5) by simp
  have src: "offset + out < MAX_ARG_LEN" "buf ! (offset + out) = (base @ 0 # rest) ! 0"
    using Suc.prems(2-4) by (auto simp: MAX_ARG_LEN_def nth_append)
  show ?case
  proof (cases base)
    case Nil
    then show ?thesis using src o Suc.prems(5)
      by (simp add: Let_def upd_conv_take_nth_drop)
  next
    case (Cons b bs)
    have "copy_pname n buf offset (Suc out) (pname[out := b]) =
        (Suc out + min n (length bs),
         take (Suc out) (pname[out := b]) @ take n (bs @ 0 # drop (Suc (Suc out + length bs)) (pname[out := b])))"
      by (rule Suc.IH [of bs "pre @ [b]"]) (use Suc.prems Cons in auto)
    moreover have "take (Suc out) (pname[out := b]) = take out pname @ [b]"
      using o by (simp add: take_Suc_conv_app_nth)
    ultimately show ?thesis using src Cons Suc.prems(1) by (simp add: Let_def)
  qed
qed

text \<open>The argument buffer of the current task is readable.\<close>

definition argv0_readable :: "('k, 'a) pid_kernel_scheme \<Rightarrow> BpfDaeParam \<Rightarrow> 'k \<Rightarrow> bytes \<Rightarrow> bool" where
  "argv0_readable H P k buf \<longleftrightarrow>
     (let task = bpf_get_current_task H k;
          (r1, mm) = bpf_probe_read_kernel H (task + ucast (task_struct_mm_offset P)) k;
          (r2, arg) = bpf_probe_read_kernel H (mm + ucast (mm_struct_arg_start_offset P)) k;
          (r3, bs) = bpf_probe_read_user_str H arg k
      in has_bpf_get_current_task P \<noteq> 0 \<and> task \<noteq> 0 \<and> task_struct_mm_offset P \<noteq> 0 \<and>
         mm_struct_arg_start_offset P \<noteq> 0 \<and> r1 = 0 \<and> mm \<noteq> 0 \<and> r2 = 0 \<and> arg \<noteq> 0 \<and> sint r3 > 0 \<and> bs = buf)"

lemma get_pid_pname_basename:
  assumes "arg_loop_ok (bpf_arg_loop H)" "argv0_readable H P k buf" "length (bpf_get_current_comm H k) = 16"
    and "buf = dir @ base @ t # rest" "length buf = 128" "list_all arg_char (dir @ base)" "\<not> arg_char t"
    and "dir = [] \<or> last dir = 0x2F" "0x2F \<notin> set base"
  shows "pp_pname (get_pid_pname H P k) = take 16 (base @ 0 # drop (Suc (length base)) (bpf_get_current_comm H k))"
proof -
  let ?comm = "bpf_get_current_comm H k"
  have len: "length dir < 128" using assms(4,5) by simp
  have "loop_from pname_arg_scan_loop_cb 128 0 \<lparr>arg_buf = buf, arg_offset = 0\<rparr> =
      (Suc (length (dir @ base)), \<lparr>arg_buf = dir @ base @ 0 # rest, arg_offset = word_of_nat (length dir)\<rparr>)"
    using scan_loop [of "\<lparr>arg_buf = buf, arg_offset = 0\<rparr>" "[]" "dir @ base" t rest 0 128] assms(4-7)
      after_slash_path [OF assms(8,9)] by simp
  then have loop: "bpf_arg_loop H (word_of_nat MAX_ARG_LEN) pname_arg_scan_loop_cb \<lparr>arg_buf = buf, arg_offset = 0\<rparr> =
      (word_of_nat (Suc (length (dir @ base))), \<lparr>arg_buf = dir @ base @ 0 # rest, arg_offset = word_of_nat (length dir)\<rparr>)"
    using assms(1) by (simp add: arg_loop_ok_def MAX_ARG_LEN_def del: of_nat_Suc)
  have nn: "\<not> sint (word_of_nat (Suc (length (dir @ base))) :: i64) < 0"
    using assms(4,5) by (simp add: not_less word_of_nat_small_nonneg del: of_nat_Suc)
  have off: "unat (word_of_nat (length dir) :: u8) = length dir" using len by (simp add: unat_of_nat)
  have copy: "copy_pname 16 (dir @ base @ 0 # rest) (length dir) 0 ?comm =
      (min 16 (length base), take 16 (base @ 0 # drop (Suc (length base)) ?comm))"
    using copy_pname_path [of base "dir @ base @ 0 # rest" dir rest "length dir" 0 16 ?comm] assms(3-6)
    by (auto simp: list_all_iff arg_char_def)
  have "snd (fill_current_task_argv0_basename H P k val) = val\<lparr>pp_pname := take 16 (base @ 0 # drop (Suc (length base)) ?comm)\<rparr>"
    if "pp_pname val = ?comm" for val
    using assms(2) that loop nn off copy
    by (auto simp: fill_current_task_argv0_basename_def argv0_readable_def Let_def split: prod.splits)
  then show ?thesis using assms(2) by (auto simp: get_pid_pname_def argv0_readable_def Let_def split: prod.splits)
qed

lemma replicate_zero_iff: "replicate (length xs) 0 = xs \<longleftrightarrow> list_all (\<lambda>b. b = (0 :: u8)) xs"
  by (induction xs) auto

text \<open>
  C30. The process name is the base name of the first argument followed by one zero byte, and from there
  on by the bytes of the command name, which are not cleared.  So a process name rule, whose
  name is padded with zeros, matches a base name of at most 14 characters exactly when the
  command name has only zeros behind this position.
\<close>

theorem argv0_name_keeps_comm_tail:
  assumes "arg_loop_ok (bpf_arg_loop H)" "argv0_readable H P k buf" "length (bpf_get_current_comm H k) = 16"
    and "buf = dir @ base @ t # rest" "length buf = 128" "list_all arg_char (dir @ base)" "\<not> arg_char t"
    and "dir = [] \<or> last dir = 0x2F" "0x2F \<notin> set base" "length base \<le> 14"
  shows "names_equal (base @ replicate (16 - length base) 0) (pp_pname (get_pid_pname H P k)) \<longleftrightarrow>
    list_all (\<lambda>b. b = 0) (drop (Suc (length base)) (bpf_get_current_comm H k))"
proof -
  let ?tail = "drop (Suc (length base)) (bpf_get_current_comm H k)" and ?p = "pp_pname (get_pid_pname H P k)"
  obtain m where m: "16 - length base = Suc m" "length base + Suc m = 16"
    using assms(10) that [of "15 - length base"] by simp
  have l: "length ?tail = m" using assms(3) m(2) by simp
  have "length (base @ 0 # ?tail) = 16" using l m(2) by simp
  then have p: "take 16 ?p = base @ 0 # ?tail" using get_pid_pname_basename [OF assms(1-9)] by (metis take_all order_refl)
  have "length (base @ 0 # replicate m 0) = 16" using m(2) by simp
  then have q: "take 16 (base @ replicate (16 - length base) 0) = base @ 0 # replicate m 0"
    unfolding m(1) replicate_Suc by (metis take_all order_refl)
  have "names_equal (base @ replicate (16 - length base) 0) ?p \<longleftrightarrow> replicate m 0 = ?tail"
    unfolding names_equal_def p q by simp
  also have "\<dots> \<longleftrightarrow> list_all (\<lambda>b. b = 0) ?tail"
    unfolding l [symmetric] by (rule replicate_zero_iff)
  finally show ?thesis .
qed

definition sample_pid_kernel :: "string \<Rightarrow> string \<Rightarrow> world pid_kernel" where
  "sample_pid_kernel comm arg =
     kernel.extend (ref_tproxy_kernel 1)
       (pid_kernel.fields (\<lambda>_ _ _ k. (0, k)) (\<lambda>_ k. (0, k)) (\<lambda>_. 0)
         (\<lambda>_. str_bytes comm @ replicate (16 - length comm) 0) (\<lambda>_. 1) (\<lambda>_ _. (0, 1))
         (\<lambda>_ _. (1, str_bytes arg @ replicate (128 - length arg) 0))
         (\<lambda>n cb ctx. case loop_from cb (unat n) 0 ctx of (i, ctx') \<Rightarrow> (word_of_nat i, ctx')))"

definition sample_pid_param :: BpfDaeParam where
  "sample_pid_param = BpfDaeParam_zeroed
     \<lparr>has_bpf_get_current_task := 1, task_struct_mm_offset := 8, mm_struct_arg_start_offset := 8\<rparr>"

theorem argv0_name_keeps_comm_tail_witness:
  "\<not> names_equal (str_bytes ''sh'' @ replicate 14 0)
      (pp_pname (get_pid_pname (sample_pid_kernel ''bash'' ''/bin/sh'') sample_pid_param (sample_world [])))"
proof -
  let ?H = "sample_pid_kernel ''bash'' ''/bin/sh''"
  have f: "bpf_arg_loop ?H = (\<lambda>n cb ctx. case loop_from cb (unat n) 0 ctx of (i, ctx') \<Rightarrow> (word_of_nat i, ctx'))"
    "bpf_get_current_comm ?H k = str_bytes ''bash'' @ replicate 12 0" "bpf_get_current_task ?H k = 1"
    "bpf_probe_read_kernel ?H a k = (0, 1)" "bpf_probe_read_user_str ?H a k = (1, str_bytes ''/bin/sh'' @ replicate 121 0)"
    for a k by (simp_all add: sample_pid_kernel_def ref_tproxy_kernel_def ref_skb_kernel_def udp_kernel.defs skb_kernel.defs kernel.defs pid_kernel.defs)
  have ok: "arg_loop_ok (bpf_arg_loop ?H)" by (simp add: arg_loop_ok_def f MAX_ARG_LEN_def)
  have rd: "argv0_readable ?H sample_pid_param (sample_world []) (str_bytes ''/bin/sh'' @ replicate 121 0)"
    by (simp add: argv0_readable_def f sample_pid_param_def)
  let ?dir = "[0x2F, 0x62, 0x69, 0x6E, 0x2F] :: bytes" and ?base = "[0x73, 0x68] :: bytes"
  have s: "str_bytes ''/bin/sh'' = ?dir @ ?base" "str_bytes ''sh'' = ?base" "str_bytes ''bash'' = [0x62, 0x61, 0x73, 0x68]"
    by code_simp+
  have "names_equal (?base @ replicate (16 - length ?base) 0) (pp_pname (get_pid_pname ?H sample_pid_param (sample_world []))) \<longleftrightarrow>
      list_all (\<lambda>b. b = 0) (drop (Suc (length ?base)) (bpf_get_current_comm ?H (sample_world [])))"
    by (rule argv0_name_keeps_comm_tail [OF ok rd, where dir = ?dir and t = 0 and rest = "replicate 120 0"])
      (simp_all add: f s arg_char_def flip: replicate_Suc)
  then show ?thesis by (simp add: f s)
qed

end
