(* ===== verification/Config_Ast.thy ===== *)
theory Config_Ast
  imports Prelude
begin

text \<open>
  \<^verbatim>\<open>dae-config/src/ast.rs\<close> and \<^verbatim>\<open>dae-config/src/dynamic.rs\<close>: the syntax tree of the configuration
  language (sections, parameters, functions and routing rules) and its printer.  A parameter
  carries functions and annotations, so the two types are mutually recursive.
\<close>

section \<open>Syntax tree\<close>

datatype Param =
    Param (param_key: string) (param_val: string) (param_and_functions: "Function list")
      (param_annotation: "Param list")
and Function = Function (fn_name: string) (fn_not: bool) (fn_params: "Param list")

record RoutingRule =
  rule_and_functions :: "Function list"
  rule_outbound :: Function

datatype Section = Section (section_name: string) (section_items: "Item list")
and Item = ItemParam Param | ItemSection Section | ItemRoutingRule RoutingRule

datatype ItemKind = KindParam | KindSection | KindRoutingRule

fun Item_kind :: "Item \<Rightarrow> ItemKind" where
  "Item_kind (ItemParam _) = KindParam"
| "Item_kind (ItemSection _) = KindSection"
| "Item_kind (ItemRoutingRule _) = KindRoutingRule"

datatype DynamicFunctionValue =
    DynNil
  | DynString string
  | DynFunction Function
  | DynFunctionList "Function list"

text \<open>\<^verbatim>\<open>Param { key, val, ..Param::default() }\<close>.\<close>

abbreviation plain_param :: "string \<Rightarrow> string \<Rightarrow> Param" where
  "plain_param key val \<equiv> Param key val [] []"

section \<open>Printing\<close>

definition quote_char :: "char \<Rightarrow> string" where
  "quote_char ch =
     (if ch = CHR 0x5C then [CHR 0x5C, CHR 0x5C]
      else if ch = CHR 0x22 then [CHR 0x5C, CHR 0x22]
      else if ch = CHR 0x0A then [CHR 0x5C, CHR ''n'']
      else if ch = CHR 0x0D then [CHR 0x5C, CHR ''r'']
      else if ch = CHR 0x09 then [CHR 0x5C, CHR ''t'']
      else [ch])"

definition quote_string :: "string \<Rightarrow> string" where
  "quote_string value = CHR 0x22 # concat (map quote_char value) @ [CHR 0x22]"

fun Param_to_config_string :: "bool \<Rightarrow> bool \<Rightarrow> Param \<Rightarrow> string"
  and Function_to_config_string :: "bool \<Rightarrow> bool \<Rightarrow> bool \<Rightarrow> Function \<Rightarrow> string" where
  "Param_to_config_string compact quote_val (Param key val and_functions annotation) =
     (let quote = (\<lambda>value. if quote_val then quote_string value else value);
          colon = (if compact then '':'' else '': '')
      in if key = [] then quote val
         else if and_functions \<noteq> []
         then key @ colon @
           join_with (if compact then ''&&'' else '' && '')
             (map (Function_to_config_string compact quote_val False) and_functions)
         else key @ colon @ quote val)"
| "Function_to_config_string compact quote_val omit_empty (Function name negated params) =
     (let out = (if negated then ''!'' else []) @ name
      in if omit_empty \<and> params = [] then out
         else out @ ''('' @
           join_with (if compact then '','' else '', '')
             (map (Param_to_config_string compact quote_val) params) @ '')'')"

definition RoutingRule_to_config_string :: "bool \<Rightarrow> bool \<Rightarrow> bool \<Rightarrow> RoutingRule \<Rightarrow> string" where
  "RoutingRule_to_config_string replace_param_with_n compact quote_val rule =
     (let and_sep = (if compact then ''&&'' else '' && '');
          params_sep = (if compact then '','' else '', '');
          left = join_with and_sep
            (map (\<lambda>f.
               let params = (if replace_param_with_n then ''[n = '' @ show_nat (length (fn_params f)) @ '']''
                             else join_with params_sep
                               (map (Param_to_config_string compact quote_val) (fn_params f)))
               in (if fn_not f then ''!'' else []) @ fn_name f @ ''('' @ params @ '')'')
             (rule_and_functions rule))
      in left @ (if compact then ''->'' else '' -> '') @
         Function_to_config_string compact quote_val True (rule_outbound rule))"

text \<open>\<^verbatim>\<open>replace('\n', "\n\t")\<close>.\<close>

definition indent_lines :: "string \<Rightarrow> string" where
  "indent_lines s = concat (map (\<lambda>c. if c = CHR 0x0A then [CHR 0x0A, CHR 0x09] else [c]) s)"

fun Item_to_config_string :: "bool \<Rightarrow> bool \<Rightarrow> Item \<Rightarrow> string"
  and Section_to_config_string :: "bool \<Rightarrow> bool \<Rightarrow> Section \<Rightarrow> string" where
  "Item_to_config_string compact quote_val (ItemParam param) =
     ''type: Param'' @ [CHR 0x0A, CHR 0x09] @ Param_to_config_string compact quote_val param"
| "Item_to_config_string compact quote_val (ItemSection sec) =
     ''type: Param'' @ [CHR 0x0A, CHR 0x09] @ indent_lines (Section_to_config_string compact quote_val sec)"
| "Item_to_config_string compact quote_val (ItemRoutingRule rule) =
     ''type: RoutingRule'' @ [CHR 0x0A, CHR 0x09] @
     RoutingRule_to_config_string False compact quote_val rule"
| "Section_to_config_string compact quote_val (Section name items) =
     ''section: '' @ name @
     concat (map (\<lambda>item. [CHR 0x0A, CHR 0x09] @ indent_lines (Item_to_config_string compact quote_val item)) items)"

end
