(* ===== verification/Geodata.thy ===== *)
theory Geodata
  imports Config_Ast Byte_Order
begin

text \<open>
  \<^verbatim>\<open>dae-geodata\<close> (\<^verbatim>\<open>error.rs\<close>, \<^verbatim>\<open>hex.rs\<close>, \<^verbatim>\<open>wire.rs\<close>, \<^verbatim>\<open>model.rs\<close>) and the expansion of \<^verbatim>\<open>geosite\<close> and \<^verbatim>\<open>geoip\<close>
  parameters in \<^verbatim>\<open>dae-resident-dataplane/src/geodata.rs\<close>: the protobuf reader of the \<^verbatim>\<open>.dat\<close> files, the
  decoding of one country or category, and its conversion to parameters of a routing function.

  A reader takes the rest of the input and returns its value with the input it leaves.  The
  contents of the asset files are the parameter \<open>read_asset\<close> of the operations that load them; the
  resolver's caches, which only avoid repeated work on unchanged files, are left out.
\<close>

section \<open>Errors\<close>

datatype GeoDataError =
    FailedToReadBytes
  | FailedToReadExpectedLenBytes
  | InvalidGeodataFile
  | InvalidGeodataVarintLength
  | EntryTooLarge u64
  | CodeNotFound
  | InvalidHex string
  | InvalidUtf8
  | InvalidIpLength nat
  | InvalidCidrPrefix u64
  | UnsupportedWireType u64
  | CountryCodeNotFound string
  | GeoSiteCodeNotFound string

definition is_full_read_fallback_candidate :: "GeoDataError \<Rightarrow> bool" where
  "is_full_read_fallback_candidate e \<longleftrightarrow>
     e \<in> {FailedToReadBytes, FailedToReadExpectedLenBytes, InvalidGeodataFile, InvalidGeodataVarintLength}"

fun show_geodata_error :: "GeoDataError \<Rightarrow> string" where
  "show_geodata_error FailedToReadBytes = ''failed to read bytes''"
| "show_geodata_error FailedToReadExpectedLenBytes = ''failed to read expected length of bytes''"
| "show_geodata_error InvalidGeodataFile = ''invalid geodata file''"
| "show_geodata_error InvalidGeodataVarintLength = ''invalid geodata varint length''"
| "show_geodata_error (EntryTooLarge n) = ''geodata entry too large: '' @ show_nat (unat n) @ '' bytes''"
| "show_geodata_error CodeNotFound = ''code not found''"
| "show_geodata_error (InvalidHex input) = ''invalid hex: '' @ input"
| "show_geodata_error InvalidUtf8 = ''invalid utf-8''"
| "show_geodata_error (InvalidIpLength n) = ''invalid IP length: '' @ show_nat n"
| "show_geodata_error (InvalidCidrPrefix n) = ''invalid CIDR prefix: '' @ show_nat (unat n)"
| "show_geodata_error (UnsupportedWireType n) = ''unsupported protobuf wire type: '' @ show_nat (unat n)"
| "show_geodata_error (CountryCodeNotFound code) = ''country code '' @ code @ '' not found''"
| "show_geodata_error (GeoSiteCodeNotFound code) = ''code '' @ code @ '' not found''"

section \<open>Wire format\<close>

type_synonym 'a reader = "bytes \<Rightarrow> (GeoDataError, 'a \<times> bytes) result"

fun varint_loop :: "nat list \<Rightarrow> u64 \<Rightarrow> u64 reader" where
  "varint_loop [] value input = Inl InvalidGeodataVarintLength"
| "varint_loop (shift # shifts) value [] = Inl FailedToReadBytes"
| "varint_loop (shift # shifts) value (byte # rest) =
     (let value = value OR push_bit shift (ucast (byte AND 0x7F))
      in if byte < 0x80 then Inr (value, rest) else varint_loop shifts value rest)"

definition varint_shifts :: "nat list" where
  "varint_shifts = map (\<lambda>i. 7 * i) [0..<10]"

definition read_varint :: "u64 reader" where
  "read_varint = varint_loop varint_shifts 0"

text \<open>\<^verbatim>\<open>usize\<close> has 64 bits, so that the conversion of the length never fails.\<close>

definition read_length_delimited :: "bytes reader" where
  "read_length_delimited input =
     bind_result (read_varint input) (\<lambda>(n, input).
       if length input < unat n then Inl FailedToReadExpectedLenBytes
       else Inr (take (unat n) input, drop (unat n) input))"

definition skip_bytes :: "nat \<Rightarrow> unit reader" where
  "skip_bytes n input = (if length input < n then Inl FailedToReadExpectedLenBytes else Inr ((), drop n input))"

definition skip_field :: "u64 \<Rightarrow> unit reader" where
  "skip_field wire_type input =
     (if wire_type = 0 then map_result (\<lambda>(_, rest). ((), rest)) (read_varint input)
      else if wire_type = 1 then skip_bytes 8 input
      else if wire_type = 2 then map_result (\<lambda>(_, rest). ((), rest)) (read_length_delimited input)
      else if wire_type = 5 then skip_bytes 4 input
      else Inl (UnsupportedWireType wire_type))"

text \<open>\<^verbatim>\<open>std::str::from_utf8\<close>.\<close>

definition utf8_cont :: "u8 \<Rightarrow> bool" where
  "utf8_cont b \<longleftrightarrow> 0x80 \<le> b \<and> b \<le> 0xBF"

fun utf8_valid :: "bytes \<Rightarrow> bool" where
  "utf8_valid [] = True"
| "utf8_valid (a # bs) =
     (if a < 0x80 then utf8_valid bs
      else if a < 0xC2 then False
      else if a < 0xE0 then (case bs of b # r \<Rightarrow> utf8_cont b \<and> utf8_valid r | _ \<Rightarrow> False)
      else if a < 0xF0
      then (case bs of
              b # c # r \<Rightarrow> utf8_cont b \<and> (a = 0xE0 \<longrightarrow> 0xA0 \<le> b) \<and> (a = 0xED \<longrightarrow> b \<le> 0x9F) \<and>
                utf8_cont c \<and> utf8_valid r
            | _ \<Rightarrow> False)
      else if a < 0xF5
      then (case bs of
              b # c # d # r \<Rightarrow> utf8_cont b \<and> (a = 0xF0 \<longrightarrow> 0x90 \<le> b) \<and> (a = 0xF4 \<longrightarrow> b \<le> 0x8F) \<and>
                utf8_cont c \<and> utf8_cont d \<and> utf8_valid r
            | _ \<Rightarrow> False)
      else False)"

definition string_view :: "(GeoDataError, bytes) result \<Rightarrow> (GeoDataError, string) result" where
  "string_view data =
     bind_result data (\<lambda>data. if utf8_valid data then Inr (bytes_str data) else Inl InvalidUtf8)"

text \<open>
  The loops over the fields of a message all read a tag and then, by its wire type, either the
  value or what \<open>skip_field\<close> passes over; they differ only in the fields they keep.
\<close>

datatype wire_value = Varint u64 | Fixed64 | Delimited bytes | Fixed32

definition read_field :: "(u64 \<times> wire_value) reader" where
  "read_field input =
     bind_result (read_varint input) (\<lambda>(tag, input).
       let field = drop_bit 3 tag; wire_type = tag AND 7
       in if wire_type = 0 then map_result (\<lambda>(v, rest). ((field, Varint v), rest)) (read_varint input)
          else if wire_type = 2
          then map_result (\<lambda>(data, rest). ((field, Delimited data), rest)) (read_length_delimited input)
          else map_result (\<lambda>(_, rest). ((field, if wire_type = 1 then Fixed64 else Fixed32), rest))
                 (skip_field wire_type input))"

lemma varint_loop_consumes: "varint_loop ss v input = Inr (n, rest) \<Longrightarrow> length rest < length input"
  by (induction ss v input rule: varint_loop.induct) (auto simp: Let_def split: if_splits)

lemma read_varint_consumes: "read_varint input = Inr (n, rest) \<Longrightarrow> length rest < length input"
  by (auto simp: read_varint_def dest: varint_loop_consumes)

lemma read_length_delimited_consumes:
  "read_length_delimited input = Inr (data, rest) \<Longrightarrow> length rest < length input"
  by (auto simp: read_length_delimited_def bind_result_Inr split: if_splits dest!: read_varint_consumes)

lemma skip_field_shrinks: "skip_field w input = Inr (u, rest) \<Longrightarrow> length rest \<le> length input"
  by (auto simp: skip_field_def skip_bytes_def map_result_Inr split: if_splits
      dest!: read_varint_consumes read_length_delimited_consumes)

lemma read_field_consumes: "read_field input = Inr (v, rest) \<Longrightarrow> length rest < length input"
  by (auto simp: read_field_def bind_result_Inr map_result_Inr Let_def split: if_splits
      dest!: read_varint_consumes read_length_delimited_consumes skip_field_shrinks)

function fold_fields ::
    "('s \<Rightarrow> u64 \<times> wire_value \<Rightarrow> (GeoDataError, 's) result) \<Rightarrow> 's \<Rightarrow> bytes \<Rightarrow> (GeoDataError, 's) result" where
  "fold_fields step s input =
     (if input = [] then Inr s
      else case read_field input of
             Inl e \<Rightarrow> Inl e
           | Inr (v, rest) \<Rightarrow>
               (case step s v of Inl e \<Rightarrow> Inl e | Inr s' \<Rightarrow> fold_fields step s' rest))"
  by pat_completeness auto
termination
  by (relation "measure (\<lambda>(step, s, input). length input)") (auto dest: read_field_consumes)

declare fold_fields.simps [simp del]

function country_code_view :: "bytes \<Rightarrow> (GeoDataError, string) result" where
  "country_code_view input =
     (if input = [] then Inr []
      else case read_varint input of
             Inl e \<Rightarrow> Inl e
           | Inr (tag, rest) \<Rightarrow>
               let field = drop_bit 3 tag; wire_type = tag AND 7
               in if field = 1 \<and> wire_type = 2
                  then string_view (map_result fst (read_length_delimited rest))
                  else case skip_field wire_type rest of
                         Inl e \<Rightarrow> Inl e
                       | Inr (_, rest') \<Rightarrow> country_code_view rest')"
  by pat_completeness auto
termination
  by (relation "measure length") (auto dest!: read_varint_consumes skip_field_shrinks)

declare country_code_view.simps [simp del]

definition country_code_eq_ignore_ascii_case :: "bytes \<Rightarrow> string \<Rightarrow> (GeoDataError, bool) result" where
  "country_code_eq_ignore_ascii_case entry code =
     map_result (\<lambda>c. eq_ignore_ascii_case c code) (country_code_view entry)"

text \<open>The entry with the given code, with the offset it starts at.\<close>

function decode_entry_loop :: "nat \<Rightarrow> bytes \<Rightarrow> string \<Rightarrow> (GeoDataError, nat \<times> bytes) result" where
  "decode_entry_loop len input code =
     (if input = [] then Inl CodeNotFound
      else case read_varint input of
             Inl e \<Rightarrow> Inl e
           | Inr (tag, rest) \<Rightarrow>
               if tag \<noteq> 10 then Inl InvalidGeodataFile
               else case read_length_delimited rest of
                      Inl e \<Rightarrow> Inl e
                    | Inr (entry, rest') \<Rightarrow>
                        (case country_code_eq_ignore_ascii_case entry code of
                           Inl e \<Rightarrow> Inl e
                         | Inr hit \<Rightarrow>
                             if hit then Inr (len - length rest' - length entry, entry)
                             else decode_entry_loop len rest' code))"
  by pat_completeness auto
termination
  by (relation "measure (\<lambda>(len, input, code). length input)")
    (auto dest!: read_varint_consumes read_length_delimited_consumes)

declare decode_entry_loop.simps [simp del]

definition decode_entry_view_bytes :: "bytes \<Rightarrow> string \<Rightarrow> (GeoDataError, bytes) result" where
  "decode_entry_view_bytes data code = map_result snd (decode_entry_loop (length data) data code)"

definition decode_entry_range :: "bytes \<Rightarrow> string \<Rightarrow> (GeoDataError, nat \<times> nat) result" where
  "decode_entry_range data code =
     map_result (\<lambda>(start, entry). (start, start + length entry)) (decode_entry_loop (length data) data code)"

text \<open>The reader over a stream; here the bytes the stream has left.\<close>

definition MAX_STREAMED_GEODATA_ENTRY_BYTES :: u64 where
  "MAX_STREAMED_GEODATA_ENTRY_BYTES = 64 * 1024 * 1024"

definition read_varint_reader :: "bytes \<Rightarrow> (GeoDataError, (u64 \<times> bytes) option) result" where
  "read_varint_reader reader =
     (if reader = [] then Inr None else map_result Some (varint_loop varint_shifts 0 reader))"

function decode_entry_reader :: "bytes \<Rightarrow> string \<Rightarrow> (GeoDataError, bytes) result" where
  "decode_entry_reader reader code =
     (case read_varint_reader reader of
        Inl e \<Rightarrow> Inl e
      | Inr None \<Rightarrow> Inl CodeNotFound
      | Inr (Some (tag, reader1)) \<Rightarrow>
          if tag \<noteq> 10 then Inl InvalidGeodataFile
          else case read_varint_reader reader1 of
                 Inl e \<Rightarrow> Inl e
               | Inr None \<Rightarrow> Inl FailedToReadBytes
               | Inr (Some (n, reader2)) \<Rightarrow>
                   if n > MAX_STREAMED_GEODATA_ENTRY_BYTES then Inl (EntryTooLarge n)
                   else if length reader2 < unat n then Inl FailedToReadExpectedLenBytes
                   else let entry = take (unat n) reader2
                        in case country_code_view entry of
                             Inl e \<Rightarrow> Inl e
                           | Inr c \<Rightarrow>
                               if eq_ignore_ascii_case c code then Inr entry
                               else decode_entry_reader (drop (unat n) reader2) code)"
  by pat_completeness auto
termination
proof (relation "measure (\<lambda>(reader, code). length reader)")
  fix reader code r x tag reader1 r' y n reader2 entry c
  assume "read_varint_reader reader = Inr r" "r = Some x" "(tag, reader1) = x"
    "read_varint_reader reader1 = Inr r'" "r' = Some y" "(n, reader2) = y"
  then have "length reader1 < length reader" "length reader2 < length reader1"
    by (auto simp: read_varint_reader_def map_result_Inr split: if_splits dest!: varint_loop_consumes)
  then show "((drop (unat n) reader2, code), (reader, code)) \<in> measure (\<lambda>(reader, code). length reader)"
    by simp
qed simp

declare decode_entry_reader.simps [simp del]

section \<open>Countries and categories\<close>

record GeoIp =
  geoip_country_code :: string
  geoip_cidrs :: "string list"
  geoip_inverse_match :: bool

datatype DomainType = Plain | RegexType | RootDomain | FullType

record Domain =
  domain_type :: DomainType
  domain_value :: string
  domain_attributes :: "string list"

record GeoSite =
  geosite_country_code :: string
  geosite_domains :: "Domain list"

record 'a LoadResult =
  decode_ok :: bool
  fallback_ok :: bool
  decoded_entry_bytes :: nat
  load_value :: 'a

definition domain_type_from_u64 :: "u64 \<Rightarrow> DomainType" where
  "domain_type_from_u64 value =
     (if value = 1 then RegexType else if value = 2 then RootDomain else if value = 3 then FullType else Plain)"

fun attribute_step :: "string \<Rightarrow> u64 \<times> wire_value \<Rightarrow> (GeoDataError, string) result" where
  "attribute_step key (field, Delimited d) = (if field = 1 then string_view (Inr d) else Inr key)"
| "attribute_step key (field, _) = Inr key"

definition parse_attribute_key :: "bytes \<Rightarrow> (GeoDataError, string) result" where
  "parse_attribute_key data = fold_fields attribute_step [] data"

fun domain_step :: "Domain \<Rightarrow> u64 \<times> wire_value \<Rightarrow> (GeoDataError, Domain) result" where
  "domain_step d (field, Varint n) =
     Inr (if field = 1 then d\<lparr>domain_type := domain_type_from_u64 n\<rparr> else d)"
| "domain_step d (field, Delimited b) =
     (if field = 2 then map_result (\<lambda>s. d\<lparr>domain_value := s\<rparr>) (string_view (Inr b))
      else if field = 3
      then map_result (\<lambda>k. d\<lparr>domain_attributes := domain_attributes d @ [k]\<rparr>) (parse_attribute_key b)
      else Inr d)"
| "domain_step d (field, _) = Inr d"

definition parse_domain :: "bytes \<Rightarrow> (GeoDataError, Domain) result" where
  "parse_domain data =
     fold_fields domain_step \<lparr>domain_type = Plain, domain_value = [], domain_attributes = []\<rparr> data"

fun cidr_step :: "bytes \<times> u32 \<Rightarrow> u64 \<times> wire_value \<Rightarrow> (GeoDataError, bytes \<times> u32) result" where
  "cidr_step (ip, pfx) (field, Delimited b) = Inr (if field = 1 then b else ip, pfx)"
| "cidr_step (ip, pfx) (field, Varint raw) =
     (if field = 2
      then if unat raw \<ge> 2 ^ 32 then Inl (InvalidCidrPrefix raw) else Inr (ip, ucast raw)
      else Inr (ip, pfx))"
| "cidr_step (ip, pfx) (field, _) = Inr (ip, pfx)"

definition parse_cidr :: "bytes \<Rightarrow> (GeoDataError, string) result" where
  "parse_cidr data =
     bind_result (fold_fields cidr_step ([], 0) data) (\<lambda>(ip, pfx).
       if length ip \<noteq> 4 \<and> length ip \<noteq> 16 then Inl (InvalidIpLength (length ip))
       else let addr = (if length ip = 4 then V4 (be_word ip) else V6 (be_word ip));
                max_prefix = (if length ip = 4 then 32 else 128)
            in if pfx > max_prefix then Inl (InvalidCidrPrefix (ucast pfx))
               else Inr (show_ip_addr addr @ ''/'' @ show_nat (unat pfx)))"

fun geoip_step :: "GeoIp \<Rightarrow> u64 \<times> wire_value \<Rightarrow> (GeoDataError, GeoIp) result" where
  "geoip_step g (field, Delimited b) =
     (if field = 1 then map_result (\<lambda>s. g\<lparr>geoip_country_code := s\<rparr>) (string_view (Inr b))
      else if field = 2
      then map_result (\<lambda>c. g\<lparr>geoip_cidrs := geoip_cidrs g @ [c]\<rparr>) (parse_cidr b)
      else Inr g)"
| "geoip_step g (field, Varint n) = Inr (if field = 3 then g\<lparr>geoip_inverse_match := n \<noteq> 0\<rparr> else g)"
| "geoip_step g (field, _) = Inr g"

definition parse_geoip_entry :: "bytes \<Rightarrow> (GeoDataError, GeoIp) result" where
  "parse_geoip_entry entry =
     fold_fields geoip_step \<lparr>geoip_country_code = [], geoip_cidrs = [], geoip_inverse_match = False\<rparr> entry"

fun geosite_step :: "GeoSite \<Rightarrow> u64 \<times> wire_value \<Rightarrow> (GeoDataError, GeoSite) result" where
  "geosite_step g (field, Delimited b) =
     (if field = 1 then map_result (\<lambda>s. g\<lparr>geosite_country_code := s\<rparr>) (string_view (Inr b))
      else if field = 2
      then map_result (\<lambda>d. g\<lparr>geosite_domains := geosite_domains g @ [d]\<rparr>) (parse_domain b)
      else Inr g)"
| "geosite_step g (field, _) = Inr g"

definition parse_geosite_entry :: "bytes \<Rightarrow> (GeoDataError, GeoSite) result" where
  "parse_geosite_entry entry =
     fold_fields geosite_step \<lparr>geosite_country_code = [], geosite_domains = []\<rparr> entry"

fun entries_step :: "bytes list \<Rightarrow> u64 \<times> wire_value \<Rightarrow> (GeoDataError, bytes list) result" where
  "entries_step es (field, Delimited b) = Inr (if field = 1 then es @ [b] else es)"
| "entries_step es (field, _) = Inr es"

definition entries_from_list :: "bytes \<Rightarrow> (GeoDataError, bytes list) result" where
  "entries_from_list data = fold_fields entries_step [] data"

text \<open>\<^verbatim>\<open>find_geoip_from_list\<close> and \<^verbatim>\<open>find_geosite_from_list\<close>: the entries are parsed in order.\<close>

fun find_entry ::
    "(bytes \<Rightarrow> (GeoDataError, 'a) result) \<Rightarrow> ('a \<Rightarrow> string) \<Rightarrow> GeoDataError \<Rightarrow> string \<Rightarrow> bytes list \<Rightarrow>
      (GeoDataError, 'a \<times> nat) result" where
  "find_entry parse code_of missing code [] = Inl missing"
| "find_entry parse code_of missing code (entry # entries) =
     (case parse entry of
        Inl e \<Rightarrow> Inl e
      | Inr g \<Rightarrow> if eq_ignore_ascii_case (code_of g) code then Inr (g, length entry)
                 else find_entry parse code_of missing code entries)"

definition find_geoip_from_list :: "bytes \<Rightarrow> string \<Rightarrow> (GeoDataError, GeoIp \<times> nat) result" where
  "find_geoip_from_list data code =
     bind_result (entries_from_list data)
       (find_entry parse_geoip_entry geoip_country_code (CountryCodeNotFound code) code)"

definition find_geosite_from_list :: "bytes \<Rightarrow> string \<Rightarrow> (GeoDataError, GeoSite \<times> nat) result" where
  "find_geosite_from_list data code =
     bind_result (entries_from_list data)
       (find_entry parse_geosite_entry geosite_country_code (GeoSiteCodeNotFound code) code)"

definition load_geoip_entry_bytes :: "bytes \<Rightarrow> (GeoDataError, GeoIp LoadResult) result" where
  "load_geoip_entry_bytes entry =
     map_result (\<lambda>g. \<lparr>decode_ok = True, fallback_ok = False, decoded_entry_bytes = length entry, load_value = g\<rparr>)
       (parse_geoip_entry entry)"

definition load_geosite_entry_bytes :: "bytes \<Rightarrow> (GeoDataError, GeoSite LoadResult) result" where
  "load_geosite_entry_bytes entry =
     map_result (\<lambda>g. \<lparr>decode_ok = True, fallback_ok = False, decoded_entry_bytes = length entry, load_value = g\<rparr>)
       (parse_geosite_entry entry)"

definition load_geoip_bytes :: "bytes \<Rightarrow> string \<Rightarrow> (GeoDataError, GeoIp LoadResult) result" where
  "load_geoip_bytes data code =
     (case decode_entry_view_bytes data code of
        Inr entry \<Rightarrow> load_geoip_entry_bytes entry
      | Inl err \<Rightarrow>
          if is_full_read_fallback_candidate err
          then map_result (\<lambda>(g, n). \<lparr>decode_ok = False, fallback_ok = True, decoded_entry_bytes = n, load_value = g\<rparr>)
                 (find_geoip_from_list data code)
          else if err = CodeNotFound then Inl (CountryCodeNotFound code)
          else Inl err)"

definition load_geosite_bytes :: "bytes \<Rightarrow> string \<Rightarrow> (GeoDataError, GeoSite LoadResult) result" where
  "load_geosite_bytes data code =
     (case decode_entry_view_bytes data code of
        Inr entry \<Rightarrow> load_geosite_entry_bytes entry
      | Inl err \<Rightarrow>
          if is_full_read_fallback_candidate err
          then map_result (\<lambda>(g, n). \<lparr>decode_ok = False, fallback_ok = True, decoded_entry_bytes = n, load_value = g\<rparr>)
                 (find_geosite_from_list data code)
          else if err = CodeNotFound then Inl (GeoSiteCodeNotFound code)
          else Inl err)"

section \<open>Summaries\<close>

record GeoDataSummary =
  category_count :: nat
  item_count :: nat

definition validate_nested_message :: "bytes \<Rightarrow> (GeoDataError, unit) result" where
  "validate_nested_message data = fold_fields (\<lambda>_ _. Inr ()) () data"

definition count_repeated_message_field :: "u64 \<Rightarrow> bytes \<Rightarrow> (GeoDataError, nat) result" where
  "count_repeated_message_field target_field entry =
     fold_fields (\<lambda>count v. case v of
         (field, Delimited b) \<Rightarrow>
           if field = target_field then map_result (\<lambda>_. count + 1) (validate_nested_message b) else Inr count
       | _ \<Rightarrow> Inr count) 0 entry"

definition summarize_list ::
    "(bytes \<Rightarrow> (GeoDataError, nat) result) \<Rightarrow> bytes \<Rightarrow> (GeoDataError, GeoDataSummary) result" where
  "summarize_list count_entry_items data =
     fold_fields (\<lambda>s v. case v of
         (field, Delimited b) \<Rightarrow>
           if field = 1
           then map_result (\<lambda>n. \<lparr>category_count = category_count s + 1, item_count = item_count s + n\<rparr>)
                  (count_entry_items b)
           else Inr s
       | _ \<Rightarrow> Inr s) \<lparr>category_count = 0, item_count = 0\<rparr> data"

definition summarize_geoip_bytes :: "bytes \<Rightarrow> (GeoDataError, GeoDataSummary) result" where
  "summarize_geoip_bytes = summarize_list (count_repeated_message_field 2)"

definition summarize_geosite_bytes :: "bytes \<Rightarrow> (GeoDataError, GeoDataSummary) result" where
  "summarize_geosite_bytes = summarize_list (count_repeated_message_field 2)"

section \<open>Parameters of routing functions\<close>

type_synonym assets = "string \<Rightarrow> (string, string \<times> bytes) result"

definition dat_filename :: "string \<Rightarrow> string" where
  "dat_filename filename = (if ends_with filename ''.dat'' then filename else filename @ ''.dat'')"

definition split_geosite_code_attr :: "string \<Rightarrow> string \<times> string option" where
  "split_geosite_code_attr code =
     (let (code, attr) = (case split_once (CHR ''@'') code of Some p \<Rightarrow> p | None \<Rightarrow> (code, []))
      in (code, if attr = [] then None else Some attr))"

definition load_geoip_params :: "assets \<Rightarrow> string \<Rightarrow> string \<Rightarrow> (string, Param list) result" where
  "load_geoip_params read_asset filename code =
     (let filename = dat_filename filename
      in bind_result (read_asset filename) (\<lambda>(path, data).
         bind_result
           (map_err (\<lambda>err. ''load geoip '' @ filename @ '':'' @ code @ '' from '' @ path @ '': '' @ show_geodata_error err)
              (case decode_entry_range data code of
                 Inr (start, stop) \<Rightarrow> load_geoip_entry_bytes (take (stop - start) (drop start data))
               | Inl _ \<Rightarrow> load_geoip_bytes data code)) (\<lambda>loaded.
         if geoip_inverse_match (load_value loaded) then Inl ''not support inverse match yet''
         else Inr (map (plain_param []) (geoip_cidrs (load_value loaded))))))"

fun domain_type_key :: "DomainType \<Rightarrow> string" where
  "domain_type_key FullType = ''full''"
| "domain_type_key RootDomain = ''suffix''"
| "domain_type_key Plain = ''keyword''"
| "domain_type_key RegexType = ''regex''"

definition load_geosite_params :: "assets \<Rightarrow> string \<Rightarrow> string \<Rightarrow> (string, Param list) result" where
  "load_geosite_params read_asset filename code =
     (let filename = dat_filename filename; (code, attr) = split_geosite_code_attr code
      in bind_result (read_asset filename) (\<lambda>(path, data).
         bind_result
           (map_err (\<lambda>err. ''load geosite '' @ filename @ '':'' @ code @ '' from '' @ path @ '': '' @ show_geodata_error err)
              (case decode_entry_range data code of
                 Inr (start, stop) \<Rightarrow> load_geosite_entry_bytes (take (stop - start) (drop start data))
               | Inl _ \<Rightarrow> load_geosite_bytes data code)) (\<lambda>loaded.
         Inr (map (\<lambda>d. plain_param (domain_type_key (domain_type d)) (domain_value d))
           (filter (\<lambda>d. case attr of None \<Rightarrow> True
                        | Some a \<Rightarrow> list_ex (\<lambda>item. eq_ignore_ascii_case item a) (domain_attributes d))
              (geosite_domains (load_value loaded)))))))"

section \<open>Encoding\<close>

text \<open>The protobuf encoding of the messages, against which the decoder is specified.\<close>

function encode_varint :: "u64 \<Rightarrow> bytes" where
  "encode_varint v =
     (if v < 0x80 then [ucast v] else (ucast (v AND 0x7F) OR 0x80) # encode_varint (drop_bit 7 v))"
  by pat_completeness auto
termination
proof (relation "measure unat")
  fix v :: u64
  assume "\<not> v < 0x80"
  then have "0 < unat v" by (simp add: word_less_nat_alt)
  then show "(drop_bit 7 v, v) \<in> measure unat" by (simp add: unat_drop_bit)
qed simp

declare encode_varint.simps [simp del]

lemma byte_low_bits:
  fixes v :: u64
  shows "v < 0x80 \<Longrightarrow> ucast ((ucast v :: u8) AND 0x7F) = v" "v < 0x80 \<Longrightarrow> (ucast v :: u8) < 0x80"
    "ucast ((ucast (v AND 0x7F) OR 0x80 :: u8) AND 0x7F) = v AND 0x7F"
    "\<not> (ucast (v AND 0x7F) OR 0x80 :: u8) < 0x80"
proof -
  have m: "(0x7F :: 'a::len word) = mask 7" by (simp add: mask_eq_exp_minus_1)
  show 2: "(ucast v :: u8) < 0x80" if "v < 0x80"
    using that by (simp add: word_less_nat_alt unsigned_ucast_eq take_bit_nat_eq_self)
  show "ucast ((ucast v :: u8) AND 0x7F) = v" if "v < 0x80"
  proof -
    have "take_bit 7 v = v" using that by (simp add: word_eq_iff_unsigned [where 'a = nat] unat_take_bit word_less_nat_alt)
    moreover have "ucast ((ucast v :: u8) AND 0x7F) = take_bit 7 v"
      unfolding m by (rule bit_word_eqI) (auto simp: bit_simps)
    ultimately show ?thesis by simp
  qed
  show "ucast ((ucast (v AND 0x7F) OR 0x80 :: u8) AND 0x7F) = v AND 0x7F"
  proof (rule bit_word_eqI)
    fix n
    have "(0x80 :: u8) = 2 ^ 7" by simp
    then have "bit (0x80 :: u8) n \<longleftrightarrow> n = 7" by (simp only: bit_exp_iff possible_bit_word) auto
    then show "bit (ucast ((ucast (v AND 0x7F) OR 0x80 :: u8) AND 0x7F) :: u64) n = bit (v AND 0x7F) n"
      unfolding m by (auto simp: bit_simps)
  qed
  have "(0x80 :: u8) \<le> ucast (v AND 0x7F) OR 0x80" by (rule le_word_or1)
  then show "\<not> (ucast (v AND 0x7F) OR 0x80 :: u8) < 0x80" by simp
qed

lemma split_low_bits: "push_bit a (v AND 0x7F) OR push_bit (7 + a) (drop_bit 7 v) = push_bit a (v :: u64)"
proof -
  have "v AND 0x7F = take_bit 7 v" by (simp add: take_bit_eq_mask mask_eq_exp_minus_1)
  moreover have "take_bit 7 v OR push_bit 7 (drop_bit 7 v) = v"
  proof (rule bit_word_eqI)
    fix n
    show "bit (take_bit 7 v OR push_bit 7 (drop_bit 7 v)) n = bit v n"
      by (cases "n < 7") (auto simp: bit_simps dest: bit_imp_le_length)
  qed
  moreover have "push_bit (7 + a) (drop_bit 7 v) = push_bit a (push_bit 7 (drop_bit 7 v))"
    by (simp add: push_bit_push_bit add.commute)
  ultimately show ?thesis by (metis push_bit_or)
qed

lemma varint_loop_encode:
  "k < 10 \<Longrightarrow> unat v < 2 ^ (64 - 7 * k) \<Longrightarrow>
     varint_loop (map (\<lambda>i. 7 * i) [k..<10]) acc (encode_varint v @ rest) = Inr (acc OR push_bit (7 * k) v, rest)"
proof (induction v arbitrary: k acc rule: encode_varint.induct)
  case (1 v)
  have shifts: "map (\<lambda>i. 7 * i) [k..<10] = 7 * k # map (\<lambda>i. 7 * i) [Suc k..<10]"
    using 1 by (simp add: upt_conv_Cons)
  show ?case
  proof (cases "v < 0x80")
    case True
    then show ?thesis by (simp add: shifts encode_varint.simps [of v] byte_low_bits)
  next
    case False
    then have "2 ^ 7 \<le> unat v" by (simp add: word_less_nat_alt)
    then have "(2::nat) ^ 7 < 2 ^ (64 - 7 * k)" using 1 by linarith
    then have "7 < 64 - 7 * k" by (simp only: power_strict_increasing_iff [of "2::nat"])
    then have k: "Suc k < 10" "64 - 7 * k = 7 + (64 - 7 * Suc k)" by simp_all
    have "unat v < 2 ^ (64 - 7 * Suc k) * 2 ^ 7"
      using 1(3) unfolding k(2) power_add by (simp add: mult.commute)
    then have "unat (drop_bit 7 v) < 2 ^ (64 - 7 * Suc k)"
      unfolding unat_drop_bit by (rule less_mult_imp_div_less)
    moreover have "(acc OR push_bit (7 * k) (v AND 0x7F)) OR push_bit (7 * Suc k) (drop_bit 7 v) = acc OR push_bit (7 * k) v"
      using split_low_bits [of "7 * k" v] by (simp add: or.assoc)
    ultimately show ?thesis
      using False 1(1) [of "Suc k" "acc OR push_bit (7 * k) (v AND 0x7F)"] k
      by (simp add: shifts encode_varint.simps [of v] byte_low_bits del: mult_Suc_right)
  qed
qed

lemma read_varint_encode [simp]: "read_varint (encode_varint v @ rest) = Inr (v, rest)"
  using varint_loop_encode [of 0 v 0 rest] unsigned_less [of v, where 'a = nat]
  by (simp add: read_varint_def varint_shifts_def)

definition varint_field :: "u64 \<Rightarrow> u64 \<Rightarrow> bytes" where
  "varint_field tag v = encode_varint tag @ encode_varint v"

definition bytes_field :: "u64 \<Rightarrow> bytes \<Rightarrow> bytes" where
  "bytes_field tag b = encode_varint tag @ encode_varint (word_of_nat (length b)) @ b"

lemma encode_varint_nonempty [simp]: "encode_varint v \<noteq> []"
  by (simp add: encode_varint.simps [of v])

lemma field_nonempty [simp]: "bytes_field tag b \<noteq> []" "varint_field tag v \<noteq> []"
  by (simp_all add: bytes_field_def varint_field_def)

lemma length_bytes_field: "length b < length (bytes_field tag b)"
proof -
  have "0 < length (encode_varint tag)" by simp
  then show ?thesis by (simp add: bytes_field_def del: length_greater_0_conv)
qed

lemma read_length_delimited_encode:
  "length b < 2 ^ 64 \<Longrightarrow> read_length_delimited (encode_varint (word_of_nat (length b)) @ b @ rest) = Inr (b, rest)"
  by (simp add: read_length_delimited_def unat_of_nat)

lemma fold_fields_nil [simp]: "fold_fields step s [] = Inr s"
  by (simp add: fold_fields.simps)

lemma fold_fields_bytes:
  assumes "tag AND 7 = 2" "length b < 2 ^ 64"
  shows "fold_fields step s (bytes_field tag b @ rest) =
    bind_result (step s (drop_bit 3 tag, Delimited b)) (\<lambda>s'. fold_fields step s' rest)"
proof -
  have "read_field (bytes_field tag b @ rest) = Inr ((drop_bit 3 tag, Delimited b), rest)"
    using assms by (simp add: read_field_def bytes_field_def read_length_delimited_encode)
  then show ?thesis
    by (subst fold_fields.simps) (simp add: bind_result_def split: sum.split)
qed

lemma fold_fields_varint:
  assumes "tag AND 7 = 0"
  shows "fold_fields step s (varint_field tag v @ rest) =
    bind_result (step s (drop_bit 3 tag, Varint v)) (\<lambda>s'. fold_fields step s' rest)"
proof -
  have "read_field (varint_field tag v @ rest) = Inr ((drop_bit 3 tag, Varint v), rest)"
    using assms by (simp add: read_field_def varint_field_def)
  then show ?thesis
    by (subst fold_fields.simps) (simp add: bind_result_def split: sum.split)
qed

text \<open>A repeated field collects its elements in order.\<close>

lemma fold_fields_repeated:
  assumes "tag AND 7 = 2" "\<And>x. x \<in> set xs \<Longrightarrow> length (enc x) < 2 ^ 64"
    and "\<And>s x. x \<in> set xs \<Longrightarrow> step s (drop_bit 3 tag, Delimited (enc x)) = Inr (upd s x)"
  shows "fold_fields step s (concat (map (\<lambda>x. bytes_field tag (enc x)) xs) @ rest) =
    fold_fields step (foldl upd s xs) rest"
  using assms(2,3) by (induction xs arbitrary: s) (simp_all add: fold_fields_bytes [OF assms(1)])

section \<open>Lists of entries\<close>

definition text_ok :: "string \<Rightarrow> bool" where
  "text_ok s \<longleftrightarrow> utf8_valid (str_bytes s)"

lemma string_view_text [simp]: "text_ok s \<Longrightarrow> string_view (Inr (str_bytes s)) = Inr s"
  by (simp add: string_view_def text_ok_def)

text \<open>
  Both kinds of files are lists of entries that start with their code; what the loaders need of
  an entry's encoding is that the code can be read back and that the entry's parser inverts it.
\<close>

definition entry_list :: "('e \<Rightarrow> bytes) \<Rightarrow> 'e list \<Rightarrow> bytes" where
  "entry_list enc gs = concat (map (\<lambda>g. bytes_field 10 (enc g)) gs)"

locale geo_entries =
  fixes enc :: "'e \<Rightarrow> bytes" and ok :: "'e \<Rightarrow> bool" and code_of :: "'e \<Rightarrow> string"
    and parse :: "bytes \<Rightarrow> (GeoDataError, 'v) result" and val_of :: "'e \<Rightarrow> 'v"
  assumes code_readable: "ok g \<Longrightarrow> length (enc g) < 2 ^ 64 \<Longrightarrow> country_code_view (enc g) = Inr (code_of g)"
    and parse_enc: "ok g \<Longrightarrow> length (enc g) < 2 ^ 64 \<Longrightarrow> parse (enc g) = Inr (val_of g)"
begin

lemma decode_loop_enc_list:
  assumes "list_all ok gs" "length (entry_list enc gs) < 2 ^ 64"
  shows "map_result snd (decode_entry_loop n (entry_list enc gs) code) =
    (case find (\<lambda>g. eq_ignore_ascii_case (code_of g) code) gs of
       None \<Rightarrow> Inl CodeNotFound | Some g \<Rightarrow> Inr (enc g))"
  using assms
proof (induction gs)
  case Nil
  then show ?case by (subst decode_entry_loop.simps) (simp add: entry_list_def)
next
  case (Cons g gs)
  have split: "entry_list enc (g # gs) = encode_varint 10 @ encode_varint (word_of_nat (length (enc g))) @ enc g @ entry_list enc gs"
    by (simp add: entry_list_def bytes_field_def)
  then have len: "length (enc g) < 2 ^ 64" "length (entry_list enc gs) < 2 ^ 64" using Cons.prems by simp_all
  have ne: "entry_list enc (g # gs) \<noteq> []" by (simp add: split)
  have "country_code_eq_ignore_ascii_case (enc g) code = Inr (eq_ignore_ascii_case (code_of g) code)"
    using Cons.prems len by (simp add: country_code_eq_ignore_ascii_case_def code_readable)
  then show ?case
    using Cons len ne
    by (subst decode_entry_loop.simps) (simp add: split read_length_delimited_encode)
qed

lemma decode_view_enc_list:
  assumes "list_all ok gs" "length (entry_list enc gs) < 2 ^ 64"
  shows "decode_entry_view_bytes (entry_list enc gs) code =
    (case find (\<lambda>g. eq_ignore_ascii_case (code_of g) code) gs of
       None \<Rightarrow> Inl CodeNotFound | Some g \<Rightarrow> Inr (enc g))"
  using decode_loop_enc_list [OF assms] by (simp add: decode_entry_view_bytes_def)

lemma found_ok:
  assumes "list_all ok gs" "length (entry_list enc gs) < 2 ^ 64"
    and "find (\<lambda>g. eq_ignore_ascii_case (code_of g) code) gs = Some g"
  shows "ok g" "length (enc g) < 2 ^ 64" "parse (enc g) = Inr (val_of g)"
proof -
  have g: "g \<in> set gs" using assms(3) by (metis find_Some_iff nth_mem)
  then show "ok g" using assms(1) by (simp add: list_all_iff)
  have "length (enc g) < length (bytes_field 10 (enc g))" by (rule length_bytes_field)
  also have "\<dots> \<le> length (entry_list enc gs)" using g by (induction gs) (auto simp: entry_list_def)
  finally show len: "length (enc g) < 2 ^ 64" using assms(2) by linarith
  from \<open>ok g\<close> len show "parse (enc g) = Inr (val_of g)" by (rule parse_enc)
qed

end

section \<open>Encodings of countries and categories\<close>

fun domain_type_code :: "DomainType \<Rightarrow> u64" where
  "domain_type_code Plain = 0"
| "domain_type_code RegexType = 1"
| "domain_type_code RootDomain = 2"
| "domain_type_code FullType = 3"

definition encode_attribute :: "string \<Rightarrow> bytes" where
  "encode_attribute a = bytes_field 10 (str_bytes a)"

definition encode_domain :: "Domain \<Rightarrow> bytes" where
  "encode_domain d =
     varint_field 8 (domain_type_code (domain_type d)) @ bytes_field 18 (str_bytes (domain_value d)) @
     concat (map (\<lambda>a. bytes_field 26 (encode_attribute a)) (domain_attributes d))"

definition encode_geosite :: "GeoSite \<Rightarrow> bytes" where
  "encode_geosite g =
     bytes_field 10 (str_bytes (geosite_country_code g)) @
     concat (map (\<lambda>d. bytes_field 18 (encode_domain d)) (geosite_domains g))"

definition domain_ok :: "Domain \<Rightarrow> bool" where
  "domain_ok d \<longleftrightarrow> text_ok (domain_value d) \<and> list_all text_ok (domain_attributes d)"

definition geosite_ok :: "GeoSite \<Rightarrow> bool" where
  "geosite_ok g \<longleftrightarrow> text_ok (geosite_country_code g) \<and> list_all domain_ok (geosite_domains g)"

lemma length_repeated:
  "x \<in> set xs \<Longrightarrow> length (enc x) < length (concat (map (\<lambda>x. bytes_field tag (enc x)) xs))"
  using length_bytes_field [of "enc x" tag] by (induction xs) auto

lemma fold_fields_single_bytes:
  "tag AND 7 = 2 \<Longrightarrow> length b < 2 ^ 64 \<Longrightarrow>
     fold_fields step s (bytes_field tag b) = step s (drop_bit 3 tag, Delimited b)"
  using fold_fields_bytes [of tag b step s "[]"]
  by (cases "step s (drop_bit 3 tag, Delimited b)") simp_all

lemma fold_fields_single_varint:
  "tag AND 7 = 0 \<Longrightarrow> fold_fields step s (varint_field tag v) = step s (drop_bit 3 tag, Varint v)"
  using fold_fields_varint [of tag step s v "[]"]
  by (cases "step s (drop_bit 3 tag, Varint v)") simp_all

lemma fold_fields_repeated_end:
  assumes "tag AND 7 = 2" "\<And>x. x \<in> set xs \<Longrightarrow> length (enc x) < 2 ^ 64"
    and "\<And>s x. x \<in> set xs \<Longrightarrow> step s (drop_bit 3 tag, Delimited (enc x)) = Inr (upd s x)"
  shows "fold_fields step s (concat (map (\<lambda>x. bytes_field tag (enc x)) xs)) = Inr (foldl upd s xs)"
  using fold_fields_repeated [of tag xs enc step upd s "[]"] assms by simp

lemma parse_attribute_encode:
  "text_ok a \<Longrightarrow> length (encode_attribute a) < 2 ^ 64 \<Longrightarrow> parse_attribute_key (encode_attribute a) = Inr a"
  using length_bytes_field [of "str_bytes a" 10]
  by (simp add: parse_attribute_key_def encode_attribute_def fold_fields_single_bytes)

lemma domain_type_code_inv [simp]: "domain_type_from_u64 (domain_type_code t) = t"
  by (cases t) (simp_all add: domain_type_from_u64_def)

lemma foldl_append_field:
  assumes "\<And>s x. get (upd s x) = get s @ [f x]" "\<And>s. set_field s (get s) = s"
    and "\<And>s x ys. set_field (upd s x) ys = set_field s ys"
  shows "foldl upd s xs = set_field s (get s @ map f xs)"
proof (induction xs arbitrary: s)
  case (Cons x xs)
  then show ?case by (simp add: assms)
qed (simp add: assms)

lemma parse_domain_encode:
  assumes "domain_ok d" "length (encode_domain d) < 2 ^ 64"
  shows "parse_domain (encode_domain d) = Inr d"
proof -
  let ?attrs = "concat (map (\<lambda>a. bytes_field 26 (encode_attribute a)) (domain_attributes d))"
  from assms(2) have len: "length (bytes_field 18 (str_bytes (domain_value d))) < 2 ^ 64" "length ?attrs < 2 ^ 64"
    by (simp_all add: encode_domain_def)
  then have v: "length (str_bytes (domain_value d)) < 2 ^ 64"
    using length_bytes_field [of "str_bytes (domain_value d)" 18] by linarith
  have a: "length (encode_attribute a) < 2 ^ 64" if "a \<in> set (domain_attributes d)" for a
    using length_repeated [OF that, of encode_attribute 26] len(2) by linarith
  have ok: "text_ok (domain_value d)" "\<And>a. a \<in> set (domain_attributes d) \<Longrightarrow> text_ok a"
    using assms(1) by (auto simp: domain_ok_def list_all_iff)
  have attrs: "fold_fields domain_step s ?attrs =
      Inr (s\<lparr>domain_attributes := domain_attributes s @ domain_attributes d\<rparr>)" for s
  proof -
    let ?upd = "\<lambda>s k. s\<lparr>domain_attributes := domain_attributes s @ [k]\<rparr>"
    have "fold_fields domain_step s ?attrs = Inr (foldl ?upd s (domain_attributes d))"
      by (rule fold_fields_repeated_end) (use a ok in \<open>simp_all add: parse_attribute_encode\<close>)
    then show ?thesis
      using foldl_append_field [of domain_attributes ?upd "\<lambda>x. x" "\<lambda>s ys. s\<lparr>domain_attributes := ys\<rparr>"] by simp
  qed
  show ?thesis
    using v ok(1) unfolding parse_domain_def encode_domain_def
    by (simp add: fold_fields_varint fold_fields_bytes attrs)
qed

lemma parse_geosite_encode:
  assumes "geosite_ok g" "length (encode_geosite g) < 2 ^ 64"
  shows "parse_geosite_entry (encode_geosite g) = Inr g"
proof -
  let ?ds = "concat (map (\<lambda>d. bytes_field 18 (encode_domain d)) (geosite_domains g))"
  from assms(2) have len: "length (bytes_field 10 (str_bytes (geosite_country_code g))) < 2 ^ 64" "length ?ds < 2 ^ 64"
    by (simp_all add: encode_geosite_def)
  then have c: "length (str_bytes (geosite_country_code g)) < 2 ^ 64"
    using length_bytes_field [of "str_bytes (geosite_country_code g)" 10] by linarith
  have d: "length (encode_domain d) < 2 ^ 64" if "d \<in> set (geosite_domains g)" for d
    using length_repeated [OF that, of encode_domain 18] len(2) by linarith
  have ok: "text_ok (geosite_country_code g)" "\<And>d. d \<in> set (geosite_domains g) \<Longrightarrow> domain_ok d"
    using assms(1) by (auto simp: geosite_ok_def list_all_iff)
  have ds: "fold_fields geosite_step s ?ds = Inr (s\<lparr>geosite_domains := geosite_domains s @ geosite_domains g\<rparr>)" for s
  proof -
    let ?upd = "\<lambda>s d. s\<lparr>geosite_domains := geosite_domains s @ [d]\<rparr>"
    have "fold_fields geosite_step s ?ds = Inr (foldl ?upd s (geosite_domains g))"
      by (rule fold_fields_repeated_end) (use d ok in \<open>simp_all add: parse_domain_encode\<close>)
    then show ?thesis
      using foldl_append_field [of geosite_domains ?upd "\<lambda>x. x" "\<lambda>s ys. s\<lparr>geosite_domains := ys\<rparr>"] by simp
  qed
  show ?thesis
    using c ok(1) unfolding parse_geosite_entry_def encode_geosite_def
    by (simp add: fold_fields_bytes ds)
qed

lemma country_code_view_encode:
  "text_ok c \<Longrightarrow> length c < 2 ^ 64 \<Longrightarrow> country_code_view (bytes_field 10 (str_bytes c) @ rest) = Inr c"
  using read_length_delimited_encode [of "str_bytes c" rest]
  by (subst country_code_view.simps) (simp add: bytes_field_def)

interpretation geosite: geo_entries encode_geosite geosite_ok geosite_country_code parse_geosite_entry "\<lambda>g. g"
proof
  fix g assume g: "geosite_ok g" "length (encode_geosite g) < 2 ^ 64"
  then have "length (bytes_field 10 (str_bytes (geosite_country_code g))) < 2 ^ 64"
    by (simp add: encode_geosite_def)
  then have "length (geosite_country_code g) < 2 ^ 64"
    using length_bytes_field [of "str_bytes (geosite_country_code g)" 10] by simp
  then show "country_code_view (encode_geosite g) = Inr (geosite_country_code g)"
    using g(1) by (simp add: encode_geosite_def country_code_view_encode geosite_ok_def)
  show "parse_geosite_entry (encode_geosite g) = Inr g" using g by (rule parse_geosite_encode)
qed

text \<open>A country: its code, its prefixes and whether the match is inverted.\<close>

record country =
  country_name :: string
  country_prefixes :: "IpPrefix list"
  country_inverse :: bool

definition addr_octets :: "IpAddr \<Rightarrow> bytes" where
  "addr_octets a = (case a of V4 w \<Rightarrow> be_bytes 4 w | V6 w \<Rightarrow> be_bytes 16 w)"

definition encode_cidr :: "IpPrefix \<Rightarrow> bytes" where
  "encode_cidr p = bytes_field 10 (addr_octets (pfx_addr p)) @ varint_field 16 (ucast (pfx_bits p))"

definition encode_geoip :: "country \<Rightarrow> bytes" where
  "encode_geoip g =
     bytes_field 10 (str_bytes (country_name g)) @
     concat (map (\<lambda>p. bytes_field 18 (encode_cidr p)) (country_prefixes g)) @
     varint_field 24 (of_bool (country_inverse g))"

definition country_ok :: "country \<Rightarrow> bool" where
  "country_ok g \<longleftrightarrow> text_ok (country_name g) \<and> list_all prefix_ok (country_prefixes g)"

definition country_value :: "country \<Rightarrow> GeoIp" where
  "country_value g =
     \<lparr>geoip_country_code = country_name g, geoip_cidrs = map IpPrefix_to_string (country_prefixes g),
      geoip_inverse_match = country_inverse g\<rparr>"

lemma parse_cidr_encode:
  assumes "prefix_ok p"
  shows "parse_cidr (encode_cidr p) = Inr (IpPrefix_to_string p)"
proof -
  have o4: "be_word (be_bytes 4 w) = w" for w :: u32 by (rule be_word_be_bytes) simp
  have o16: "be_word (be_bytes 16 w) = w" for w :: u128 by (rule be_word_be_bytes) simp
  have x: "unat (ucast (pfx_bits p) :: u64) = unat (pfx_bits p)" by (rule unat_ucast_up) simp
  have "unat (pfx_bits p) < 2 ^ 8" using unsigned_less [of "pfx_bits p", where 'a = nat] by simp
  then have b: "\<not> 2 ^ 32 \<le> unat (ucast (pfx_bits p) :: u64)"
    and t: "take_bit 32 (unat (pfx_bits p)) = unat (pfx_bits p)"
    by (simp_all add: x take_bit_nat_eq_self)
  have down: "unat (ucast y :: u32) = take_bit 32 (unat y)" for y :: u64 by (simp add: unsigned_ucast_eq)
  have u: "unat (ucast (ucast (pfx_bits p) :: u64) :: u32) = unat (pfx_bits p)"
    by (simp only: down x t)
  show ?thesis
    using assms b u
    by (cases "pfx_addr p")
      (simp_all add: parse_cidr_def encode_cidr_def addr_octets_def fold_fields_bytes
        fold_fields_single_varint o4 o16 prefix_ok_def max_prefix_bits_def IpPrefix_to_string_def
        word_le_nat_alt word_less_nat_alt linorder_not_less)
qed

lemma parse_geoip_encode:
  assumes "country_ok g" "length (encode_geoip g) < 2 ^ 64"
  shows "parse_geoip_entry (encode_geoip g) = Inr (country_value g)"
proof -
  let ?ps = "concat (map (\<lambda>p. bytes_field 18 (encode_cidr p)) (country_prefixes g))"
  from assms(2) have len: "length (bytes_field 10 (str_bytes (country_name g))) < 2 ^ 64" "length ?ps < 2 ^ 64"
    by (simp_all add: encode_geoip_def)
  then have c: "length (str_bytes (country_name g)) < 2 ^ 64"
    using length_bytes_field [of "str_bytes (country_name g)" 10] by linarith
  have p: "length (encode_cidr p) < 2 ^ 64" if "p \<in> set (country_prefixes g)" for p
    using length_repeated [OF that, of encode_cidr 18] len(2) by linarith
  have ok: "text_ok (country_name g)" "\<And>p. p \<in> set (country_prefixes g) \<Longrightarrow> prefix_ok p"
    using assms(1) by (auto simp: country_ok_def list_all_iff)
  have ps: "fold_fields geoip_step s (?ps @ rest) =
      fold_fields geoip_step (s\<lparr>geoip_cidrs := geoip_cidrs s @ map IpPrefix_to_string (country_prefixes g)\<rparr>) rest"
    for s rest
  proof -
    let ?upd = "\<lambda>(s :: GeoIp) p. s\<lparr>geoip_cidrs := geoip_cidrs s @ [IpPrefix_to_string p]\<rparr>"
    have "fold_fields geoip_step s (?ps @ rest) = fold_fields geoip_step (foldl ?upd s (country_prefixes g)) rest"
      by (rule fold_fields_repeated) (use p ok in \<open>simp_all add: parse_cidr_encode\<close>)
    then show ?thesis
      using foldl_append_field [of geoip_cidrs ?upd IpPrefix_to_string "\<lambda>s ys. s\<lparr>geoip_cidrs := ys\<rparr>"] by simp
  qed
  show ?thesis
    using c ok(1) unfolding parse_geoip_entry_def encode_geoip_def
    by (simp add: fold_fields_bytes ps fold_fields_single_varint country_value_def)
qed

interpretation geoip: geo_entries encode_geoip country_ok country_name parse_geoip_entry country_value
proof
  fix g :: country
  assume g: "country_ok g" "length (encode_geoip g) < 2 ^ 64"
  then have "length (bytes_field 10 (str_bytes (country_name g))) < 2 ^ 64"
    by (simp add: encode_geoip_def)
  then have "length (country_name g) < 2 ^ 64"
    using length_bytes_field [of "str_bytes (country_name g)" 10] by simp
  then show "country_code_view (encode_geoip g) = Inr (country_name g)"
    using g(1) by (simp add: encode_geoip_def country_code_view_encode country_ok_def)
  show "parse_geoip_entry (encode_geoip g) = Inr (country_value g)" using g by (rule parse_geoip_encode)
qed

section \<open>Entries are slices of the file\<close>

lemma varint_loop_suffix: "varint_loop ss v input = Inr (n, rest) \<Longrightarrow> \<exists>pre. input = pre @ rest"
proof (induction ss v input rule: varint_loop.induct)
  case (3 shift shifts v byte rest')
  show ?case
  proof (cases "byte < 0x80")
    case True
    with 3 have "byte # rest' = [byte] @ rest" by (simp add: Let_def)
    then show ?thesis by blast
  next
    case False
    with 3 obtain pre where "rest' = pre @ rest" by (auto simp: Let_def)
    then have "byte # rest' = (byte # pre) @ rest" by simp
    then show ?thesis by blast
  qed
qed simp_all

lemma read_varint_suffix: "read_varint input = Inr (n, rest) \<Longrightarrow> \<exists>pre. input = pre @ rest"
  unfolding read_varint_def by (rule varint_loop_suffix)

lemma read_length_delimited_suffix:
  "read_length_delimited input = Inr (b, rest) \<Longrightarrow> \<exists>pre. input = pre @ b @ rest"
  by (auto simp: read_length_delimited_def bind_result_Inr split: if_splits dest!: read_varint_suffix)

lemma decode_entry_loop_slice:
  assumes "decode_entry_loop (length data) input code = Inr (start, entry)" "\<exists>pre. data = pre @ input"
  shows "\<exists>pre post. data = pre @ entry @ post \<and> start = length pre \<and>
    country_code_eq_ignore_ascii_case entry code = Inr True"
  using assms
proof (induction "length data" input code arbitrary: start entry rule: decode_entry_loop.induct)
  case (1 input code)
  from "1.prems"(1) obtain tag rest where v: "input \<noteq> []" "read_varint input = Inr (tag, rest)" and t: "tag = 10"
    by (auto simp: decode_entry_loop.simps [of _ input] split: if_splits sum.splits)
  from "1.prems"(1) v t obtain e rest' hit where d: "read_length_delimited rest = Inr (e, rest')"
    and h: "country_code_eq_ignore_ascii_case e code = Inr hit"
    by (auto simp: decode_entry_loop.simps [of _ input] split: sum.splits)
  from "1.prems"(2) read_varint_suffix [OF v(2)] read_length_delimited_suffix [OF d]
  obtain pre where pre: "data = pre @ e @ rest'" by (metis append.assoc)
  show ?case
  proof (cases hit)
    case True
    with "1.prems"(1) v t d h have "start = length data - length rest' - length e" "entry = e"
      by (auto simp: decode_entry_loop.simps [of _ input])
    then have "data = pre @ entry @ rest' \<and> start = length pre" by (simp add: pre)
    moreover have "country_code_eq_ignore_ascii_case entry code = Inr True"
      using True h \<open>entry = e\<close> by simp
    ultimately show ?thesis by (intro exI conjI) auto
  next
    case False
    with "1.prems"(1) v t d h have "decode_entry_loop (length data) rest' code = Inr (start, entry)"
      by (simp add: decode_entry_loop.simps [of _ input])
    moreover have "\<exists>pre. data = pre @ rest'" using pre by (metis append.assoc)
    ultimately show ?thesis using "1.hyps" v t d h False by blast
  qed
qed

lemma decode_range_slice:
  assumes "decode_entry_range data code = Inr (start, stop)"
  shows "start \<le> stop \<and> stop \<le> length data \<and>
    decode_entry_view_bytes data code = Inr (take (stop - start) (drop start data)) \<and>
    country_code_eq_ignore_ascii_case (take (stop - start) (drop start data)) code = Inr True"
proof -
  from assms obtain entry where e: "decode_entry_loop (length data) data code = Inr (start, entry)"
    and stop: "stop = start + length entry"
    by (auto simp: decode_entry_range_def map_result_Inr)
  from decode_entry_loop_slice [OF e] obtain pre post where
    "data = pre @ entry @ post" "start = length pre" "country_code_eq_ignore_ascii_case entry code = Inr True"
    by auto
  with e show ?thesis by (simp add: stop decode_entry_view_bytes_def)
qed

text \<open>Through the cached range or through the whole file, the loaders see the same entry.\<close>

lemma entry_by_range:
  assumes "decode_entry_view_bytes data code = Inr entry"
  shows "\<exists>start stop. decode_entry_range data code = Inr (start, stop) \<and> take (stop - start) (drop start data) = entry"
proof -
  from assms obtain start where "decode_entry_range data code = Inr (start, start + length entry)"
    by (auto simp: decode_entry_view_bytes_def decode_entry_range_def map_result_Inr)
  from decode_range_slice [OF this] assms this show ?thesis by auto
qed

lemma no_entry_by_range:
  "decode_entry_view_bytes data code = Inl e \<Longrightarrow> decode_entry_range data code = Inl e"
  by (cases "decode_entry_loop (length data) data code")
    (auto simp: decode_entry_view_bytes_def decode_entry_range_def)

lemma read_varint_reader_simps:
  "read_varint_reader [] = Inr None"
  "reader \<noteq> [] \<Longrightarrow> read_varint_reader reader = map_result Some (read_varint reader)"
  by (simp_all add: read_varint_reader_def read_varint_def)

lemma read_varint_nil: "read_varint [] = Inl FailedToReadBytes"
  by (simp add: read_varint_def varint_shifts_def upt_rec)

lemma decode_entry_reader_eq:
  "(\<forall>n. decode_entry_reader data code \<noteq> Inl (EntryTooLarge n)) \<Longrightarrow>
     decode_entry_reader data code = map_result snd (decode_entry_loop len data code)"
proof (induction data code rule: decode_entry_reader.induct)
  case (1 reader code)
  note rd = decode_entry_reader.simps [of reader] and lp = decode_entry_loop.simps [of len reader]
  consider "reader = []" | e where "reader \<noteq> []" "read_varint reader = Inl e"
    | tag rest where "reader \<noteq> []" "read_varint reader = Inr (tag, rest)" "tag \<noteq> 10 \<or> rest = []"
    | rest e where "reader \<noteq> []" "read_varint reader = Inr (10, rest)" "rest \<noteq> []" "read_varint rest = Inl e"
    | rest n r where "reader \<noteq> []" "read_varint reader = Inr (10, rest)" "rest \<noteq> []" "read_varint rest = Inr (n, r)"
    by (metis old.prod.exhaust sum.exhaust)
  then show ?case
  proof cases
    case (5 rest n r)
    note read = read_varint_reader_simps(2) [OF 5(1)] read_varint_reader_simps(2) [OF 5(3)]
    have small: "\<not> MAX_STREAMED_GEODATA_ENTRY_BYTES < n"
      using "1.prems" 5 read by (auto simp: rd)
    show ?thesis
    proof (cases "length r < unat n")
      case True
      with 5 read small show ?thesis by (simp add: rd lp read_length_delimited_def)
    next
      case False
      let ?entry = "take (unat n) r"
      show ?thesis
      proof (cases "country_code_view ?entry")
        case (Inl e)
        with False 5 read small show ?thesis
          by (simp add: rd lp read_length_delimited_def country_code_eq_ignore_ascii_case_def)
      next
        case (Inr c)
        show ?thesis
        proof (cases "eq_ignore_ascii_case c code")
          case True
          with Inr False 5 read small show ?thesis
            by (simp add: rd lp read_length_delimited_def country_code_eq_ignore_ascii_case_def)
        next
          case no: False
          have tail: "decode_entry_reader reader code = decode_entry_reader (drop (unat n) r) code"
            "map_result snd (decode_entry_loop len reader code) =
              map_result snd (decode_entry_loop len (drop (unat n) r) code)"
            using no Inr False 5 read small
            by (simp_all add: rd lp read_length_delimited_def country_code_eq_ignore_ascii_case_def)
          have "decode_entry_reader (drop (unat n) r) code =
              map_result snd (decode_entry_loop len (drop (unat n) r) code)"
            by (rule "1.IH" [of "Some (10, rest)" "(10, rest)" 10 rest "Some (n, r)" "(n, r)"])
              (use no Inr False 5 read small "1.prems" tail in simp_all)
          with tail show ?thesis by simp
        qed
      qed
    qed
  next
    case 1
    then show ?thesis by (simp add: decode_entry_reader.simps decode_entry_loop.simps read_varint_reader_simps)
  qed (auto simp: rd lp read_varint_reader_simps read_varint_nil read_length_delimited_def)
qed

section \<open>Properties\<close>

text \<open>
  C33. Whatever the bytes of the file are, a range the resolver caches lies inside the file, and
  its slice is the entry the loader decodes, whose code is the wanted one up to ASCII case.
\<close>

theorem decode_entry_range_in_file:
  assumes "decode_entry_range data code = Inr (start, stop)"
  shows "start \<le> stop \<and> stop \<le> length data \<and>
    decode_entry_view_bytes data code = Inr (take (stop - start) (drop start data)) \<and>
    country_code_eq_ignore_ascii_case (take (stop - start) (drop start data)) code = Inr True"
  by (rule decode_range_slice [OF assms])

theorem decode_entry_range_in_file_witness:
  "decode_entry_range [10, 4, 10, 2, 0x43, 0x4E, 10, 4, 10, 2, 0x55, 0x53] ''us'' = Inr (8, 12) \<and>
   decode_entry_view_bytes [10, 4, 10, 2, 0x43, 0x4E, 10, 4, 10, 2, 0x55, 0x53] ''us'' = Inr [10, 2, 0x55, 0x53]"
proof -
  have v: "read_varint (10 # bs) = Inr (10, bs)" "read_varint (4 # bs) = Inr (4, bs)" "read_varint (2 # bs) = Inr (2, bs)" for bs
    by (simp_all add: read_varint_def varint_shifts_def upt_rec)
  have "bytes_str [0x43, 0x4E] = ''CN''" "bytes_str [0x55, 0x53] = ''US''" by code_simp+
  then have c: "country_code_view [10, 2, 0x43, 0x4E] = Inr ''CN''" "country_code_view [10, 2, 0x55, 0x53] = Inr ''US''"
    by (simp_all add: country_code_view.simps v read_length_delimited_def string_view_def)
  have i: "eq_ignore_ascii_case ''CN'' ''us'' = False" "eq_ignore_ascii_case ''US'' ''us'' = True" by code_simp+
  have "decode_entry_range [10, 4, 10, 2, 0x43, 0x4E, 10, 4, 10, 2, 0x55, 0x53] ''us'' = Inr (8, 12)"
    by (simp add: decode_entry_range_def decode_entry_loop.simps v read_length_delimited_def c i
        country_code_eq_ignore_ascii_case_def)
  with decode_entry_range_in_file [OF this] show ?thesis by simp
qed







end
