(* ===== verification/Routing_Plan.thy ===== *)
theory Routing_Plan
  imports Geodata Routing_Matcher Bpf_Abi
    "HOL-Library.Char_ord" "HOL-Library.List_Lexorder" "HOL-Library.Product_Lexorder"
begin

text \<open>
  \<^verbatim>\<open>dae-resident-dataplane/src/host_routing_plan\<close>: the compiler from the routing section of the
  configuration to the flat plan that both the kernel maps and the userspace matcher are built
  from.  Rules are expanded (aliases, geodata), optimised (functions and parameters sorted,
  adjacent single-function rules merged, parameters deduplicated) and compiled to 24-byte match
  sets, prefix sets and domain sets.

  Strings are ordered by their bytes (\<^verbatim>\<open>str::cmp\<close>).  The asset files are the parameter
  \<open>assets\<close>, the \<^verbatim>\<open>regex\<close> and \<^verbatim>\<open>aho-corasick\<close> crates the parameter \<open>engines\<close>.  The resolver's caches of shared
  sets and the geodata report of the plan are left out.
\<close>

section \<open>Data\<close>

record MatchSetBytes =
  msb_bytes :: bytes
  msb_kind :: string
  msb_outbound :: u8
  msb_mark :: u32
  msb_must :: bool

record OutboundSpec =
  os_id :: u8
  os_mark :: u32
  os_must :: bool
  os_name :: string

record ResidentDomainSet =
  rds_rule_index :: nat
  rds_values :: SharedDomainSet

record ResidentRoutingPlan =
  plan_matches :: "MatchSetBytes list"
  plan_lpm_sets :: "IpPrefix list list"
  plan_domain_sets :: "ResidentDomainSet list"

text \<open>What the compiler reads of the configuration: the names of the groups, the rules and the fallback.\<close>

record RoutingConfig =
  config_groups :: "string list"
  config_rules :: "RoutingRule list"
  config_fallback :: DynamicFunctionValue

section \<open>Parsers\<close>

fun show_parse_int_error :: "ParseIntError \<Rightarrow> string" where
  "show_parse_int_error Empty = ''cannot parse integer from empty string''"
| "show_parse_int_error InvalidDigit = ''invalid digit found in string''"
| "show_parse_int_error PosOverflow = ''number too large to fit in target type''"

fun parse_l4_proto_loop :: "u8 \<Rightarrow> string list \<Rightarrow> (string, u8) result" where
  "parse_l4_proto_loop v [] = Inr v"
| "parse_l4_proto_loop v (item # items) =
     (if item = ''tcp'' then parse_l4_proto_loop (v OR L4_TCP) items
      else if item = ''udp'' then parse_l4_proto_loop (v OR L4_UDP) items
      else Inl (''unsupported l4proto: '' @ item))"

definition parse_l4_proto :: "string list \<Rightarrow> (string, u8) result" where
  "parse_l4_proto values =
     bind_result (parse_l4_proto_loop 0 values) (\<lambda>v. if v = 0 then Inl ''empty l4proto'' else Inr v)"

fun parse_ip_version_loop :: "u8 \<Rightarrow> string list \<Rightarrow> (string, u8) result" where
  "parse_ip_version_loop v [] = Inr v"
| "parse_ip_version_loop v (item # items) =
     (if item = ''4'' then parse_ip_version_loop (v OR IP_VERSION_4) items
      else if item = ''6'' then parse_ip_version_loop (v OR IP_VERSION_6) items
      else Inl (''unsupported ipversion: '' @ item))"

definition parse_ip_versions :: "string list \<Rightarrow> (string, u8) result" where
  "parse_ip_versions values =
     bind_result (parse_ip_version_loop 0 values) (\<lambda>v. if v = 0 then Inl ''empty ipversion'' else Inr v)"

definition parse_u16 :: "string \<Rightarrow> (ParseIntError, u16) result" where
  "parse_u16 s = map_result word_of_nat (parse_uint 10 65535 s)"

definition parse_port_range :: "string \<Rightarrow> (string, u16 \<times> u16) result" where
  "parse_port_range value =
     (case split_once (CHR ''-'') value of
        Some (start, stop) \<Rightarrow>
          bind_result (map_err (\<lambda>err. ''invalid port range start '' @ value @ '': '' @ show_parse_int_error err)
            (parse_u16 start)) (\<lambda>start.
          bind_result (map_err (\<lambda>err. ''invalid port range end '' @ value @ '': '' @ show_parse_int_error err)
            (parse_u16 stop)) (\<lambda>stop.
          if start > stop then Inl (''invalid descending port range: '' @ value) else Inr (start, stop)))
      | None \<Rightarrow>
          map_result (\<lambda>port. (port, port))
            (map_err (\<lambda>err. ''invalid port '' @ value @ '': '' @ show_parse_int_error err) (parse_u16 value)))"

definition parse_ip_prefix :: "string \<Rightarrow> (string, IpPrefix) result" where
  "parse_ip_prefix value =
     (let value = trim_char (CHR 0x22) (trim_char (CHR 0x27) value);
          invalid_ip = ''invalid ip '' @ value @ '': invalid IP address syntax''
      in case split_once (CHR ''/'') value of
           Some (addr, bits) \<Rightarrow>
             bind_result (ok_or invalid_ip (parse_ip_addr addr)) (\<lambda>addr.
             bind_result (map_err (\<lambda>err. ''invalid prefix bits '' @ value @ '': '' @ show_parse_int_error err)
               (map_result word_of_nat (parse_uint 10 255 bits))) (\<lambda>bits :: u8.
             let max_bits = (if is_ipv4 addr then 32 else 128)
             in if bits > max_bits
                then Inl (''invalid prefix bits '' @ show_nat (unat bits) @ '' for '' @ show_ip_addr addr)
                else map_err show_routing_error (IpPrefix_new addr bits)))
         | None \<Rightarrow>
             bind_result (ok_or invalid_ip (parse_ip_addr value)) (\<lambda>addr.
               map_err show_routing_error (IpPrefix_new addr (if is_ipv4 addr then 32 else 128))))"

definition parse_ip_prefix_group :: "string \<Rightarrow> string list \<Rightarrow> (string, IpPrefix list) result" where
  "parse_ip_prefix_group pkey values =
     (if pkey = [] then collect_results parse_ip_prefix values
      else Inl (''unsupported resident ip parameter key: '' @ pkey))"

definition parse_mac_prefix :: "string \<Rightarrow> (string, IpPrefix) result" where
  "parse_mac_prefix value =
     (let parts = split_on (CHR '':'') value
      in if length parts \<noteq> 6 then Inl (''invalid mac address: '' @ value)
         else bind_result
                (collect_results (\<lambda>part.
                   map_err (\<lambda>err. ''invalid mac address '' @ value @ '': '' @ show_parse_int_error err)
                     (map_result word_of_nat (parse_uint 16 255 part))) parts) (\<lambda>octets :: bytes.
              map_err show_routing_error (IpPrefix_new (V6 (be_word (replicate 10 0 @ octets))) 128)))"

definition strip_prefix_either :: "string \<Rightarrow> string \<Rightarrow> string \<Rightarrow> string option" where
  "strip_prefix_either p q s = (case strip_prefix p s of Some t \<Rightarrow> Some t | None \<Rightarrow> strip_prefix q s)"

definition parse_u32_auto :: "string \<Rightarrow> (ParseIntError, u32) result" where
  "parse_u32_auto value =
     map_result word_of_nat
       (case strip_prefix_either ''0x'' ''0X'' value of
          Some hex \<Rightarrow> parse_uint 16 (2 ^ 32 - 1) hex
        | None \<Rightarrow> parse_uint 10 (2 ^ 32 - 1) value)"

fun parse_u64_base0 :: "string \<Rightarrow> (ParseIntError, nat) result" where
  "parse_u64_base0 [] = parse_uint 10 (2 ^ 64 - 1) []"
| "parse_u64_base0 (c # cs) =
     (if c = CHR ''+'' then parse_u64_base0 cs
      else let value = c # cs
           in case strip_prefix_either ''0x'' ''0X'' value of
                Some hex \<Rightarrow> parse_uint 16 (2 ^ 64 - 1) hex
              | None \<Rightarrow>
             (case strip_prefix_either ''0o'' ''0O'' value of
                Some octal \<Rightarrow> parse_uint 8 (2 ^ 64 - 1) octal
              | None \<Rightarrow>
             (case strip_prefix_either ''0b'' ''0B'' value of
                Some binary \<Rightarrow> parse_uint 2 (2 ^ 64 - 1) binary
              | None \<Rightarrow>
                  if length value > 1 \<and> c = CHR ''0'' \<and> is_ascii_digit (value ! 1)
                  then parse_uint 8 (2 ^ 64 - 1) value
                  else parse_uint 10 (2 ^ 64 - 1) value)))"

definition parse_dscp :: "string \<Rightarrow> (string, u8) result" where
  "parse_dscp value =
     bind_result (map_err (\<lambda>err. ''invalid dscp '' @ value @ '': '' @ show_parse_int_error err)
       (parse_u64_base0 value)) (\<lambda>parsed.
     if parsed > 63 then Inl (''invalid dscp '' @ value @ '': value '' @ show_nat parsed @ '' exceeds 63'')
     else Inr (word_of_nat parsed))"

section \<open>Outbounds\<close>

fun outbound_groups_loop :: "nat \<Rightarrow> string list \<Rightarrow> (string \<rightharpoonup> u8) \<Rightarrow> (string, string \<rightharpoonup> u8) result" where
  "outbound_groups_loop index [] groups = Inr groups"
| "outbound_groups_loop index (name # names) groups =
     (let outbound = index + unat USER_DEFINED_MIN
      in if outbound > unat USER_DEFINED_MAX then Inl ''too many resident outbounds''
         else if groups name \<noteq> None then Inl (''duplicated outbound name: '' @ name)
         else outbound_groups_loop (Suc index) names (groups(name \<mapsto> word_of_nat outbound)))"

definition outbound_groups :: "string list \<Rightarrow> (string, string \<rightharpoonup> u8) result" where
  "outbound_groups names = outbound_groups_loop 0 names [''direct'' \<mapsto> DIRECT, ''block'' \<mapsto> BLOCK]"

fun outbound_params :: "Param list \<Rightarrow> u32 \<Rightarrow> bool \<Rightarrow> (string, u32 \<times> bool) result" where
  "outbound_params [] mark must = Inr (mark, must)"
| "outbound_params (param # params) mark must =
     (if param_key param = ''mark''
      then bind_result (map_err (\<lambda>err. ''invalid outbound mark '' @ param_val param @ '': '' @ show_parse_int_error err)
             (parse_u32_auto (param_val param))) (\<lambda>mark. outbound_params params mark must)
      else if param_key param = []
      then if param_val param = ''must'' then outbound_params params mark True
           else Inl (''unknown outbound param: '' @ param_val param)
      else Inl (''unknown outbound param key: '' @ param_key param))"

definition parse_outbound :: "Function \<Rightarrow> (string \<rightharpoonup> u8) \<Rightarrow> (string, OutboundSpec) result" where
  "parse_outbound f groups =
     bind_result (outbound_params (fn_params f) 0 False) (\<lambda>(mark, must).
     bind_result
       (if fn_name f = ''must_rules'' then Inr MUST_RULES
        else ok_or (''outbound group not found: '' @ fn_name f) (groups (fn_name f))) (\<lambda>id.
     Inr \<lparr>os_id = id, os_mark = mark, os_must = must, os_name = fn_name f\<rparr>))"

fun dynamic_to_single_function :: "DynamicFunctionValue \<Rightarrow> (string, Function) result" where
  "dynamic_to_single_function (DynString name) = Inr (Function name False [])"
| "dynamic_to_single_function (DynFunction f) = Inr f"
| "dynamic_to_single_function (DynFunctionList fs) =
     (if length fs = 1 then Inr (fs ! 0)
      else Inl (''expected exactly 1 fallback function, got '' @ show_nat (length fs)))"
| "dynamic_to_single_function DynNil = Inl ''unsupported fallback type nil''"

definition logical_outbound :: "OutboundIndex \<Rightarrow> OutboundSpec" where
  "logical_outbound index = \<lparr>os_id = index, os_mark = 0, os_must = False, os_name = show_OutboundIndex index\<rparr>"

definition match_set :: "bytes \<Rightarrow> bool \<Rightarrow> u8 \<Rightarrow> OutboundSpec \<Rightarrow> string \<Rightarrow> MatchSetBytes" where
  "match_set value negated match_type outbound kind =
     \<lparr>msb_bytes = value @ [of_bool negated, match_type, os_id outbound, of_bool (os_must outbound)] @
        le_bytes 4 (os_mark outbound),
      msb_kind = kind, msb_outbound = os_id outbound, msb_mark = os_mark outbound, msb_must = os_must outbound\<rparr>"

section \<open>Optimiser\<close>

definition aliased_function :: "Function \<Rightarrow> Function" where
  "aliased_function f =
     (if fn_name f = ''dport'' then Function ''port'' (fn_not f) (fn_params f)
      else if fn_name f = ''dip'' then Function ''ip'' (fn_not f) (fn_params f)
      else f)"

definition normalize_param :: "Function \<Rightarrow> Param \<Rightarrow> Param" where
  "normalize_param f p =
     (if fn_name f = ''domain''
      then if param_key p = [] \<or> param_key p = ''domain''
           then Param ''suffix'' (param_val p) (param_and_functions p) (param_annotation p)
           else if param_key p = ''contains''
           then Param ''keyword'' (param_val p) (param_and_functions p) (param_annotation p)
           else p
      else p)"

definition expand_param :: "assets \<Rightarrow> Function \<Rightarrow> Param \<Rightarrow> (string, Param list) result" where
  "expand_param assets f p =
     (if param_key p = ''geosite'' then load_geosite_params assets ''geosite'' (param_val p)
      else if param_key p = ''geoip'' then load_geoip_params assets ''geoip'' (param_val p)
      else if param_key p = ''ext''
      then bind_result (ok_or (''ext parameter must be file:code, got '' @ param_val p)
             (split_once (CHR '':'') (param_val p))) (\<lambda>(filename, code).
           if fn_name f = ''domain'' \<or> fn_name f = ''qname'' then load_geosite_params assets filename code
           else if fn_name f = ''ip'' then load_geoip_params assets filename code
           else Inl (''unsupported extension file extraction in function '' @ fn_name f))
      else Inr [normalize_param f p])"

definition expand_function_params :: "assets \<Rightarrow> Function \<Rightarrow> (string, Function) result" where
  "expand_function_params assets f =
     map_result (\<lambda>pss. Function (fn_name f) (fn_not f) (concat pss))
       (collect_results (expand_param assets f) (fn_params f))"

definition prepare_rule :: "assets \<Rightarrow> RoutingRule \<Rightarrow> (string, RoutingRule) result" where
  "prepare_rule assets rule =
     map_result (\<lambda>fs. rule\<lparr>rule_and_functions := sort_key fn_name fs\<rparr>)
       (collect_results (\<lambda>f. expand_function_params assets (aliased_function f)) (rule_and_functions rule))"

definition can_merge_singleton_rule :: "RoutingRule \<Rightarrow> RoutingRule \<Rightarrow> bool" where
  "can_merge_singleton_rule left right \<longleftrightarrow>
     length (rule_and_functions left) = 1 \<and> length (rule_and_functions right) = 1 \<and>
     fn_name (rule_and_functions left ! 0) = fn_name (rule_and_functions right ! 0) \<and>
     fn_not (rule_and_functions left ! 0) = fn_not (rule_and_functions right ! 0) \<and>
     rule_outbound left = rule_outbound right"

definition append_singleton :: "RoutingRule \<Rightarrow> RoutingRule \<Rightarrow> RoutingRule" where
  "append_singleton left right =
     (let f = rule_and_functions left ! 0
      in left\<lparr>rule_and_functions :=
           [Function (fn_name f) (fn_not f) (fn_params f @ fn_params (rule_and_functions right ! 0))]\<rparr>)"

fun merge_rules :: "RoutingRule list \<Rightarrow> RoutingRule list \<Rightarrow> RoutingRule list" where
  "merge_rules merged [] = merged"
| "merge_rules merged (rule # rules) =
     (if merged \<noteq> [] \<and> can_merge_singleton_rule (last merged) rule
      then merge_rules (butlast merged @ [append_singleton (last merged) rule]) rules
      else merge_rules (merged @ [rule]) rules)"

definition sort_function_params :: "Function \<Rightarrow> Function" where
  "sort_function_params f =
     Function (fn_name f) (fn_not f)
       (if fn_name f = ''ip'' \<or> fn_name f = ''sip''
        then sort_key (\<lambda>p. (CHR '':'' \<in> set (param_val p), param_val p, param_key p)) (fn_params f)
        else sort_key (\<lambda>p. (param_key p, param_val p)) (fn_params f))"

text \<open>\<^verbatim>\<open>dedup_by\<close> drops an element that agrees with the last one kept.\<close>

fun dedup_params :: "Param list \<Rightarrow> Param list" where
  "dedup_params [] = []"
| "dedup_params [p] = [p]"
| "dedup_params (p # q # ps) =
     (if param_key q = param_key p \<and> param_val q = param_val p then dedup_params (p # ps)
      else p # dedup_params (q # ps))"

definition deduplicate_function_params :: "Function \<Rightarrow> Function" where
  "deduplicate_function_params f = Function (fn_name f) (fn_not f) (dedup_params (fn_params f))"

definition optimize_routing_rules :: "assets \<Rightarrow> RoutingRule list \<Rightarrow> (string, RoutingRule list) result" where
  "optimize_routing_rules assets rules =
     map_result (\<lambda>prepared.
         map (\<lambda>rule. rule\<lparr>rule_and_functions :=
                map (\<lambda>f. deduplicate_function_params (sort_function_params f)) (rule_and_functions rule)\<rparr>)
           (merge_rules [] prepared))
       (collect_results (prepare_rule assets) rules)"

section \<open>Compiler\<close>

fun group_order :: "string list \<Rightarrow> Param list \<Rightarrow> string list" where
  "group_order order [] = order"
| "group_order order (p # ps) =
     group_order (if param_key p \<in> set order then order else order @ [param_key p]) ps"

definition group_values :: "Param list \<Rightarrow> string \<rightharpoonup> string list" where
  "group_values params =
     fold (\<lambda>p m. m(param_key p \<mapsto> (case m (param_key p) of None \<Rightarrow> [] | Some vs \<Rightarrow> vs) @ [param_val p]))
       params Map.empty"

definition grouped_params :: "Param list \<Rightarrow> (string \<times> string list) list" where
  "grouped_params params =
     map (\<lambda>key. (key, case group_values params key of None \<Rightarrow> [] | Some vs \<Rightarrow> vs)) (group_order [] params)"

definition chained_sets :: "bool \<Rightarrow> u8 \<Rightarrow> string \<Rightarrow> OutboundSpec \<Rightarrow> bytes list \<Rightarrow> MatchSetBytes list" where
  "chained_sets negated match_type kind outbound raws =
     map (\<lambda>(index, raw).
        match_set raw negated match_type
          (if index = length raws - 1 then outbound else logical_outbound LOGICAL_OR) kind) (enumerate 0 raws)"

definition shared_domain_set :: "engines \<Rightarrow> string \<Rightarrow> string list \<Rightarrow> (string, SharedDomainSet) result" where
  "shared_domain_set E key values =
     bind_result (map_err (\<lambda>err. ''resident shared domain set key: '' @ show_routing_error err)
       (DomainKey_try_from key)) (\<lambda>key.
     map_err (\<lambda>err. ''build shared resident domain set: '' @ show_routing_error err)
       (SharedDomainSet_from_vec E values key))"

definition add_function_match_sets ::
    "engines \<Rightarrow> ResidentRoutingPlan \<Rightarrow> Function \<Rightarrow> string \<Rightarrow> string list \<Rightarrow> OutboundSpec \<Rightarrow>
      (string, ResidentRoutingPlan) result" where
  "add_function_match_sets E plan f pkey values outbound =
     (let name = fn_name f; push = (\<lambda>sets. plan\<lparr>plan_matches := plan_matches plan @ sets\<rparr>)
      in if name = ''domain''
         then if pkey \<notin> {''full'', ''keyword'', ''suffix'', ''regex''}
              then Inl (''unsupported resident domain parameter key: '' @ pkey)
              else map_result (\<lambda>set.
                     (push [match_set (replicate 16 0) (fn_not f) MATCH_TYPE_DOMAIN_SET outbound ''DomainSet''])
                       \<lparr>plan_domain_sets := plan_domain_sets plan @
                          [\<lparr>rds_rule_index = length (plan_matches plan), rds_values = set\<rparr>]\<rparr>)
                     (shared_domain_set E pkey values)
         else if name \<in> {''ip'', ''sip'', ''mac''}
         then let lpm_index = (word_of_nat (length (plan_lpm_sets plan)) :: u32);
                  (kind, kind_name) = (if name = ''sip'' then (MATCH_TYPE_SOURCE_IP_SET, ''SourceIpSet'')
                                       else if name = ''mac'' then (MATCH_TYPE_MAC, ''Mac'')
                                       else (MATCH_TYPE_IP_SET, ''IpSet''))
              in map_result (\<lambda>prefixes.
                   (push [match_set (le_bytes 4 lpm_index @ replicate 12 0) (fn_not f) kind outbound kind_name])
                     \<lparr>plan_lpm_sets := plan_lpm_sets plan @ [prefixes]\<rparr>)
                   (if name = ''mac'' then collect_results parse_mac_prefix values
                    else parse_ip_prefix_group pkey values)
         else if name \<in> {''port'', ''sport''}
         then map_result (\<lambda>ranges.
                push (chained_sets (fn_not f)
                  (if name = ''sport'' then MATCH_TYPE_SOURCE_PORT else MATCH_TYPE_PORT)
                  (if name = ''sport'' then ''SourcePort'' else ''Port'') outbound
                  (map (\<lambda>(start, stop). le_bytes 2 start @ le_bytes 2 stop @ replicate 12 0) ranges)))
                (collect_results parse_port_range values)
         else if name = ''l4proto''
         then map_result (\<lambda>v. push [match_set (v # replicate 15 0) (fn_not f) MATCH_TYPE_L4_PROTO outbound ''L4Proto''])
                (parse_l4_proto values)
         else if name = ''ipversion''
         then map_result (\<lambda>v. push [match_set (v # replicate 15 0) (fn_not f) MATCH_TYPE_IP_VERSION outbound ''IpVersion''])
                (parse_ip_versions values)
         else if name = ''pname''
         then Inr (push (chained_sets (fn_not f) MATCH_TYPE_PROCESS_NAME ''ProcessName'' outbound
                (map process_name_bytes values)))
         else if name = ''dscp''
         then map_result (\<lambda>vs.
                push (chained_sets (fn_not f) MATCH_TYPE_DSCP ''Dscp'' outbound (map (\<lambda>v. v # replicate 15 0) vs)))
                (collect_results parse_dscp values)
         else Inl (''unsupported resident routing function: '' @ name))"

fun compile_groups ::
    "engines \<Rightarrow> Function \<Rightarrow> OutboundSpec \<Rightarrow> (string \<times> string list) list \<Rightarrow> ResidentRoutingPlan \<Rightarrow>
      (string, ResidentRoutingPlan) result" where
  "compile_groups E f outbound [] plan = Inr plan"
| "compile_groups E f outbound ((key, values) # groups) plan =
     bind_result (add_function_match_sets E plan f key values
       (if groups = [] then outbound else logical_outbound LOGICAL_OR))
       (compile_groups E f outbound groups)"

fun compile_functions ::
    "engines \<Rightarrow> OutboundSpec \<Rightarrow> Function list \<Rightarrow> ResidentRoutingPlan \<Rightarrow> (string, ResidentRoutingPlan) result" where
  "compile_functions E outbound [] plan = Inr plan"
| "compile_functions E outbound (f # fs) plan =
     (let grouped = grouped_params (fn_params f)
      in if grouped = [] then Inl (''function '' @ fn_name f @ '' has no params'')
         else bind_result
                (compile_groups E f (if fs = [] then outbound else logical_outbound LOGICAL_AND) grouped plan)
                (compile_functions E outbound fs))"

definition compile_rule ::
    "engines \<Rightarrow> (string \<rightharpoonup> u8) \<Rightarrow> RoutingRule \<Rightarrow> ResidentRoutingPlan \<Rightarrow> (string, ResidentRoutingPlan) result" where
  "compile_rule E groups rule plan =
     bind_result (parse_outbound (rule_outbound rule) groups)
       (\<lambda>outbound. compile_functions E outbound (rule_and_functions rule) plan)"

fun compile_rules ::
    "engines \<Rightarrow> (string \<rightharpoonup> u8) \<Rightarrow> nat \<Rightarrow> RoutingRule list \<Rightarrow> ResidentRoutingPlan \<Rightarrow>
      (string, ResidentRoutingPlan) result" where
  "compile_rules E groups index [] plan = Inr plan"
| "compile_rules E groups index (rule # rules) plan =
     bind_result
       (map_err (\<lambda>err. ''resident routing rule '' @ show_nat index @ '' failed after generic optimization: '' @ err @
            ''; rule='' @ RoutingRule_to_config_string False False True rule)
          (compile_rule E groups rule plan))
       (compile_rules E groups (Suc index) rules)"

definition build_routing_plan ::
    "engines \<Rightarrow> assets \<Rightarrow> RoutingConfig \<Rightarrow> (string, ResidentRoutingPlan) result" where
  "build_routing_plan E assets config =
     bind_result (outbound_groups (config_groups config)) (\<lambda>groups.
     bind_result (optimize_routing_rules assets (config_rules config)) (\<lambda>rules.
     bind_result (compile_rules E groups 0 rules
       \<lparr>plan_matches = [], plan_lpm_sets = [], plan_domain_sets = []\<rparr>) (\<lambda>plan.
     bind_result (dynamic_to_single_function (config_fallback config)) (\<lambda>fallback.
     bind_result (parse_outbound fallback groups) (\<lambda>fallback.
     let plan = plan\<lparr>plan_matches := plan_matches plan @
           [match_set (replicate 16 0) False MATCH_TYPE_FALLBACK fallback ''Fallback'']\<rparr>
     in if length (plan_matches plan) > unat MAX_MATCH_SET_LEN
        then Inl (''resident routing_map match set overflow: '' @ show_nat (length (plan_matches plan)) @
               '' > '' @ show_nat (unat MAX_MATCH_SET_LEN))
        else Inr plan)))))"

section \<open>Typed match sets\<close>

definition match_set_typed :: "MatchSetBytes \<Rightarrow> (string, RoutingMatchSet) result" where
  "match_set_typed m =
     (let b = msb_bytes m; kind = b ! 17;
          lpm_index = le_word [b ! 0, b ! 1, b ! 2, b ! 3];
          start = le_word [b ! 0, b ! 1]; stop = le_word [b ! 2, b ! 3]
      in map_result (\<lambda>k. \<lparr>rms_kind = k, rms_outbound = msb_outbound m, rms_not = b ! 16 \<noteq> 0,
                          rms_mark = msb_mark m, rms_must = msb_must m\<rparr>)
           (if kind = MATCH_TYPE_DOMAIN_SET then Inr KDomainSet
            else if kind = MATCH_TYPE_IP_SET then Inr (KIpSet lpm_index)
            else if kind = MATCH_TYPE_SOURCE_IP_SET then Inr (KSourceIpSet lpm_index)
            else if kind = MATCH_TYPE_PORT then Inr (KPort start stop)
            else if kind = MATCH_TYPE_SOURCE_PORT then Inr (KSourcePort start stop)
            else if kind = MATCH_TYPE_L4_PROTO then Inr (KL4Proto (b ! 0))
            else if kind = MATCH_TYPE_IP_VERSION then Inr (KIpVersion (b ! 0))
            else if kind = MATCH_TYPE_MAC then Inr (KMac lpm_index)
            else if kind = MATCH_TYPE_PROCESS_NAME then Inr (KProcessName (take 16 b))
            else if kind = MATCH_TYPE_DSCP then Inr (KDscp (b ! 0))
            else if kind = MATCH_TYPE_FALLBACK then Inr KFallback
            else Inl (''unknown resident routing match type: '' @ show_nat (unat kind))))"

definition userspace_matcher_typed_sets ::
    "ResidentRoutingPlan \<Rightarrow>
      (string, RoutingSharedDomainSet list \<times> RoutingSharedLpmSet list \<times> RoutingMatchSet list) result" where
  "userspace_matcher_typed_sets plan =
     map_result (\<lambda>matches.
        (map (\<lambda>set. \<lparr>rsds_bit = rds_rule_index set, rsds_patterns = rds_values set\<rparr>) (plan_domain_sets plan),
         map (\<lambda>(index, prefixes). \<lparr>rsls_index = word_of_nat index, rsls_prefixes = SharedIpPrefixSet_new prefixes\<rparr>)
           (enumerate 0 (plan_lpm_sets plan)),
         matches))
       (collect_results match_set_typed (plan_matches plan))"

definition build_resident_userspace_routing_matcher ::
    "engines \<Rightarrow> assets \<Rightarrow> RoutingConfig \<Rightarrow> (string, RoutingMatcher) result" where
  "build_resident_userspace_routing_matcher E assets config =
     bind_result (build_routing_plan E assets config) (\<lambda>plan.
     map_result (\<lambda>(domain_sets, lpm_sets, matches). from_shared_typed_sets domain_sets lpm_sets matches)
       (userspace_matcher_typed_sets plan))"

end
