(* ===== verification/Plan_Compiler.thy ===== *)
theory Plan_Compiler
  imports Routing_Plan
begin

text \<open>
  What the compiler of \<^verbatim>\<open>host_routing_plan/compile.rs\<close> produces.  The meaning of a routing
  configuration is given first, on its functions and parameters.  A function becomes a run of match
  sets (a segment), a rule the segments of its functions joined by \<^verbatim>\<open>LOGICAL_AND\<close>; the invariant
  of the plan and the meaning of the appended match sets are carried through \<open>add_function_match_sets\<close>,
  \<open>compile_groups\<close>, \<open>compile_functions\<close> and \<open>compile_rules\<close>.
\<close>

section \<open>Meaning of the configuration\<close>

definition proto_flag :: "string \<Rightarrow> u8" where
  "proto_flag v = (if v = ''tcp'' then L4_TCP else L4_UDP)"

definition version_flag :: "string \<Rightarrow> u8" where
  "version_flag v = (if v = ''4'' then IP_VERSION_4 else IP_VERSION_6)"

text \<open>When a parameter of a routing function holds for a query.\<close>

definition param_holds :: "engines \<Rightarrow> Query \<Rightarrow> string \<Rightarrow> string \<Rightarrow> string \<Rightarrow> bool" where
  "param_holds E q name key v \<longleftrightarrow>
     (if name = ''domain''
      then q_domain q \<noteq> [] \<and>
        (\<exists>k. DomainKey_try_from key = Inr k \<and> pattern_matches E k v (normalize_pattern (q_domain q)))
      else if name = ''ip'' then \<exists>p. parse_ip_prefix v = Inr p \<and> IpPrefix_contains p (q_dest q)
      else if name = ''sip''
      then \<exists>p a. parse_ip_prefix v = Inr p \<and> q_source q = Some a \<and> IpPrefix_contains p a
      else if name = ''mac''
      then \<exists>p a. parse_mac_prefix v = Inr p \<and> mac_addr q = Some a \<and> IpPrefix_contains p a
      else if name = ''port''
      then \<exists>a b. parse_port_range v = Inr (a, b) \<and> a \<le> q_dest_port q \<and> q_dest_port q \<le> b
      else if name = ''sport''
      then \<exists>a b p. parse_port_range v = Inr (a, b) \<and> q_source_port q = Some p \<and> a \<le> p \<and> p \<le> b
      else if name = ''l4proto'' then \<exists>p. q_l4proto q = Some p \<and> p AND proto_flag v \<noteq> 0
      else if name = ''ipversion'' then effective_ip_version q AND version_flag v \<noteq> 0
      else if name = ''pname''
      then \<exists>n. q_process_name q = Some n \<and> n \<noteq> [] \<and> process_name_bytes v = process_name_bytes n \<and>
        process_name_bytes v ! 0 \<noteq> 0
      else if name = ''dscp'' then \<exists>d. parse_dscp v = Inr d \<and> q_dscp q = Some d
      else False)"

definition function_holds :: "engines \<Rightarrow> Query \<Rightarrow> Function \<Rightarrow> bool" where
  "function_holds E q f \<longleftrightarrow>
     (\<exists>p \<in> set (fn_params f). param_holds E q (fn_name f) (param_key p) (param_val p)) \<noteq> fn_not f"

definition config_rule_holds :: "engines \<Rightarrow> Query \<Rightarrow> RoutingRule \<Rightarrow> bool" where
  "config_rule_holds E q r \<longleftrightarrow>
     rule_and_functions r \<noteq> [] \<and> (\<forall>f \<in> set (rule_and_functions r). function_holds E q f)"

text \<open>
  The first rule that holds decides, \<^verbatim>\<open>must_rules\<close> marks what follows, the fallback decides
  otherwise.  Outbounds are resolved by the groups of the configuration.
\<close>

definition spec_outcome :: "bool \<Rightarrow> OutboundSpec \<Rightarrow> MatchOutcome" where
  "spec_outcome must out =
     \<lparr>outcome_outbound = os_id out, outcome_mark = os_mark out, outcome_must = os_must out \<or> must\<rparr>"

fun decide_rules ::
    "engines \<Rightarrow> Query \<Rightarrow> (bool \<Rightarrow> MatchOutcome option) \<Rightarrow> bool \<Rightarrow> (RoutingRule \<times> OutboundSpec) list \<Rightarrow>
      MatchOutcome option" where
  "decide_rules E q otherwise must [] = otherwise must"
| "decide_rules E q otherwise must ((r, out) # rs) =
     (if \<not> config_rule_holds E q r then decide_rules E q otherwise must rs
      else if os_id out = MUST_RULES then decide_rules E q otherwise True rs
      else Some (spec_outcome must out))"

definition fallback_outcome :: "OutboundSpec \<Rightarrow> bool \<Rightarrow> MatchOutcome option" where
  "fallback_outcome out must = (if os_id out = MUST_RULES then None else Some (spec_outcome must out))"

section \<open>Segments of match sets\<close>

text \<open>A run of match sets that stands for one function: alternatives, the last of which carries the outbound.\<close>

definition segment :: "clause list \<Rightarrow> bool \<Rightarrow> bool \<Rightarrow> OutboundSpec \<Rightarrow> bool" where
  "segment cs hit neg out \<longleftrightarrow>
     cs \<noteq> [] \<and> list_all (\<lambda>c. cl_out c = LOGICAL_OR) (butlast cs) \<and> list_ex cl_hit cs = hit \<and>
     cl_out (last cs) = os_id out \<and> cl_not (last cs) = neg \<and> cl_mark (last cs) = os_mark out \<and>
     cl_must (last cs) = os_must out"

lemma logical_outbound_simps [simp]:
  "os_id (logical_outbound i) = i" "os_mark (logical_outbound i) = 0" "os_must (logical_outbound i) = False"
  by (simp_all add: logical_outbound_def)

lemma segment_outs:
  assumes "segment cs hit neg out" "c \<in> set cs"
  shows "cl_out c = LOGICAL_OR \<or> cl_out c = os_id out"
proof -
  have "cs = butlast cs @ [last cs]" using assms by (simp add: segment_def)
  with assms(2) have "c \<in> set (butlast cs) \<or> c = last cs" by (metis set_ConsD list.set(1) Un_iff empty_iff set_append)
  with assms(1) show ?thesis by (auto simp: segment_def list_all_iff)
qed

lemma segment_append:
  assumes "segment cs a neg (logical_outbound LOGICAL_OR)" "segment ds b neg out"
  shows "segment (cs @ ds) (a \<or> b) neg out"
  using assms segment_outs [OF assms(1)] by (auto simp: segment_def butlast_append list_all_iff)

lemma holds_from_segment:
  assumes "segment cs hit neg out" "os_id out \<noteq> LOGICAL_OR"
  shows "holds_from good (cs @ rest) \<longleftrightarrow> (good \<or> hit) \<noteq> neg \<and> holds_from False rest"
proof -
  obtain xs c where cs: "cs = xs @ [c]" using assms(1) by (metis append_butlast_last_id segment_def)
  have "holds_from good (xs @ [c] @ rest) \<longleftrightarrow> (good \<or> list_ex cl_hit xs \<or> cl_hit c) \<noteq> cl_not c \<and> holds_from False rest"
    if "list_all (\<lambda>c. cl_out c = LOGICAL_OR) xs" "cl_out c \<noteq> LOGICAL_OR" for good
    using that by (induction xs arbitrary: good) auto
  with assms show ?thesis by (auto simp: segment_def cs)
qed

text \<open>A rule: the segments of its functions, joined by \<^verbatim>\<open>LOGICAL_AND\<close>.\<close>

fun rule_segments :: "(bool \<times> bool) list \<Rightarrow> OutboundSpec \<Rightarrow> clause list \<Rightarrow> bool" where
  "rule_segments [] out cs \<longleftrightarrow> cs = []"
| "rule_segments [(hit, neg)] out cs \<longleftrightarrow> segment cs hit neg out"
| "rule_segments ((hit, neg) # h # hs) out cs \<longleftrightarrow>
     (\<exists>ds es. cs = ds @ es \<and> segment ds hit neg (logical_outbound LOGICAL_AND) \<and> rule_segments (h # hs) out es)"

lemma rule_segments_holds:
  "rule_segments hs out cs \<Longrightarrow> hs \<noteq> [] \<Longrightarrow> os_id out \<noteq> LOGICAL_OR \<Longrightarrow>
     rule_holds cs = (\<forall>(hit, neg) \<in> set hs. hit \<noteq> neg)"
  unfolding rule_holds_from
proof (induction hs out cs rule: rule_segments.induct)
  case (2 hit neg out cs)
  then show ?case using holds_from_segment [of cs hit neg out False "[]"] by simp
next
  case (3 hit neg h hs out cs)
  then obtain ds es where cs: "cs = ds @ es" and ds: "segment ds hit neg (logical_outbound LOGICAL_AND)"
    and es: "rule_segments (h # hs) out es" by auto
  have "holds_from False cs \<longleftrightarrow> hit \<noteq> neg \<and> holds_from False es"
    using holds_from_segment [OF ds] by (simp add: cs outbound_consts)
  with 3 es show ?case by simp
qed simp

lemma rule_segments_shape:
  "rule_segments hs out cs \<Longrightarrow> hs \<noteq> [] \<Longrightarrow>
     \<exists>xs c. cs = xs @ [c] \<and> (\<forall>x \<in> set xs. \<not> ends_rule x) \<and> cl_out c = os_id out \<and>
       rule_outcome must c = spec_outcome must out"
proof (induction hs out cs rule: rule_segments.induct)
  case (2 hit neg out cs)
  then have "cs = butlast cs @ [last cs]" "list_all (\<lambda>c. cl_out c = LOGICAL_OR) (butlast cs)"
    by (simp_all add: segment_def)
  with 2 show ?case
    by (intro exI [of _ "butlast cs"] exI [of _ "last cs"])
      (auto simp: segment_def ends_rule_def list_all_iff rule_outcome_def spec_outcome_def)
next
  case (3 hit neg h hs out cs)
  then obtain ds es where cs: "cs = ds @ es" and ds: "segment ds hit neg (logical_outbound LOGICAL_AND)"
    and es: "rule_segments (h # hs) out es" by auto
  from "3.IH" [OF es] obtain xs c where "es = xs @ [c]" "\<forall>x \<in> set xs. \<not> ends_rule x" "cl_out c = os_id out"
    "rule_outcome must c = spec_outcome must out" by auto
  moreover have "\<forall>x \<in> set ds. \<not> ends_rule x"
    using segment_outs [OF ds] by (auto simp: ends_rule_def)
  ultimately show ?case using cs by (intro exI [of _ "ds @ xs"] exI [of _ c]) auto
qed simp

lemma decide_rule_segments:
  assumes "rule_segments hs out cs" "hs \<noteq> []" "os_id out \<noteq> LOGICAL_OR" "os_id out \<noteq> LOGICAL_AND"
  shows "decide must (rules_of (cs @ rest)) =
    (if \<not> (\<forall>(hit, neg) \<in> set hs. hit \<noteq> neg) then decide must (rules_of rest)
     else if os_id out = MUST_RULES then decide True (rules_of rest)
     else Some (spec_outcome must out))"
proof -
  obtain xs c where cs: "cs = xs @ [c]" "\<forall>x \<in> set xs. \<not> ends_rule x" "cl_out c = os_id out"
    and o: "rule_outcome must c = spec_outcome must out"
    using rule_segments_shape [OF assms(1,2)] by blast
  then have "ends_rule c" using assms by (simp add: ends_rule_def)
  then have "rules_of (cs @ rest) = cs # rules_of rest"
    using cut_after_hit [OF cs(2), of c rest] by (simp add: rules_of_def cs(1))
  then show ?thesis
    using rule_segments_holds [OF assms(1,2,3)] o cs by simp
qed

section \<open>Match sets of a plan\<close>

definition lpm_hit :: "ResidentRoutingPlan \<Rightarrow> u32 \<Rightarrow> IpAddr \<Rightarrow> bool" where
  "lpm_hit P j a \<longleftrightarrow>
     unat j < length (plan_lpm_sets P) \<and> (\<exists>p \<in> set (plan_lpm_sets P ! unat j). IpPrefix_contains p a)"

fun plan_hit :: "engines \<Rightarrow> ResidentRoutingPlan \<Rightarrow> Query \<Rightarrow> nat \<Rightarrow> RoutingMatchKind \<Rightarrow> bool" where
  "plan_hit E P q i KDomainSet \<longleftrightarrow>
     q_domain q \<noteq> [] \<and> (\<exists>d \<in> set (plan_domain_sets P). rds_rule_index d = i \<and>
       SharedDomainSet_matches (rds_values d) (q_domain q))"
| "plan_hit E P q i (KIpSet j) \<longleftrightarrow> lpm_hit P j (q_dest q)"
| "plan_hit E P q i (KSourceIpSet j) \<longleftrightarrow> (\<exists>a. q_source q = Some a \<and> lpm_hit P j a)"
| "plan_hit E P q i (KMac j) \<longleftrightarrow> (\<exists>a. mac_addr q = Some a \<and> lpm_hit P j a)"
| "plan_hit E P q i k \<longleftrightarrow> kind_holds E [] [] q i k"

definition typed_of :: "MatchSetBytes \<Rightarrow> RoutingMatchSet" where
  "typed_of m = (case match_set_typed m of Inr t \<Rightarrow> t | Inl _ \<Rightarrow>
     \<lparr>rms_kind = KFallback, rms_outbound = 0, rms_not = False, rms_mark = 0, rms_must = False\<rparr>)"

definition plan_clause :: "engines \<Rightarrow> ResidentRoutingPlan \<Rightarrow> Query \<Rightarrow> nat \<Rightarrow> MatchSetBytes \<Rightarrow> clause" where
  "plan_clause E P q i m =
     (let t = typed_of m
      in \<lparr>cl_hit = plan_hit E P q i (rms_kind t), cl_out = rms_outbound t, cl_not = rms_not t,
          cl_mark = rms_mark t, cl_must = rms_must t\<rparr>)"

definition plan_clauses :: "engines \<Rightarrow> ResidentRoutingPlan \<Rightarrow> Query \<Rightarrow> nat \<Rightarrow> MatchSetBytes list \<Rightarrow> clause list" where
  "plan_clauses E P q i ms = map (\<lambda>(j, m). plan_clause E P q j m) (enumerate i ms)"

lemma plan_clauses_append:
  "plan_clauses E P q i (xs @ ys) = plan_clauses E P q i xs @ plan_clauses E P q (i + length xs) ys"
  by (simp add: plan_clauses_def enumerate_append_eq)

lemma plan_clauses_Nil [simp]: "plan_clauses E P q i [] = []"
  by (simp add: plan_clauses_def)

lemma plan_clauses_Cons [simp]:
  "plan_clauses E P q i (m # ms) = plan_clause E P q i m # plan_clauses E P q (Suc i) ms"
  by (simp add: plan_clauses_def)

text \<open>The byte image of a match set reads back.\<close>

definition kind_of :: "bytes \<Rightarrow> u8 \<Rightarrow> RoutingMatchKind" where
  "kind_of raw t = rms_kind (typed_of (match_set raw False t (logical_outbound 0) []))"

lemma match_set_bytes:
  assumes "length raw = 16"
  shows "length (msb_bytes (match_set raw neg t out nm)) = 24"
    "msb_bytes (match_set raw neg t out nm) ! 16 = of_bool neg"
    "msb_bytes (match_set raw neg t out nm) ! 17 = t"
    "take 16 (msb_bytes (match_set raw neg t out nm)) = raw"
    "i < 16 \<Longrightarrow> msb_bytes (match_set raw neg t out nm) ! i = raw ! i"
  using assms by (simp_all add: match_set_def nth_append)

lemma match_set_fields [simp]:
  "msb_outbound (match_set raw neg t out nm) = os_id out" "msb_mark (match_set raw neg t out nm) = os_mark out"
  "msb_must (match_set raw neg t out nm) = os_must out"
  by (simp_all add: match_set_def)

lemma match_set_typed_eq:
  assumes "length raw = 16" "t \<le> MATCH_TYPE_FALLBACK"
  shows "match_set_typed (match_set raw neg t out nm) =
    Inr \<lparr>rms_kind = kind_of raw t, rms_outbound = os_id out, rms_not = neg, rms_mark = os_mark out, rms_must = os_must out\<rparr>"
proof -
  have "t \<in> {0, 1, 2, 3, 4, 5, 6, 7, 8, 9, 10}"
  proof -
    have "unat t \<le> 10" using assms(2) by (simp add: MATCH_TYPE_FALLBACK_def word_le_nat_alt)
    then have "unat t \<in> {0, 1, 2, 3, 4, 5, 6, 7, 8, 9, 10}" by (simp only: insert_iff empty_iff) arith
    then show ?thesis by (auto simp: word_eq_iff_unsigned [where 'a = nat])
  qed
  with match_set_bytes [OF assms(1)] show ?thesis
    by (auto simp: match_set_typed_def kind_of_def typed_of_def Let_def match_type_consts)
qed

lemma plan_clause_match_set:
  assumes "length raw = 16" "t \<le> MATCH_TYPE_FALLBACK"
  shows "plan_clause E P q i (match_set raw neg t out nm) =
    \<lparr>cl_hit = plan_hit E P q i (kind_of raw t), cl_out = os_id out, cl_not = neg, cl_mark = os_mark out,
     cl_must = os_must out\<rparr>"
  using match_set_typed_eq [OF assms] by (simp add: plan_clause_def typed_of_def Let_def)

lemma segment_single:
  assumes "length raw = 16" "t \<le> MATCH_TYPE_FALLBACK" "hit = plan_hit E P q i (kind_of raw t)"
  shows "segment (plan_clauses E P q i [match_set raw neg t out nm]) hit neg out"
  using assms by (simp add: segment_def plan_clause_match_set)

lemma segment_chained:
  assumes "raws \<noteq> []" "\<And>raw. raw \<in> set raws \<Longrightarrow> length raw = 16" "t \<le> MATCH_TYPE_FALLBACK"
    and "\<And>j raw. raw \<in> set raws \<Longrightarrow> plan_hit E P q j (kind_of raw t) = hit raw"
  shows "segment (plan_clauses E P q i (chained_sets neg t nm out raws)) (\<exists>raw \<in> set raws. hit raw) neg out"
proof -
  obtain xs x where raws: "raws = xs @ [x]" using assms(1) by (metis rev_exhaust)
  have "chained_sets neg t nm out raws =
      map (\<lambda>raw. match_set raw neg t (logical_outbound LOGICAL_OR) nm) xs @ [match_set x neg t out nm]"
  proof -
    have "map (\<lambda>(i, raw). match_set raw neg t (if i = n then out else logical_outbound LOGICAL_OR) nm) (enumerate k ys) =
        map (\<lambda>raw. match_set raw neg t (logical_outbound LOGICAL_OR) nm) ys" if "k + length ys \<le> n" for k ys n
      using that by (induction ys arbitrary: k) simp_all
    from this [of 0 xs "length xs"] show ?thesis by (simp add: chained_sets_def raws enumerate_append_eq)
  qed
  moreover have "segment (plan_clauses E P q k (map (\<lambda>raw. match_set raw neg t (logical_outbound LOGICAL_OR) nm) ys @
      [match_set x neg t out nm])) (\<exists>raw \<in> set (ys @ [x]). hit raw) neg out"
    if "set ys \<subseteq> set raws" for ys k
    using that
  proof (induction ys arbitrary: k)
    case Nil
    then show ?case using assms segment_single [of x t _ E P q k neg out nm] by (simp add: raws)
  next
    case (Cons y ys)
    have "segment (plan_clauses E P q k [match_set y neg t (logical_outbound LOGICAL_OR) nm]) (hit y) neg
        (logical_outbound LOGICAL_OR)"
      using assms Cons.prems by (intro segment_single) auto
    from segment_append [OF this Cons.IH [of "Suc k"]] Cons.prems show ?case by simp
  qed
  from this [of xs i] have "segment (plan_clauses E P q i (map (\<lambda>raw. match_set raw neg t (logical_outbound LOGICAL_OR) nm) xs @
      [match_set x neg t out nm])) (\<exists>raw \<in> set raws. hit raw) neg out" by (auto simp: raws)
  ultimately show ?thesis by simp
qed

lemma le_word_list:
  "le_word [le_bytes 4 (j :: u32) ! 0, le_bytes 4 j ! 1, le_bytes 4 j ! 2, le_bytes 4 j ! 3] = j"
  "le_word [le_bytes 2 (a :: u16) ! 0, le_bytes 2 a ! 1] = a"
proof -
  have "[le_bytes 4 j ! 0, le_bytes 4 j ! 1, le_bytes 4 j ! 2, le_bytes 4 j ! 3] = le_bytes 4 j"
    "[le_bytes 2 a ! 0, le_bytes 2 a ! 1] = le_bytes 2 a"
    by (simp_all add: le_bytes_def upt_rec)
  then show "le_word [le_bytes 4 (j :: u32) ! 0, le_bytes 4 j ! 1, le_bytes 4 j ! 2, le_bytes 4 j ! 3] = j"
    "le_word [le_bytes 2 (a :: u16) ! 0, le_bytes 2 a ! 1] = a"
    by (simp_all add: le_word_le_bytes)
qed

lemma kind_of_simps:
  "length raw = 16 \<Longrightarrow> kind_of raw MATCH_TYPE_DOMAIN_SET = KDomainSet"
  "length raw = 16 \<Longrightarrow> kind_of raw MATCH_TYPE_FALLBACK = KFallback"
  "length raw = 16 \<Longrightarrow> kind_of raw MATCH_TYPE_PROCESS_NAME = KProcessName raw"
  "kind_of (le_bytes 4 j @ replicate 12 0) MATCH_TYPE_IP_SET = KIpSet j"
  "kind_of (le_bytes 4 j @ replicate 12 0) MATCH_TYPE_SOURCE_IP_SET = KSourceIpSet j"
  "kind_of (le_bytes 4 j @ replicate 12 0) MATCH_TYPE_MAC = KMac j"
  "kind_of (le_bytes 2 a @ le_bytes 2 b @ replicate 12 0) MATCH_TYPE_PORT = KPort a b"
  "kind_of (le_bytes 2 a @ le_bytes 2 b @ replicate 12 0) MATCH_TYPE_SOURCE_PORT = KSourcePort a b"
  "kind_of (v # replicate 15 0) MATCH_TYPE_L4_PROTO = KL4Proto v"
  "kind_of (v # replicate 15 0) MATCH_TYPE_IP_VERSION = KIpVersion v"
  "kind_of (v # replicate 15 0) MATCH_TYPE_DSCP = KDscp v"
  by (simp_all add: kind_of_def typed_of_def match_set_typed_def match_set_def Let_def match_type_consts
      nth_append le_word_list [unfolded One_nat_def])

section \<open>The compiler\<close>

definition extends :: "ResidentRoutingPlan \<Rightarrow> ResidentRoutingPlan \<Rightarrow> bool" where
  "extends P P' \<longleftrightarrow>
     (\<exists>ms ls ds. plan_matches P' = plan_matches P @ ms \<and> plan_lpm_sets P' = plan_lpm_sets P @ ls \<and>
        plan_domain_sets P' = plan_domain_sets P @ ds \<and> (\<forall>d \<in> set ds. length (plan_matches P) \<le> rds_rule_index d))"

fun lpm_index_of :: "RoutingMatchKind \<Rightarrow> u32 option" where
  "lpm_index_of (KIpSet j) = Some j"
| "lpm_index_of (KSourceIpSet j) = Some j"
| "lpm_index_of (KMac j) = Some j"
| "lpm_index_of _ = None"

definition set_ok :: "nat \<Rightarrow> MatchSetBytes \<Rightarrow> bool" where
  "set_ok n m \<longleftrightarrow>
     length (msb_bytes m) = 24 \<and>
     (\<exists>t. match_set_typed m = Inr t \<and> (\<forall>j. lpm_index_of (rms_kind t) = Some j \<longrightarrow> unat j < n))"

definition plan_ok :: "engines \<Rightarrow> ResidentRoutingPlan \<Rightarrow> bool" where
  "plan_ok E P \<longleftrightarrow>
     list_all (set_ok (length (plan_lpm_sets P))) (plan_matches P) \<and> list_all (list_all prefix_ok) (plan_lpm_sets P) \<and>
     length (plan_lpm_sets P) \<le> length (plan_matches P) \<and>
     (\<forall>d \<in> set (plan_domain_sets P). rds_rule_index d < length (plan_matches P) \<and>
        (\<exists>vs k. SharedDomainSet_from_vec E vs k = Inr (rds_values d)))"

definition new_sets :: "ResidentRoutingPlan \<Rightarrow> ResidentRoutingPlan \<Rightarrow> MatchSetBytes list" where
  "new_sets P P' = drop (length (plan_matches P)) (plan_matches P')"

lemma extends_refl [simp]: "extends P P"
  by (simp add: extends_def)

lemma extends_trans: "extends P Q \<Longrightarrow> extends Q R \<Longrightarrow> extends P R"
  unfolding extends_def by fastforce

lemma extends_new_sets:
  assumes "extends P Q" "extends Q R"
  shows "new_sets P R = new_sets P Q @ new_sets Q R"
    "length (plan_matches Q) = length (plan_matches P) + length (new_sets P Q)"
  using assms by (auto simp: extends_def new_sets_def)

abbreviation lpm_types :: "u8 set" where
  "lpm_types \<equiv> {MATCH_TYPE_IP_SET, MATCH_TYPE_SOURCE_IP_SET, MATCH_TYPE_MAC}"

lemma set_ok_mono: "set_ok n m \<Longrightarrow> n \<le> n' \<Longrightarrow> set_ok n' m"
  by (auto simp: set_ok_def)

lemma kind_of_no_index: "length raw = 16 \<Longrightarrow> t \<notin> lpm_types \<Longrightarrow> lpm_index_of (kind_of raw t) = None"
  by (auto simp: kind_of_def typed_of_def match_set_typed_def Let_def match_set_def match_type_consts nth_append
      map_result_def split: sum.splits if_splits)

lemma match_set_ok:
  "length raw = 16 \<Longrightarrow> t \<le> MATCH_TYPE_FALLBACK \<Longrightarrow> t \<notin> lpm_types \<Longrightarrow> set_ok n (match_set raw neg t out nm)"
  using kind_of_no_index [of raw t] by (simp add: set_ok_def match_set_bytes match_set_typed_eq)

lemma lpm_match_set_ok:
  assumes "t \<in> lpm_types"
  shows "set_ok (Suc n) (match_set (le_bytes 4 (word_of_nat n :: u32) @ replicate 12 0) neg t out nm)"
proof -
  have "unat (word_of_nat n :: u32) < Suc n" by (simp add: unat_of_nat less_Suc_eq_le)
  moreover have "t \<le> MATCH_TYPE_FALLBACK" using assms by (auto simp: match_type_consts)
  ultimately show ?thesis
    using assms by (auto simp: set_ok_def match_set_bytes match_set_typed_eq kind_of_simps)
qed

lemma chained_sets_ok:
  "(\<And>raw. raw \<in> set raws \<Longrightarrow> length raw = 16) \<Longrightarrow> t \<le> MATCH_TYPE_FALLBACK \<Longrightarrow> t \<notin> lpm_types \<Longrightarrow>
     list_all (set_ok n) (chained_sets neg t nm out raws)"
  by (auto simp: chained_sets_def list_all_iff match_set_ok in_set_enumerate_eq)

lemma collect_results_ex:
  "collect_results f xs = Inr ys \<Longrightarrow> (\<exists>y \<in> set ys. Q y) \<longleftrightarrow> (\<exists>x \<in> set xs. \<exists>y. f x = Inr y \<and> Q y)"
  by (induction xs arbitrary: ys) (auto simp: bind_result_Inr)

lemma collect_results_all:
  "collect_results f xs = Inr ys \<Longrightarrow> (\<And>x y. x \<in> set xs \<Longrightarrow> f x = Inr y \<Longrightarrow> Q y) \<Longrightarrow> list_all Q ys"
  by (fastforce simp: collect_results_Inr list_all_iff list_all2_conv_all_nth in_set_conv_nth)

lemma collect_results_empty_iff: "collect_results f xs = Inr ys \<Longrightarrow> ys = [] \<longleftrightarrow> xs = []"
  by (cases xs) (auto simp: bind_result_Inr)

lemma flags_or:
  fixes p v f :: u8
  shows "p AND (v OR f) \<noteq> 0 \<longleftrightarrow> p AND v \<noteq> 0 \<or> p AND f \<noteq> 0"
  by (simp add: bit.conj_disj_distrib or_eq_0_iff)

lemma parse_l4_proto_loop_flags:
  "parse_l4_proto_loop v items = Inr w \<Longrightarrow>
     p AND w \<noteq> 0 \<longleftrightarrow> p AND v \<noteq> 0 \<or> (\<exists>i \<in> set items. p AND proto_flag i \<noteq> 0)"
  by (induction v items rule: parse_l4_proto_loop.induct)
    (auto simp: flags_or proto_flag_def split: if_splits)

lemma parse_ip_version_loop_flags:
  "parse_ip_version_loop v items = Inr w \<Longrightarrow>
     p AND w \<noteq> 0 \<longleftrightarrow> p AND v \<noteq> 0 \<or> (\<exists>i \<in> set items. p AND version_flag i \<noteq> 0)"
  by (induction v items rule: parse_ip_version_loop.induct)
    (auto simp: flags_or version_flag_def split: if_splits)

lemma parse_ip_prefix_ok: "parse_ip_prefix v = Inr p \<Longrightarrow> prefix_ok p"
  by (auto simp: parse_ip_prefix_def Let_def bind_result_Inr map_err_Inr split: option.splits if_splits
      dest: IpPrefix_new_ok)

lemma parse_mac_prefix_ok: "parse_mac_prefix v = Inr p \<Longrightarrow> prefix_ok p"
  by (auto simp: parse_mac_prefix_def Let_def bind_result_Inr map_err_Inr split: if_splits dest: IpPrefix_new_ok)

lemma new_domain_hit:
  assumes "plan_ok E P" "extends (P\<lparr>plan_matches := plan_matches P @ [m],
      plan_domain_sets := plan_domain_sets P @ [\<lparr>rds_rule_index = length (plan_matches P), rds_values = s\<rparr>]\<rparr>) Q"
  shows "plan_hit E Q q (length (plan_matches P)) KDomainSet \<longleftrightarrow>
    q_domain q \<noteq> [] \<and> SharedDomainSet_matches s (q_domain q)"
proof -
  from assms(2) obtain ds where "plan_domain_sets Q =
      plan_domain_sets P @ \<lparr>rds_rule_index = length (plan_matches P), rds_values = s\<rparr> # ds"
    and "\<forall>d \<in> set ds. Suc (length (plan_matches P)) \<le> rds_rule_index d"
    by (auto simp: extends_def)
  with assms(1) show ?thesis by (fastforce simp: plan_ok_def)
qed

lemma new_lpm_hit:
  assumes "extends (P\<lparr>plan_matches := plan_matches P @ [m], plan_lpm_sets := plan_lpm_sets P @ [ps]\<rparr>) Q"
    and "length (plan_lpm_sets Q) \<le> 2 ^ 32"
  shows "lpm_hit Q (word_of_nat (length (plan_lpm_sets P))) a \<longleftrightarrow> (\<exists>p \<in> set ps. IpPrefix_contains p a)"
proof -
  from assms(1) obtain ls where Q: "plan_lpm_sets Q = plan_lpm_sets P @ ps # ls"
    by (auto simp: extends_def)
  with assms(2) have "unat (word_of_nat (length (plan_lpm_sets P)) :: u32) = length (plan_lpm_sets P)"
    by (simp add: unat_of_nat)
  then show ?thesis by (simp add: lpm_hit_def Q nth_append)
qed

text \<open>What compiling one group of parameters gives.\<close>

definition compiled ::
    "engines \<Rightarrow> ResidentRoutingPlan \<Rightarrow> ResidentRoutingPlan \<Rightarrow> (Query \<Rightarrow> bool) \<Rightarrow> bool \<Rightarrow> OutboundSpec \<Rightarrow> bool" where
  "compiled E P P' hit neg out \<longleftrightarrow>
     plan_ok E P' \<and> extends P P' \<and>
     (\<forall>Q q. extends P' Q \<longrightarrow> length (plan_lpm_sets Q) \<le> 2 ^ 32 \<longrightarrow>
        segment (plan_clauses E Q q (length (plan_matches P)) (new_sets P P')) (hit q) neg out)"

lemma compiled_push:
  assumes "plan_ok E P" "list_all (set_ok (length (plan_lpm_sets P))) sets"
    and "\<And>Q q. segment (plan_clauses E Q q (length (plan_matches P)) sets) (hit q) neg out"
  shows "compiled E P (P\<lparr>plan_matches := plan_matches P @ sets\<rparr>) hit neg out"
  using assms by (fastforce simp: compiled_def plan_ok_def extends_def new_sets_def)

lemma compiled_domain:
  assumes "engines_ok E" "plan_ok E P" "shared_domain_set E key values = Inr s"
    and "key \<in> {''full'', ''keyword'', ''suffix'', ''regex''}"
  shows "compiled E P (P\<lparr>plan_matches := plan_matches P @ [match_set (replicate 16 0) neg MATCH_TYPE_DOMAIN_SET out nm],
      plan_domain_sets := plan_domain_sets P @ [\<lparr>rds_rule_index = length (plan_matches P), rds_values = s\<rparr>]\<rparr>)
    (\<lambda>q. \<exists>v \<in> set values. param_holds E q ''domain'' key v) neg out"
proof -
  from assms(3) obtain k where k: "DomainKey_try_from key = Inr k" "SharedDomainSet_from_vec E values k = Inr s"
    by (auto simp: shared_domain_set_def bind_result_Inr map_err_Inr)
  have hit: "(\<exists>v \<in> set values. param_holds E q ''domain'' key v) \<longleftrightarrow>
      q_domain q \<noteq> [] \<and> SharedDomainSet_matches s (q_domain q)" for q
    by (auto simp: param_holds_def k SharedDomainSet_matches_iff [OF assms(1) k(2)])
  show ?thesis
    unfolding compiled_def hit
  proof (intro conjI allI impI)
    fix Q q assume Q: "extends (P\<lparr>plan_matches := plan_matches P @ [match_set (replicate 16 0) neg MATCH_TYPE_DOMAIN_SET out nm],
      plan_domain_sets := plan_domain_sets P @ [\<lparr>rds_rule_index = length (plan_matches P), rds_values = s\<rparr>]\<rparr>) Q"
    from new_domain_hit [OF assms(2) this] show
      "segment (plan_clauses E Q q (length (plan_matches P)) (new_sets P (P\<lparr>plan_matches := plan_matches P @
        [match_set (replicate 16 0) neg MATCH_TYPE_DOMAIN_SET out nm],
        plan_domain_sets := plan_domain_sets P @ [\<lparr>rds_rule_index = length (plan_matches P), rds_values = s\<rparr>]\<rparr>)))
        (q_domain q \<noteq> [] \<and> SharedDomainSet_matches s (q_domain q)) neg out"
      unfolding new_sets_def
      by (simp del: plan_hit.simps plan_clauses_Cons, intro segment_single)
        (simp_all add: match_type_consts kind_of_simps [unfolded match_type_consts] del: plan_hit.simps)
  next
    show "plan_ok E (P\<lparr>plan_matches := plan_matches P @ [match_set (replicate 16 0) neg MATCH_TYPE_DOMAIN_SET out nm],
      plan_domain_sets := plan_domain_sets P @ [\<lparr>rds_rule_index = length (plan_matches P), rds_values = s\<rparr>]\<rparr>)"
      using assms(2) k(2) match_set_ok [of "replicate 16 0" MATCH_TYPE_DOMAIN_SET _ neg out nm]
      by (auto simp: plan_ok_def match_type_consts less_Suc_eq)
  qed (auto simp: extends_def)
qed

lemma compiled_lpm:
  assumes "plan_ok E P" "list_all prefix_ok ps" "t \<in> lpm_types"
    and "\<And>Q q. (\<And>a. lpm_hit Q (word_of_nat (length (plan_lpm_sets P))) a = (\<exists>p \<in> set ps. IpPrefix_contains p a)) \<Longrightarrow>
      plan_hit E Q q (length (plan_matches P))
        (kind_of (le_bytes 4 (word_of_nat (length (plan_lpm_sets P)) :: u32) @ replicate 12 0) t) = hit q"
  shows "compiled E P (P\<lparr>plan_matches := plan_matches P @
      [match_set (le_bytes 4 (word_of_nat (length (plan_lpm_sets P)) :: u32) @ replicate 12 0) neg t out nm],
      plan_lpm_sets := plan_lpm_sets P @ [ps]\<rparr>) hit neg out"
    (is "compiled E P ?P' hit neg out")
proof -
  have t: "t \<le> MATCH_TYPE_FALLBACK" using assms(3) by (auto simp: match_type_consts)
  show ?thesis
    unfolding compiled_def
  proof (intro conjI allI impI)
    fix Q q assume Q: "extends ?P' Q" and len: "length (plan_lpm_sets Q) \<le> 2 ^ 32"
    have "plan_hit E Q q (length (plan_matches P))
        (kind_of (le_bytes 4 (word_of_nat (length (plan_lpm_sets P)) :: u32) @ replicate 12 0) t) = hit q"
      by (rule assms(4)) (rule new_lpm_hit [OF Q len])
    with t show "segment (plan_clauses E Q q (length (plan_matches P)) (new_sets P ?P')) (hit q) neg out"
      unfolding new_sets_def by (simp del: plan_clauses_Cons) (intro segment_single, simp_all)
  next
    show "plan_ok E ?P'"
      using assms(1,2) lpm_match_set_ok [OF assms(3), of "length (plan_lpm_sets P)" neg out nm]
      by (auto simp: plan_ok_def less_Suc_eq list_all_iff intro: set_ok_mono)
  qed (auto simp: extends_def)
qed

lemma port_segment:
  assumes "collect_results parse_port_range values = Inr ranges" "values \<noteq> []"
    and "t = MATCH_TYPE_PORT \<and> name = ''port'' \<or> t = MATCH_TYPE_SOURCE_PORT \<and> name = ''sport''"
  shows "segment (plan_clauses E Q q i (chained_sets neg t nm out
      (map (\<lambda>(start, stop). le_bytes 2 start @ le_bytes 2 stop @ replicate 12 0) ranges)))
    (\<exists>v \<in> set values. param_holds E q name key v) neg out"
proof -
  let ?raw = "\<lambda>(start, stop). le_bytes 2 (start :: u16) @ le_bytes 2 (stop :: u16) @ replicate 12 0"
  have "segment (plan_clauses E Q q i (chained_sets neg t nm out (map ?raw ranges)))
      (\<exists>raw \<in> set (map ?raw ranges). plan_hit E Q q 0 (kind_of raw t)) neg out"
    using assms collect_results_empty_iff [OF assms(1)]
    by (intro segment_chained) (auto simp: match_type_consts kind_of_simps [unfolded match_type_consts])
  moreover have "(\<exists>raw \<in> set (map ?raw ranges). plan_hit E Q q 0 (kind_of raw t)) \<longleftrightarrow>
      (\<exists>v \<in> set values. param_holds E q name key v)"
  proof -
    have "(\<exists>raw \<in> set (map ?raw ranges). plan_hit E Q q 0 (kind_of raw t)) \<longleftrightarrow>
        (\<exists>r \<in> set ranges. plan_hit E Q q 0 (kind_of (?raw r) t))" by auto
    also have "\<dots> \<longleftrightarrow> (\<exists>v \<in> set values. \<exists>r. parse_port_range v = Inr r \<and> plan_hit E Q q 0 (kind_of (?raw r) t))"
      by (rule collect_results_ex [OF assms(1)])
    also have "\<dots> \<longleftrightarrow> (\<exists>v \<in> set values. param_holds E q name key v)"
    proof -
      have "(\<exists>r. parse_port_range v = Inr r \<and> plan_hit E Q q 0 (kind_of (?raw r) t)) \<longleftrightarrow> param_holds E q name key v" for v
      proof (cases "parse_port_range v")
        case (Inr r)
        obtain a b where "r = (a, b)" by fastforce
        with Inr assms(3) show ?thesis by (elim disjE) (simp_all add: param_holds_def kind_of_simps)
      qed (use assms(3) in \<open>auto simp: param_holds_def\<close>)
      then show ?thesis by (simp only:)
    qed
    finally show ?thesis .
  qed
  ultimately show ?thesis by simp
qed

lemma dscp_segment:
  assumes "collect_results parse_dscp values = Inr vs" "values \<noteq> []"
  shows "segment (plan_clauses E Q q i (chained_sets neg MATCH_TYPE_DSCP nm out (map (\<lambda>v. v # replicate 15 0) vs)))
    (\<exists>v \<in> set values. param_holds E q ''dscp'' key v) neg out"
proof -
  have "segment (plan_clauses E Q q i (chained_sets neg MATCH_TYPE_DSCP nm out (map (\<lambda>v. v # replicate 15 0) vs)))
      (\<exists>raw \<in> set (map (\<lambda>v. v # replicate 15 0) vs). plan_hit E Q q 0 (kind_of raw MATCH_TYPE_DSCP)) neg out"
    using assms collect_results_empty_iff [OF assms(1)]
    by (intro segment_chained) (auto simp: match_type_consts kind_of_simps [unfolded match_type_consts])
  moreover have "(\<exists>raw \<in> set (map (\<lambda>v. v # replicate 15 0) vs). plan_hit E Q q 0 (kind_of raw MATCH_TYPE_DSCP)) \<longleftrightarrow>
      (\<exists>v \<in> set vs. q_dscp q = Some v)" by (simp add: kind_of_simps)
  moreover have "(\<exists>v \<in> set vs. q_dscp q = Some v) \<longleftrightarrow> (\<exists>v \<in> set values. param_holds E q ''dscp'' key v)"
    by (simp add: collect_results_ex [OF assms(1)] param_holds_def)
  ultimately show ?thesis by simp
qed

lemma length_process_name_bytes [simp]: "length (process_name_bytes n) = 16"
  by (simp add: process_name_bytes_def Let_def)

lemma pname_segment:
  assumes "values \<noteq> []"
  shows "segment (plan_clauses E Q q i (chained_sets neg MATCH_TYPE_PROCESS_NAME nm out (map process_name_bytes values)))
    (\<exists>v \<in> set values. param_holds E q ''pname'' key v) neg out"
proof -
  have "segment (plan_clauses E Q q i (chained_sets neg MATCH_TYPE_PROCESS_NAME nm out (map process_name_bytes values)))
      (\<exists>raw \<in> set (map process_name_bytes values). plan_hit E Q q 0 (kind_of raw MATCH_TYPE_PROCESS_NAME)) neg out"
    using assms by (intro segment_chained) (auto simp: match_type_consts kind_of_simps [unfolded match_type_consts])
  moreover have "(\<exists>raw \<in> set (map process_name_bytes values). plan_hit E Q q 0 (kind_of raw MATCH_TYPE_PROCESS_NAME)) \<longleftrightarrow>
      (\<exists>v \<in> set values. param_holds E q ''pname'' key v)"
    by (auto simp: kind_of_simps param_holds_def)
  ultimately show ?thesis by simp
qed

lemma flag_segments:
  "parse_l4_proto values = Inr v \<Longrightarrow>
     segment (plan_clauses E Q q i [match_set (v # replicate 15 0) neg MATCH_TYPE_L4_PROTO out nm])
       (\<exists>v \<in> set values. param_holds E q ''l4proto'' key v) neg out"
  "parse_ip_versions values = Inr v \<Longrightarrow>
     segment (plan_clauses E Q q i [match_set (v # replicate 15 0) neg MATCH_TYPE_IP_VERSION out nm])
       (\<exists>v \<in> set values. param_holds E q ''ipversion'' key v) neg out"
proof -
  assume "parse_l4_proto values = Inr v"
  then have loop: "parse_l4_proto_loop 0 values = Inr v"
    by (auto simp: parse_l4_proto_def bind_result_Inr split: if_splits)
  have "(\<exists>v \<in> set values. param_holds E q ''l4proto'' key v) \<longleftrightarrow> plan_hit E Q q i (KL4Proto v)"
    using parse_l4_proto_loop_flags [OF loop] by (auto simp: param_holds_def)
  then show "segment (plan_clauses E Q q i [match_set (v # replicate 15 0) neg MATCH_TYPE_L4_PROTO out nm])
       (\<exists>v \<in> set values. param_holds E q ''l4proto'' key v) neg out"
    by (intro segment_single) (simp_all add: kind_of_simps, simp add: match_type_consts)
next
  assume "parse_ip_versions values = Inr v"
  then have loop: "parse_ip_version_loop 0 values = Inr v"
    by (auto simp: parse_ip_versions_def bind_result_Inr split: if_splits)
  have "(\<exists>v \<in> set values. param_holds E q ''ipversion'' key v) \<longleftrightarrow> plan_hit E Q q i (KIpVersion v)"
    using parse_ip_version_loop_flags [OF loop] by (auto simp: param_holds_def)
  then show "segment (plan_clauses E Q q i [match_set (v # replicate 15 0) neg MATCH_TYPE_IP_VERSION out nm])
       (\<exists>v \<in> set values. param_holds E q ''ipversion'' key v) neg out"
    by (intro segment_single) (simp_all add: kind_of_simps, simp add: match_type_consts)
qed

lemma collect_results_mac_ok:
  "collect_results parse_mac_prefix values = Inr ps \<Longrightarrow> list_all prefix_ok ps"
  by (rule collect_results_all) (auto dest: parse_mac_prefix_ok)

lemma collect_results_prefix_ok:
  "collect_results parse_ip_prefix values = Inr ps \<Longrightarrow> list_all prefix_ok ps"
  by (rule collect_results_all) (auto dest: parse_ip_prefix_ok)

lemma prefix_hits:
  assumes "collect_results f values = Inr ps"
  shows "(\<exists>p \<in> set ps. IpPrefix_contains p a) \<longleftrightarrow> (\<exists>v \<in> set values. \<exists>p. f v = Inr p \<and> IpPrefix_contains p a)"
  by (rule collect_results_ex [OF assms])

lemma add_sets_ip:
  assumes "plan_ok E P" "fn_name f \<in> {''ip'', ''sip'', ''mac''}" "add_function_match_sets E P f key values out = Inr P'"
  shows "compiled E P P' (\<lambda>q. \<exists>v \<in> set values. param_holds E q (fn_name f) key v) (fn_not f) out"
proof -
  consider "fn_name f = ''ip''" | "fn_name f = ''sip''" | "fn_name f = ''mac''" using assms(2) by auto
  then show ?thesis
  proof cases
    case 1
    then obtain ps where ps: "collect_results parse_ip_prefix values = Inr ps" and
      P': "P' = P\<lparr>plan_matches := plan_matches P @
        [match_set (le_bytes 4 (word_of_nat (length (plan_lpm_sets P)) :: u32) @ replicate 12 0) (fn_not f) MATCH_TYPE_IP_SET out ''IpSet''],
        plan_lpm_sets := plan_lpm_sets P @ [ps]\<rparr>"
      using assms(3) by (auto simp: add_function_match_sets_def parse_ip_prefix_group_def map_result_Inr split: if_splits)
    show ?thesis unfolding P'
      by (rule compiled_lpm [OF assms(1) collect_results_prefix_ok [OF ps]])
        (simp_all add: 1 kind_of_simps param_holds_def prefix_hits [OF ps])
  next
    case 2
    then obtain ps where ps: "collect_results parse_ip_prefix values = Inr ps" and
      P': "P' = P\<lparr>plan_matches := plan_matches P @
        [match_set (le_bytes 4 (word_of_nat (length (plan_lpm_sets P)) :: u32) @ replicate 12 0) (fn_not f) MATCH_TYPE_SOURCE_IP_SET out ''SourceIpSet''],
        plan_lpm_sets := plan_lpm_sets P @ [ps]\<rparr>"
      using assms(3) by (auto simp: add_function_match_sets_def parse_ip_prefix_group_def map_result_Inr split: if_splits)
    show ?thesis unfolding P'
      by (rule compiled_lpm [OF assms(1) collect_results_prefix_ok [OF ps]])
        (auto simp: 2 kind_of_simps param_holds_def prefix_hits [OF ps])
  next
    case 3
    then obtain ps where ps: "collect_results parse_mac_prefix values = Inr ps" and
      P': "P' = P\<lparr>plan_matches := plan_matches P @
        [match_set (le_bytes 4 (word_of_nat (length (plan_lpm_sets P)) :: u32) @ replicate 12 0) (fn_not f) MATCH_TYPE_MAC out ''Mac''],
        plan_lpm_sets := plan_lpm_sets P @ [ps]\<rparr>"
      using assms(3) by (auto simp: add_function_match_sets_def map_result_Inr split: if_splits)
    show ?thesis unfolding P'
      by (rule compiled_lpm [OF assms(1) collect_results_mac_ok [OF ps]])
        (auto simp: 3 kind_of_simps param_holds_def prefix_hits [OF ps])
  qed
qed

lemma add_function_match_sets_compiled:
  assumes "engines_ok E" "plan_ok E P" "values \<noteq> []" "add_function_match_sets E P f key values out = Inr P'"
  shows "compiled E P P' (\<lambda>q. \<exists>v \<in> set values. param_holds E q (fn_name f) key v) (fn_not f) out"
proof -
  note add = assms(4) [unfolded add_function_match_sets_def Let_def]
  consider (domain) "fn_name f = ''domain''" | (ip) "fn_name f \<in> {''ip'', ''sip'', ''mac''}"
    | (port) "fn_name f = ''port''" | (sport) "fn_name f = ''sport''" | (l4) "fn_name f = ''l4proto''"
    | (ver) "fn_name f = ''ipversion''" | (pname) "fn_name f = ''pname''" | (dscp) "fn_name f = ''dscp''"
    | (other) "fn_name f \<notin> {''domain'', ''ip'', ''sip'', ''mac'', ''port'', ''sport'', ''l4proto'', ''ipversion'', ''pname'', ''dscp''}"
    by blast
  then show ?thesis
  proof cases
    case domain
    with add obtain s where s: "shared_domain_set E key values = Inr s" "key \<in> {''full'', ''keyword'', ''suffix'', ''regex''}"
      and P': "P' = P\<lparr>plan_matches := plan_matches P @ [match_set (replicate 16 0) (fn_not f) MATCH_TYPE_DOMAIN_SET out ''DomainSet''],
        plan_domain_sets := plan_domain_sets P @ [\<lparr>rds_rule_index = length (plan_matches P), rds_values = s\<rparr>]\<rparr>"
      by (auto simp: map_result_Inr split: if_splits)
    show ?thesis unfolding P' domain by (rule compiled_domain [OF assms(1,2) s])
  next
    case ip
    then show ?thesis by (rule add_sets_ip [OF assms(2) _ assms(4)])
  next
    case port
    with add obtain ranges where r: "collect_results parse_port_range values = Inr ranges" and
      P': "P' = P\<lparr>plan_matches := plan_matches P @ chained_sets (fn_not f) MATCH_TYPE_PORT ''Port'' out
        (map (\<lambda>(start, stop). le_bytes 2 start @ le_bytes 2 stop @ replicate 12 0) ranges)\<rparr>"
      by (auto simp: map_result_Inr)
    show ?thesis unfolding P' port
      by (intro compiled_push assms(2) chained_sets_ok port_segment [OF r assms(3)]) (auto simp: match_type_consts)
  next
    case sport
    with add obtain ranges where r: "collect_results parse_port_range values = Inr ranges" and
      P': "P' = P\<lparr>plan_matches := plan_matches P @ chained_sets (fn_not f) MATCH_TYPE_SOURCE_PORT ''SourcePort'' out
        (map (\<lambda>(start, stop). le_bytes 2 start @ le_bytes 2 stop @ replicate 12 0) ranges)\<rparr>"
      by (auto simp: map_result_Inr)
    show ?thesis unfolding P' sport
      by (intro compiled_push assms(2) chained_sets_ok port_segment [OF r assms(3)]) (auto simp: match_type_consts)
  next
    case l4
    with add obtain v where v: "parse_l4_proto values = Inr v" and
      P': "P' = P\<lparr>plan_matches := plan_matches P @ [match_set (v # replicate 15 0) (fn_not f) MATCH_TYPE_L4_PROTO out ''L4Proto'']\<rparr>"
      by (auto simp: map_result_Inr)
    show ?thesis unfolding P' l4
      by (intro compiled_push assms(2) flag_segments(1) [OF v]) (simp add: match_set_ok match_type_consts)
  next
    case ver
    with add obtain v where v: "parse_ip_versions values = Inr v" and
      P': "P' = P\<lparr>plan_matches := plan_matches P @ [match_set (v # replicate 15 0) (fn_not f) MATCH_TYPE_IP_VERSION out ''IpVersion'']\<rparr>"
      by (auto simp: map_result_Inr)
    show ?thesis unfolding P' ver
      by (intro compiled_push assms(2) flag_segments(2) [OF v]) (simp add: match_set_ok match_type_consts)
  next
    case pname
    with add have P': "P' = P\<lparr>plan_matches := plan_matches P @
        chained_sets (fn_not f) MATCH_TYPE_PROCESS_NAME ''ProcessName'' out (map process_name_bytes values)\<rparr>"
      by simp
    show ?thesis unfolding P' pname
      by (intro compiled_push assms(2) chained_sets_ok pname_segment assms(3)) (auto simp: match_type_consts)
  next
    case dscp
    with add obtain vs where vs: "collect_results parse_dscp values = Inr vs" and
      P': "P' = P\<lparr>plan_matches := plan_matches P @ chained_sets (fn_not f) MATCH_TYPE_DSCP ''Dscp'' out (map (\<lambda>v. v # replicate 15 0) vs)\<rparr>"
      by (auto simp: map_result_Inr)
    show ?thesis unfolding P' dscp
      by (intro compiled_push assms(2) chained_sets_ok dscp_segment [OF vs assms(3)]) (auto simp: match_type_consts)
  next
    case other
    with add show ?thesis by simp
  qed
qed

lemma compiled_append:
  assumes "compiled E P P1 a neg (logical_outbound LOGICAL_OR)" "compiled E P1 P2 b neg out"
  shows "compiled E P P2 (\<lambda>q. a q \<or> b q) neg out"
proof -
  have e: "extends P P1" "extends P1 P2" using assms by (simp_all add: compiled_def)
  have "segment (plan_clauses E Q q (length (plan_matches P)) (new_sets P P2)) (a q \<or> b q) neg out"
    if "extends P2 Q" "length (plan_lpm_sets Q) \<le> 2 ^ 32" for Q q
    using assms that extends_trans [OF e(2) that(1)]
    unfolding extends_new_sets(1) [OF e] plan_clauses_append extends_new_sets(2) [OF e, symmetric]
    by (intro segment_append) (simp_all add: compiled_def)
  then show ?thesis using assms extends_trans [OF e] by (simp add: compiled_def)
qed

lemma compile_groups_compiled:
  assumes "engines_ok E" "compile_groups E f out groups P = Inr P'" "groups \<noteq> []"
    "\<forall>(k, vs) \<in> set groups. vs \<noteq> []" "plan_ok E P"
  shows "compiled E P P' (\<lambda>q. \<exists>(k, vs) \<in> set groups. \<exists>v \<in> set vs. param_holds E q (fn_name f) k v) (fn_not f) out"
  using assms(2-)
proof (induction groups arbitrary: P)
  case (Cons g groups)
  obtain k vs where g: "g = (k, vs)" by (cases g)
  from Cons.prems obtain P1 where
    P1: "add_function_match_sets E P f k vs (if groups = [] then out else logical_outbound LOGICAL_OR) = Inr P1"
    and rest: "compile_groups E f out groups P1 = Inr P'" by (auto simp: g bind_result_Inr)
  have head: "compiled E P P1 (\<lambda>q. \<exists>v \<in> set vs. param_holds E q (fn_name f) k v) (fn_not f)
      (if groups = [] then out else logical_outbound LOGICAL_OR)"
    using Cons.prems by (intro add_function_match_sets_compiled [OF assms(1) _ _ P1]) (auto simp: g)
  show ?case
  proof (cases "groups = []")
    case True
    with head rest show ?thesis by (simp add: g)
  next
    case False
    then have "compiled E P1 P' (\<lambda>q. \<exists>(k, vs) \<in> set groups. \<exists>v \<in> set vs. param_holds E q (fn_name f) k v) (fn_not f) out"
      using Cons.prems head by (intro Cons.IH rest) (auto simp: compiled_def)
    from compiled_append [OF _ this] head False show ?thesis by (simp add: g)
  qed
qed simp

lemma group_order_set: "set (group_order order ps) = set order \<union> param_key ` set ps"
  by (induction order ps rule: group_order.induct) auto

lemma group_values_eq:
  "group_values ps k =
     (if k \<in> param_key ` set ps then Some (map param_val (filter (\<lambda>p. param_key p = k) ps)) else None)"
proof (induction ps rule: rev_induct)
  case (snoc p ps)
  have "group_values (ps @ [p]) = (group_values ps)(param_key p \<mapsto>
      (case group_values ps (param_key p) of None \<Rightarrow> [] | Some vs \<Rightarrow> vs) @ [param_val p])"
    by (simp add: group_values_def)
  moreover have "filter (\<lambda>x. param_key x = k) ps = []" if "k \<notin> param_key ` set ps"
    using that by (auto simp: filter_empty_conv)
  ultimately show ?case using snoc by (auto simp: image_iff)
qed (simp add: group_values_def)

lemma grouped_params_values:
  "\<forall>(k, vs) \<in> set (grouped_params ps). vs \<noteq> []"
  "(\<exists>(k, vs) \<in> set (grouped_params ps). \<exists>v \<in> set vs. Q k v) \<longleftrightarrow> (\<exists>p \<in> set ps. Q (param_key p) (param_val p))"
proof -
  show "\<forall>(k, vs) \<in> set (grouped_params ps). vs \<noteq> []"
    by (auto simp: grouped_params_def group_order_set group_values_eq filter_empty_conv)
  have "(\<exists>(k, vs) \<in> set (grouped_params ps). \<exists>v \<in> set vs. Q k v) \<longleftrightarrow>
      (\<exists>k \<in> param_key ` set ps. \<exists>p \<in> set ps. param_key p = k \<and> Q k (param_val p))"
    by (auto simp: grouped_params_def group_order_set group_values_eq)
  also have "\<dots> \<longleftrightarrow> (\<exists>p \<in> set ps. Q (param_key p) (param_val p))" by (metis imageE imageI)
  finally show "(\<exists>(k, vs) \<in> set (grouped_params ps). \<exists>v \<in> set vs. Q k v) \<longleftrightarrow>
      (\<exists>p \<in> set ps. Q (param_key p) (param_val p))" .
qed

definition any_param :: "engines \<Rightarrow> Query \<Rightarrow> Function \<Rightarrow> bool" where
  "any_param E q f \<longleftrightarrow> (\<exists>p \<in> set (fn_params f). param_holds E q (fn_name f) (param_key p) (param_val p))"

lemma compile_function_compiled:
  assumes "engines_ok E" "plan_ok E P" "grouped_params (fn_params f) \<noteq> []"
    "compile_groups E f out (grouped_params (fn_params f)) P = Inr P'"
  shows "compiled E P P' (\<lambda>q. any_param E q f) (fn_not f) out"
  using compile_groups_compiled [OF assms(1,4,3) grouped_params_values(1) assms(2)]
  unfolding grouped_params_values(2) any_param_def .

lemma compile_functions_segments:
  assumes "engines_ok E" "compile_functions E out fs P = Inr P'" "plan_ok E P"
  shows "plan_ok E P' \<and> extends P P' \<and>
    (\<forall>Q q. extends P' Q \<longrightarrow> length (plan_lpm_sets Q) \<le> 2 ^ 32 \<longrightarrow>
       rule_segments (map (\<lambda>f. (any_param E q f, fn_not f)) fs) out
         (plan_clauses E Q q (length (plan_matches P)) (new_sets P P')))"
  using assms(2-)
proof (induction fs arbitrary: P)
  case Nil
  then show ?case by (simp add: new_sets_def)
next
  case (Cons f fs)
  from Cons.prems obtain P1 where ne: "grouped_params (fn_params f) \<noteq> []" and
    P1: "compile_groups E f (if fs = [] then out else logical_outbound LOGICAL_AND) (grouped_params (fn_params f)) P = Inr P1"
    and rest: "compile_functions E out fs P1 = Inr P'" by (auto simp: bind_result_Inr Let_def split: if_splits)
  note head = compile_function_compiled [OF assms(1) Cons.prems(2) ne P1]
  then have ok: "plan_ok E P1" and e1: "extends P P1" by (simp_all add: compiled_def)
  note tail = Cons.IH [OF rest ok]
  then have e2: "extends P1 P'" by simp
  show ?case
  proof (cases fs)
    case Nil
    with head rest show ?thesis by (simp add: compiled_def)
  next
    case (Cons g gs)
    have "rule_segments (map (\<lambda>f. (any_param E q f, fn_not f)) (f # fs)) out
        (plan_clauses E Q q (length (plan_matches P)) (new_sets P P'))"
      if Q: "extends P' Q" "length (plan_lpm_sets Q) \<le> 2 ^ 32" for Q q
      unfolding extends_new_sets(1) [OF e1 e2] plan_clauses_append
      using head tail Q extends_trans [OF e2 Q(1)] Cons extends_new_sets(2) [OF e1 e2]
      by (simp add: compiled_def) blast
    with tail extends_trans [OF e1 e2] show ?thesis by blast
  qed
qed

lemma config_rule_holds_any:
  "config_rule_holds E q r \<longleftrightarrow> rule_and_functions r \<noteq> [] \<and>
     (\<forall>(hit, neg) \<in> set (map (\<lambda>f. (any_param E q f, fn_not f)) (rule_and_functions r)). hit \<noteq> neg)"
  by (auto simp: config_rule_holds_def function_holds_def any_param_def)

lemma decide_compiled_rule:
  assumes "rule_segments (map (\<lambda>f. (any_param E q f, fn_not f)) (rule_and_functions r)) out cs"
    "os_id out \<noteq> LOGICAL_OR" "os_id out \<noteq> LOGICAL_AND"
  shows "decide must (rules_of (cs @ rest)) =
    (if \<not> config_rule_holds E q r then decide must (rules_of rest)
     else if os_id out = MUST_RULES then decide True (rules_of rest)
     else Some (spec_outcome must out))"
proof (cases "rule_and_functions r = []")
  case True
  with assms(1) show ?thesis by (simp add: config_rule_holds_def)
next
  case False
  with decide_rule_segments [OF assms(1) _ assms(2,3)] show ?thesis
    unfolding config_rule_holds_any by simp
qed

text \<open>Outbound names resolve to built-in or user-defined indices, never to the logical ones.\<close>

definition groups_ok :: "(string \<rightharpoonup> u8) \<Rightarrow> bool" where
  "groups_ok groups \<longleftrightarrow> (\<forall>i \<in> ran groups. i \<le> USER_DEFINED_MAX)"

lemma outbound_groups_loop_ok:
  "outbound_groups_loop index names groups = Inr groups' \<Longrightarrow> groups_ok groups \<Longrightarrow> groups_ok groups'"
proof (induction index names groups rule: outbound_groups_loop.induct)
  case (2 index name names groups)
  let ?i = "index + unat USER_DEFINED_MIN"
  from 2 have i: "?i \<le> unat USER_DEFINED_MAX" "groups name = None"
    and rest: "outbound_groups_loop (Suc index) names (groups(name \<mapsto> word_of_nat ?i)) = Inr groups'"
    by (auto simp: Let_def split: if_splits)
  have "word_of_nat ?i \<le> USER_DEFINED_MAX"
    unfolding word_le_nat_alt using i(1) by (subst unat_of_nat) (simp only: outbound_consts, simp)
  then have "groups_ok (groups(name \<mapsto> word_of_nat ?i))"
    using 2(3) i(2) unfolding groups_ok_def by (simp only: ran_map_upd) simp
  with 2(1) [OF refl _ _ rest] i show ?case by (metis not_le)
qed simp

lemma outbound_groups_ok: "outbound_groups names = Inr groups \<Longrightarrow> groups_ok groups"
  unfolding outbound_groups_def
  by (erule outbound_groups_loop_ok) (auto simp: groups_ok_def ran_def outbound_consts split: if_splits)

lemma parse_outbound_not_logical:
  assumes "groups_ok groups" "parse_outbound f groups = Inr out"
  shows "os_id out \<noteq> LOGICAL_OR" "os_id out \<noteq> LOGICAL_AND"
proof -
  from assms(2) have "os_id out = MUST_RULES \<or> (\<exists>n. groups n = Some (os_id out))"
    by (auto simp: parse_outbound_def bind_result_Inr ok_or_Inr split: if_splits)
  then have "os_id out = MUST_RULES \<or> os_id out \<le> USER_DEFINED_MAX"
    using assms(1) by (auto simp: groups_ok_def ran_def)
  then show "os_id out \<noteq> LOGICAL_OR" "os_id out \<noteq> LOGICAL_AND" by (auto simp: outbound_consts)
qed

definition resolved :: "(string \<rightharpoonup> u8) \<Rightarrow> RoutingRule list \<Rightarrow> (string, (RoutingRule \<times> OutboundSpec) list) result" where
  "resolved groups = collect_results (\<lambda>r. map_result (Pair r) (parse_outbound (rule_outbound r) groups))"

lemma compile_rules_decide:
  assumes "engines_ok E" "groups_ok groups" "compile_rules E groups i rules P = Inr P'" "plan_ok E P"
  shows "plan_ok E P' \<and> extends P P' \<and>
    (\<exists>rs. resolved groups rules = Inr rs \<and>
      (\<forall>Q q must rest. extends P' Q \<longrightarrow> length (plan_lpm_sets Q) \<le> 2 ^ 32 \<longrightarrow>
        decide must (rules_of (plan_clauses E Q q (length (plan_matches P)) (new_sets P P') @ rest)) =
        decide_rules E q (\<lambda>must. decide must (rules_of rest)) must rs))"
  using assms(3-)
proof (induction rules arbitrary: i P)
  case Nil
  then show ?case by (simp add: new_sets_def resolved_def)
next
  case (Cons r rules)
  from Cons.prems obtain out P1 where out: "parse_outbound (rule_outbound r) groups = Inr out"
    and P1: "compile_functions E out (rule_and_functions r) P = Inr P1"
    and rest: "compile_rules E groups (Suc i) rules P1 = Inr P'"
    by (auto simp: bind_result_Inr map_err_Inr compile_rule_def)
  note head = compile_functions_segments [OF assms(1) P1 Cons.prems(2)]
  then have e1: "extends P P1" by simp
  from Cons.IH [OF rest] head obtain rs where rs: "resolved groups rules = Inr rs"
    and ok: "plan_ok E P'" and e2: "extends P1 P'"
    and tail: "\<And>Q q must rest. extends P' Q \<Longrightarrow> length (plan_lpm_sets Q) \<le> 2 ^ 32 \<Longrightarrow>
        decide must (rules_of (plan_clauses E Q q (length (plan_matches P1)) (new_sets P1 P') @ rest)) =
        decide_rules E q (\<lambda>must. decide must (rules_of rest)) must rs" by blast
  have "decide must (rules_of (plan_clauses E Q q (length (plan_matches P)) (new_sets P P') @ rest)) =
      decide_rules E q (\<lambda>must. decide must (rules_of rest)) must ((r, out) # rs)"
    if Q: "extends P' Q" "length (plan_lpm_sets Q) \<le> 2 ^ 32" for Q q must rest
  proof -
    have "rule_segments (map (\<lambda>f. (any_param E q f, fn_not f)) (rule_and_functions r)) out
        (plan_clauses E Q q (length (plan_matches P)) (new_sets P P1))"
      using head extends_trans [OF e2 Q(1)] Q(2) by blast
    from decide_compiled_rule [OF this parse_outbound_not_logical [OF assms(2) out]] show ?thesis
      unfolding extends_new_sets(1) [OF e1 e2] plan_clauses_append extends_new_sets(2) [OF e1 e2, symmetric]
      by (simp add: tail [OF Q])
  qed
  with rs out ok extends_trans [OF e1 e2] show ?case by (auto simp: resolved_def)
qed

end
