(* ===== verification/Plan_Correct.thy ===== *)
theory Plan_Correct
  imports Plan_Compiler
begin

text \<open>
  Correctness of the routing plan: the userspace matcher made from a plan decides by its match
  sets, the optimiser keeps the decision of the rules (unless it merges negated ones), and the
  matcher built from a configuration decides every query as the configuration says.
\<close>

section \<open>The matcher of a plan\<close>

abbreviation lpm_sets_of :: "IpPrefix list list \<Rightarrow> RoutingLpmSet list" where
  "lpm_sets_of ls \<equiv> map (\<lambda>(i, ps). \<lparr>rls_index = word_of_nat i, rls_prefixes = ps\<rparr>) (enumerate 0 ls)"

lemma find_lpm_set:
  "length ls \<le> 2 ^ 32 \<Longrightarrow> find (\<lambda>s. rls_index s = j) (rev (lpm_sets_of ls)) =
     (if unat j < length ls then Some \<lparr>rls_index = j, rls_prefixes = ls ! unat j\<rparr> else None)"
proof (induction ls rule: rev_induct)
  case (snoc l ls)
  then have "unat (word_of_nat (length ls) :: u32) = length ls" by (simp add: unat_of_nat)
  then have "word_of_nat (length ls) = j \<longleftrightarrow> unat j = length ls"
    by (metis of_nat_unat ucast_id)
  with snoc show ?case by (auto simp: enumerate_append_eq nth_append less_Suc_eq)
qed simp

lemma any_prefix_lpm_hit:
  "length (plan_lpm_sets P) \<le> 2 ^ 32 \<Longrightarrow> any_prefix (lpm_sets_of (plan_lpm_sets P)) j a \<longleftrightarrow> lpm_hit P j a"
  unfolding any_prefix_def lpm_prefixes_def lpm_hit_def
  by (subst find_lpm_set) auto

lemma collect_results_map:
  "(\<And>x. x \<in> set xs \<Longrightarrow> f x = Inr (g x)) \<Longrightarrow> collect_results f xs = Inr (map g xs)"
  by (induction xs) (simp_all add: bind_result_Inr)

lemma plan_domain_patterns:
  assumes "plan_ok E P"
  obtains pats where "\<And>d. d \<in> set (plan_domain_sets P) \<Longrightarrow>
    SharedDomainSet_from_vec E (fst (pats d)) (snd (pats d)) = Inr (rds_values d)"
proof -
  from assms have "\<forall>d \<in> set (plan_domain_sets P). \<exists>p. SharedDomainSet_from_vec E (fst p) (snd p) = Inr (rds_values d)"
    by (force simp: plan_ok_def)
  from bchoice [OF this] that show ?thesis by blast
qed

lemma plan_matcher_clauses:
  assumes "engines_ok E" "plan_ok E P" "length (plan_lpm_sets P) \<le> 2 ^ 32"
    and "userspace_matcher_typed_sets P = Inr (ds, ls, ms)"
  shows "match_query_detail (from_shared_typed_sets ds ls ms) q =
    outcome_result (decide False (rules_of (plan_clauses E P q 0 (plan_matches P))))"
proof -
  let ?ls = "lpm_sets_of (plan_lpm_sets P)" and ?M = "from_shared_typed_sets ds ls ms"
  obtain pats where pats: "\<And>d. d \<in> set (plan_domain_sets P) \<Longrightarrow>
    SharedDomainSet_from_vec E (fst (pats d)) (snd (pats d)) = Inr (rds_values d)"
    using plan_domain_patterns [OF assms(2)] by blast
  define rds where "rds = map (\<lambda>d. \<lparr>rds_bit = rds_rule_index d, rds_key = snd (pats d), rds_patterns = fst (pats d)\<rparr>)
    (plan_domain_sets P)"
  have "collect_results match_set_typed (plan_matches P) = Inr (map typed_of (plan_matches P))"
    using assms(2) by (intro collect_results_map) (auto simp: plan_ok_def list_all_iff set_ok_def typed_of_def)
  with assms(4) have sets: "ds = map (\<lambda>d. \<lparr>rsds_bit = rds_rule_index d, rsds_patterns = rds_values d\<rparr>) (plan_domain_sets P)"
    "ls = map (\<lambda>s. \<lparr>rsls_index = rls_index s, rsls_prefixes = SharedIpPrefixSet_new (rls_prefixes s)\<rparr>) ?ls"
    "ms = map typed_of (plan_matches P)"
    by (auto simp: userspace_matcher_typed_sets_def)
  have "collect_results (\<lambda>s. map_result (\<lambda>patterns. \<lparr>rsds_bit = rds_bit s, rsds_patterns = patterns\<rparr>)
      (SharedDomainSet_from_vec E (rds_patterns s) (rds_key s))) rds = Inr ds"
    unfolding rds_def sets(1) collect_results_Inr
    by (auto simp: list_all2_conv_all_nth pats)
  then have M: "from_typed_sets E rds ?ls ms = Inr ?M"
    by (simp add: from_typed_sets_def sets(2))
  have "kind_holds E rds ?ls q i k = plan_hit E P q i k" for i k
    using any_prefix_lpm_hit [OF assms(3)]
    by (cases k) (auto simp: rds_def SharedDomainSet_matches_iff [OF assms(1) pats])
  then have c: "typed_clause E rds ?ls q i (typed_of m) = plan_clause E P q i m" for i m
    by (simp add: typed_clause_def plan_clause_def Let_def)
  have "map (\<lambda>(j, s). typed_clause E rds ?ls q j s) (enumerate k (map typed_of xs)) = plan_clauses E P q k xs" for k xs
    by (induction xs arbitrary: k) (simp_all add: c)
  note clauses = this
  have "\<forall>s \<in> set ?ls. list_all prefix_ok (rls_prefixes s)"
    using assms(2) by (auto simp: plan_ok_def list_all_iff in_set_enumerate_eq)
  from typed_clauses [OF M assms(1) this] show ?thesis
    unfolding match_query_detail_decide by (simp only: sets(3) clauses)
qed

section \<open>The built plan\<close>

lemma resolved_Inr:
  "resolved groups rules = Inr rs \<longleftrightarrow>
     list_all2 (\<lambda>r x. fst x = r \<and> parse_outbound (rule_outbound r) groups = Inr (snd x)) rules rs"
  unfolding resolved_def collect_results_Inr
  by (rule arg_cong [of _ _ "\<lambda>Q. list_all2 Q rules rs"]) (auto simp: fun_eq_iff map_result_Inr)

lemma decide_fallback_set:
  assumes "os_id out \<noteq> LOGICAL_OR" "os_id out \<noteq> LOGICAL_AND"
  shows "decide must (rules_of (plan_clauses E P q i
    [match_set (replicate 16 0) False MATCH_TYPE_FALLBACK out nm])) = fallback_outcome out must"
proof -
  have "plan_hit E P q i (kind_of (replicate 16 0) MATCH_TYPE_FALLBACK)"
    by (subst kind_of_simps) simp_all
  then have "rule_segments [(True, False)] out
      (plan_clauses E P q i [match_set (replicate 16 0) False MATCH_TYPE_FALLBACK out nm])"
    unfolding rule_segments.simps by (intro segment_single) simp_all
  from decide_rule_segments [OF this _ assms, of must "[]"] show ?thesis
    by (simp add: fallback_outcome_def rules_of_def)
qed

lemma build_routing_plan_decides:
  assumes "engines_ok E" "build_routing_plan E assets config = Inr P"
  obtains groups rules rs f fb where "outbound_groups (config_groups config) = Inr groups"
    "optimize_routing_rules assets (config_rules config) = Inr rules" "resolved groups rules = Inr rs"
    "dynamic_to_single_function (config_fallback config) = Inr f" "parse_outbound f groups = Inr fb"
    "plan_ok E P" "length (plan_matches P) \<le> unat MAX_MATCH_SET_LEN"
    "\<And>q. decide False (rules_of (plan_clauses E P q 0 (plan_matches P))) =
      decide_rules E q (fallback_outcome fb) False rs"
proof -
  let ?P0 = "\<lparr>plan_matches = [], plan_lpm_sets = [], plan_domain_sets = []\<rparr>"
  from assms(2) obtain groups rules P1 f fb where g: "outbound_groups (config_groups config) = Inr groups"
    and r: "optimize_routing_rules assets (config_rules config) = Inr rules"
    and c: "compile_rules E groups 0 rules ?P0 = Inr P1"
    and f: "dynamic_to_single_function (config_fallback config) = Inr f" "parse_outbound f groups = Inr fb"
    and P: "P = P1\<lparr>plan_matches := plan_matches P1 @ [match_set (replicate 16 0) False MATCH_TYPE_FALLBACK fb ''Fallback'']\<rparr>"
      "length (plan_matches P) \<le> unat MAX_MATCH_SET_LEN"
    by (auto simp: build_routing_plan_def bind_result_Inr Let_def split: if_splits)
  note gok = outbound_groups_ok [OF g]
  have "plan_ok E ?P0" by (simp add: plan_ok_def)
  from compile_rules_decide [OF assms(1) gok c this] obtain rs where ok: "plan_ok E P1" and rs: "resolved groups rules = Inr rs"
    and d: "\<And>Q q must rest. extends P1 Q \<Longrightarrow> length (plan_lpm_sets Q) \<le> 2 ^ 32 \<Longrightarrow>
        decide must (rules_of (plan_clauses E Q q 0 (plan_matches P1) @ rest)) =
        decide_rules E q (\<lambda>must. decide must (rules_of rest)) must rs" by (auto simp: new_sets_def)
  have ext: "extends P1 P" by (simp add: extends_def P)
  have okP: "plan_ok E P"
    using ok match_set_ok [of "replicate 16 0" MATCH_TYPE_FALLBACK _ False fb "''Fallback''"]
    by (auto simp: plan_ok_def P less_Suc_eq match_type_consts)
  then have "length (plan_lpm_sets P) \<le> 2 ^ 32" using P(2) by (simp add: plan_ok_def MAX_MATCH_SET_LEN_def)
  from d [OF ext this] have "decide False (rules_of (plan_clauses E P q 0 (plan_matches P))) =
      decide_rules E q (fallback_outcome fb) False rs" for q
    unfolding P(1) by (simp add: plan_clauses_append decide_fallback_set [OF parse_outbound_not_logical [OF gok f(2)]] del: plan_clauses_Cons)
  with g r rs f okP P(2) show ?thesis by (intro that)
qed

section \<open>The optimiser\<close>

definition outbound_spec :: "(string \<rightharpoonup> u8) \<Rightarrow> Function \<Rightarrow> OutboundSpec" where
  "outbound_spec groups f = (case parse_outbound f groups of Inr out \<Rightarrow> out | Inl _ \<Rightarrow> logical_outbound 0)"

abbreviation with_specs :: "(string \<rightharpoonup> u8) \<Rightarrow> RoutingRule list \<Rightarrow> (RoutingRule \<times> OutboundSpec) list" where
  "with_specs groups rules \<equiv> map (\<lambda>r. (r, outbound_spec groups (rule_outbound r))) rules"

lemma resolved_iff:
  "resolved groups rules = Inr rs \<longleftrightarrow>
     (\<forall>f \<in> rule_outbound ` set rules. \<exists>out. parse_outbound f groups = Inr out) \<and> rs = with_specs groups rules"
proof (induction rules arbitrary: rs)
  case (Cons r rules)
  show ?case
    by (cases "parse_outbound (rule_outbound r) groups"; cases "resolved groups rules")
      (use Cons.IH in \<open>auto simp: resolved_def outbound_spec_def bind_result_Inr\<close>)
qed (auto simp: resolved_def)

lemma decide_rules_append:
  "decide_rules E q k must (xs @ ys) = decide_rules E q (\<lambda>must. decide_rules E q k must ys) must xs"
  by (induction E q "\<lambda>must. decide_rules E q k must ys" must xs rule: decide_rules.induct) simp_all

lemma decide_rules_same:
  assumes "\<And>r. r \<in> set rules \<Longrightarrow> config_rule_holds E q (g r) = config_rule_holds E q r \<and> rule_outbound (g r) = rule_outbound r"
  shows "decide_rules E q k must (with_specs groups (map g rules)) = decide_rules E q k must (with_specs groups rules)"
  using assms by (induction rules arbitrary: must) simp_all

text \<open>Merging two rules with the same outbound keeps the decision, unless they are negated.\<close>

abbreviation singleton_of :: "RoutingRule \<Rightarrow> Function" where
  "singleton_of r \<equiv> rule_and_functions r ! 0"

definition keeps_decision :: "RoutingRule \<Rightarrow> RoutingRule \<Rightarrow> bool" where
  "keeps_decision l r \<longleftrightarrow> \<not> (can_merge_singleton_rule l r \<and> fn_not (singleton_of l))"

lemma singleton_rule:
  "length (rule_and_functions r) = 1 \<Longrightarrow> rule_and_functions r = [singleton_of r]"
  by (cases "rule_and_functions r") simp_all

lemma append_singleton_holds:
  assumes "can_merge_singleton_rule l r" "\<not> fn_not (singleton_of l)"
  shows "config_rule_holds E q (append_singleton l r) \<longleftrightarrow> config_rule_holds E q l \<or> config_rule_holds E q r"
proof -
  obtain f g where f: "rule_and_functions l = [f]" and g: "rule_and_functions r = [g]"
    using assms(1) singleton_rule by (auto simp: can_merge_singleton_rule_def)
  with assms show ?thesis
    by (auto simp: config_rule_holds_def append_singleton_def Let_def function_holds_def can_merge_singleton_rule_def)
qed

lemma append_singleton_keeps:
  assumes "can_merge_singleton_rule l r"
  shows "rule_outbound (append_singleton l r) = rule_outbound l" "rule_outbound r = rule_outbound l"
    "keeps_decision (append_singleton l r) x \<longleftrightarrow> keeps_decision r x"
  using assms by (auto simp: append_singleton_def Let_def can_merge_singleton_rule_def keeps_decision_def)

lemma decide_merged_pair:
  assumes "can_merge_singleton_rule l r" "keeps_decision l r"
  shows "decide_rules E q k must (with_specs groups (append_singleton l r # rules)) =
    decide_rules E q k must (with_specs groups (l # r # rules))"
  using assms append_singleton_holds [of l r E q] append_singleton_keeps [OF assms(1)]
  by (auto simp: keeps_decision_def)

lemma merge_rules_outbounds:
  "rule_outbound ` set (merge_rules merged rules) = rule_outbound ` set (merged @ rules)"
proof (induction merged rules rule: merge_rules.induct)
  case (2 merged rule rules)
  show ?case
  proof (cases "merged \<noteq> [] \<and> can_merge_singleton_rule (last merged) rule")
    case True
    then obtain xs x where "merged = xs @ [x]" by (metis append_butlast_last_id)
    with True 2(1) [OF True] show ?thesis by (simp add: append_singleton_keeps insert_absorb2 insert_commute)
  next
    case False
    with 2 show ?thesis by auto
  qed
qed simp

lemma merge_rules_decide:
  "successively keeps_decision ((if merged = [] then [] else [last merged]) @ rules) \<Longrightarrow>
     decide_rules E q k must (with_specs groups (merge_rules merged rules)) =
     decide_rules E q k must (with_specs groups (merged @ rules))"
proof (induction merged rules rule: merge_rules.induct)
  case (2 merged rule rules)
  show ?case
  proof (cases "merged \<noteq> [] \<and> can_merge_singleton_rule (last merged) rule")
    case True
    then obtain xs x where m: "merged = xs @ [x]" by (metis append_butlast_last_id)
    with True have c: "can_merge_singleton_rule x rule" by simp
    from c 2(3) have k: "keeps_decision x rule" "successively keeps_decision (append_singleton x rule # rules)"
      by (auto simp: m successively_Cons append_singleton_keeps)
    have "decide_rules E q k must (with_specs groups (merge_rules (xs @ [append_singleton x rule]) rules)) =
        decide_rules E q k must (with_specs groups (xs @ [append_singleton x rule]) @ with_specs groups rules)"
      using 2(1) [OF True] k(2) by (simp add: m)
    also have "\<dots> = decide_rules E q k must (with_specs groups (merged @ rule # rules))"
      using decide_merged_pair [OF c k(1), of E q k _ groups rules]
      by (simp add: m decide_rules_append del: decide_rules.simps)
    finally show ?thesis using c by (simp add: m)
  next
    case False
    with 2(2) [OF False] 2(3) show ?thesis by (auto simp: successively_Cons split: if_splits)
  qed
qed simp

lemma dedup_params_pairs:
  "(\<exists>p \<in> set (dedup_params ps). Q (param_key p) (param_val p)) \<longleftrightarrow> (\<exists>p \<in> set ps. Q (param_key p) (param_val p))"
  by (induction ps rule: dedup_params.induct) auto

lemma optimised_function_holds:
  "function_holds E q (deduplicate_function_params (sort_function_params f)) = function_holds E q f"
  unfolding function_holds_def deduplicate_function_params_def
  by (simp add: dedup_params_pairs sort_function_params_def)

definition expand_rule :: "assets \<Rightarrow> RoutingRule \<Rightarrow> (string, RoutingRule) result" where
  "expand_rule assets rule =
     map_result (\<lambda>fs. rule\<lparr>rule_and_functions := fs\<rparr>)
       (collect_results (\<lambda>f. expand_function_params assets (aliased_function f)) (rule_and_functions rule))"

abbreviation sorted_rule :: "RoutingRule \<Rightarrow> RoutingRule" where
  "sorted_rule r \<equiv> r\<lparr>rule_and_functions := sort_key fn_name (rule_and_functions r)\<rparr>"

lemma prepare_rule_expand: "prepare_rule assets r = map_result sorted_rule (expand_rule assets r)"
  by (cases "collect_results (\<lambda>f. expand_function_params assets (aliased_function f)) (rule_and_functions r)")
    (simp_all add: prepare_rule_def expand_rule_def)

lemma collect_results_post:
  "collect_results (\<lambda>x. map_result g (f x)) xs = map_result (map g) (collect_results f xs)"
proof (induction xs)
  case (Cons x xs)
  then show ?case by (cases "f x"; cases "collect_results f xs") simp_all
qed simp

lemma sorted_rule_holds: "config_rule_holds E q (sorted_rule r) = config_rule_holds E q r"
  by (simp add: config_rule_holds_def) (metis length_0_conv length_sort)

lemma sorted_rule_keeps: "keeps_decision (sorted_rule l) (sorted_rule r) = keeps_decision l r"
proof -
  have one: "length fs = 1 \<Longrightarrow> sort_key fn_name fs = fs" for fs :: "Function list"
    by (cases fs) simp_all
  show ?thesis
    by (cases "length (rule_and_functions l) = 1 \<and> length (rule_and_functions r) = 1")
      (auto simp: keeps_decision_def can_merge_singleton_rule_def one)
qed

definition negated_singletons_apart :: "RoutingRule list \<Rightarrow> bool" where
  "negated_singletons_apart rules \<longleftrightarrow> successively keeps_decision rules"

lemma optimize_routing_rules_decide:
  assumes "optimize_routing_rules assets rules = Inr opt" "collect_results (expand_rule assets) rules = Inr exp"
    and "negated_singletons_apart exp"
  shows "decide_rules E q k must (with_specs groups opt) = decide_rules E q k must (with_specs groups exp)"
    "rule_outbound ` set opt = rule_outbound ` set exp"
proof -
  let ?f = "\<lambda>rule. rule\<lparr>rule_and_functions :=
    map (\<lambda>f. deduplicate_function_params (sort_function_params f)) (rule_and_functions rule)\<rparr>"
  have prepared: "collect_results (prepare_rule assets) rules = Inr (map sorted_rule exp)"
    using assms(2) by (simp add: prepare_rule_expand [abs_def] collect_results_post)
  with assms(1) have opt: "opt = map ?f (merge_rules [] (map sorted_rule exp))"
    by (simp add: optimize_routing_rules_def)
  have "successively keeps_decision (map sorted_rule exp)"
    using assms(3) by (simp add: negated_singletons_apart_def successively_map sorted_rule_keeps)
  then have "decide_rules E q k must (with_specs groups (merge_rules [] (map sorted_rule exp))) =
      decide_rules E q k must (with_specs groups (map sorted_rule exp))"
    by (subst merge_rules_decide) simp_all
  moreover have "config_rule_holds E q (?f r) = config_rule_holds E q r" for r
    by (auto simp: config_rule_holds_def optimised_function_holds)
  ultimately show "decide_rules E q k must (with_specs groups opt) = decide_rules E q k must (with_specs groups exp)"
    unfolding opt by (subst decide_rules_same, simp, subst decide_rules_same [of exp, symmetric, where g = sorted_rule])
      (simp_all add: sorted_rule_holds)
  show "rule_outbound ` set opt = rule_outbound ` set exp"
    using merge_rules_outbounds [of "[]" "map sorted_rule exp"] by (simp add: opt image_image)
qed

text \<open>What the configuration decides, without the optimiser, the match sets and the matcher.\<close>

definition config_outcome :: "engines \<Rightarrow> assets \<Rightarrow> RoutingConfig \<Rightarrow> Query \<Rightarrow> (string, MatchOutcome option) result" where
  "config_outcome E assets config q =
     bind_result (outbound_groups (config_groups config)) (\<lambda>groups.
     bind_result (collect_results (expand_rule assets) (config_rules config)) (\<lambda>rules.
     bind_result (resolved groups rules) (\<lambda>rs.
     bind_result (dynamic_to_single_function (config_fallback config)) (\<lambda>f.
     map_result (\<lambda>fallback. decide_rules E q (fallback_outcome fallback) False rs) (parse_outbound f groups)))))"

text \<open>The matcher decides by the optimised rules.\<close>

lemma built_matcher_decides:
  assumes "engines_ok E" "build_resident_userspace_routing_matcher E assets config = Inr M"
  obtains groups rules f fb where "outbound_groups (config_groups config) = Inr groups"
    "optimize_routing_rules assets (config_rules config) = Inr rules"
    "\<forall>out \<in> rule_outbound ` set rules. \<exists>spec. parse_outbound out groups = Inr spec"
    "dynamic_to_single_function (config_fallback config) = Inr f" "parse_outbound f groups = Inr fb"
    "\<And>q. match_query_detail M q =
      outcome_result (decide_rules E q (fallback_outcome fb) False (with_specs groups rules))"
proof -
  from assms(2) obtain P ds ls ms where P: "build_routing_plan E assets config = Inr P"
    and t: "userspace_matcher_typed_sets P = Inr (ds, ls, ms)" and M: "M = from_shared_typed_sets ds ls ms"
    by (auto simp: build_resident_userspace_routing_matcher_def bind_result_Inr map_result_Inr)
  show ?thesis
  proof (rule build_routing_plan_decides [OF assms(1) P])
    fix groups rules rs f fb
    assume g: "outbound_groups (config_groups config) = Inr groups"
      and opt: "optimize_routing_rules assets (config_rules config) = Inr rules" and rs: "resolved groups rules = Inr rs"
      and f: "dynamic_to_single_function (config_fallback config) = Inr f" "parse_outbound f groups = Inr fb"
      and ok: "plan_ok E P" "length (plan_matches P) \<le> unat MAX_MATCH_SET_LEN"
      and d: "\<And>q. decide False (rules_of (plan_clauses E P q 0 (plan_matches P))) =
        decide_rules E q (fallback_outcome fb) False rs"
    have "length (plan_lpm_sets P) \<le> 2 ^ 32" using ok by (simp add: plan_ok_def MAX_MATCH_SET_LEN_def)
    from plan_matcher_clauses [OF assms(1) ok(1) this t]
    have "match_query_detail M q = outcome_result (decide_rules E q (fallback_outcome fb) False rs)" for q
      by (simp add: M d)
    with g opt f rs show thesis unfolding resolved_iff by (intro that) blast+
  qed
qed

text \<open>A configuration with rules on the destination port, used by the witnesses.\<close>

abbreviation port_rule :: "bool \<Rightarrow> string \<Rightarrow> RoutingRule" where
  "port_rule neg port \<equiv> \<lparr>rule_and_functions = [Function ''dport'' neg [plain_param [] port]],
     rule_outbound = Function ''proxy'' False []\<rparr>"

abbreviation port_config :: "RoutingRule list \<Rightarrow> RoutingConfig" where
  "port_config rules \<equiv> \<lparr>config_groups = [''proxy''], config_rules = rules, config_fallback = DynString ''direct''\<rparr>"

lemma expand_port_rule:
  "expand_rule assets (port_rule neg port) =
     Inr \<lparr>rule_and_functions = [Function ''port'' neg [plain_param [] port]], rule_outbound = Function ''proxy'' False []\<rparr>"
  by (simp add: expand_rule_def aliased_function_def expand_function_params_def expand_param_def normalize_param_def)

lemma prepare_port_rule:
  "prepare_rule assets (port_rule neg port) =
     Inr \<lparr>rule_and_functions = [Function ''port'' neg [plain_param [] port]], rule_outbound = Function ''proxy'' False []\<rparr>"
  by (simp add: prepare_rule_expand expand_port_rule)

lemma port_texts: "parse_port_range ''80'' = Inr (80, 80)" "parse_port_range ''443'' = Inr (443, 443)"
proof -
  have "parse_uint 10 65535 ''80'' = Inr 80" "parse_uint 10 65535 ''443'' = Inr 443"
    by (simp_all add: parse_uint_def to_digit_def)
  then show "parse_port_range ''80'' = Inr (80, 80)" "parse_port_range ''443'' = Inr (443, 443)"
    by (simp_all add: parse_port_range_def parse_u16_def)
qed

lemma proxy_groups: "outbound_groups [''proxy''] = Inr [''direct'' \<mapsto> 0, ''block'' \<mapsto> 1, ''proxy'' \<mapsto> 2]"
  by (simp add: outbound_groups_def outbound_consts)

lemma proxy_outbound:
  "parse_outbound (Function ''proxy'' False []) [''direct'' \<mapsto> 0, ''block'' \<mapsto> 1, ''proxy'' \<mapsto> 2] =
     Inr \<lparr>os_id = 2, os_mark = 0, os_must = False, os_name = ''proxy''\<rparr>"
  "parse_outbound (Function ''direct'' False []) [''direct'' \<mapsto> 0, ''block'' \<mapsto> 1, ''proxy'' \<mapsto> 2] =
     Inr \<lparr>os_id = 0, os_mark = 0, os_must = False, os_name = ''direct''\<rparr>"
  by (simp_all add: parse_outbound_def ok_or_def)

lemma optimize_negated_ports:
  "optimize_routing_rules assets [port_rule True ''80'', port_rule True ''443''] =
     Inr [\<lparr>rule_and_functions = [Function ''port'' True [plain_param [] ''443'', plain_param [] ''80'']],
           rule_outbound = Function ''proxy'' False []\<rparr>]"
  by (simp add: optimize_routing_rules_def prepare_port_rule can_merge_singleton_rule_def append_singleton_def
      sort_function_params_def deduplicate_function_params_def)

lemma optimize_port:
  "optimize_routing_rules assets [port_rule False ''443''] =
     Inr [\<lparr>rule_and_functions = [Function ''port'' False [plain_param [] ''443'']],
           rule_outbound = Function ''proxy'' False []\<rparr>]"
  by (simp add: optimize_routing_rules_def prepare_port_rule sort_function_params_def deduplicate_function_params_def)

lemma build_port_config:
  assumes "optimize_routing_rules assets rules = Inr [\<lparr>rule_and_functions = [Function ''port'' neg ps],
      rule_outbound = Function ''proxy'' False []\<rparr>]"
    and "ps = [plain_param [] ''443'', plain_param [] ''80''] \<or> ps = [plain_param [] ''443'']"
  shows "\<exists>M. build_resident_userspace_routing_matcher E assets (port_config rules) = Inr M"
  using assms(2)
  by (elim disjE; simp add: build_resident_userspace_routing_matcher_def build_routing_plan_def assms(1) proxy_groups
    proxy_outbound compile_rule_def grouped_params_def group_values_def add_function_match_sets_def port_texts
    chained_sets_def MAX_MATCH_SET_LEN_def userspace_matcher_typed_sets_def match_set_typed_eq match_type_consts bind_result_Inr)

lemmas build_one_port = build_port_config [OF optimize_port, simplified]

lemma outbound_groups_loop_names:
  "outbound_groups_loop index names groups = Inr groups' \<Longrightarrow>
     distinct names \<and> set names \<inter> dom groups = {} \<and> dom groups' = dom groups \<union> set names \<and>
     (names \<noteq> [] \<longrightarrow> index + length names \<le> 250)"
proof (induction index names groups rule: outbound_groups_loop.induct)
  case (2 index name names groups)
  then have c: "index \<le> 249" "groups name = None"
    and rest: "outbound_groups_loop (Suc index) names (groups(name \<mapsto> word_of_nat (index + unat USER_DEFINED_MIN))) = Inr groups'"
    by (auto simp: Let_def outbound_consts split: if_splits)
  from 2(1) [OF refl _ _ rest] c show ?case by (auto simp: outbound_consts)
qed simp

lemma parse_outbound_named:
  "parse_outbound f groups = Inr out \<Longrightarrow> fn_name f = ''must_rules'' \<or> fn_name f \<in> dom groups"
  by (auto simp: parse_outbound_def bind_result_Inr ok_or_Inr split: if_splits)

lemma compile_rules_outbounds:
  "compile_rules E groups i rules P = Inr P' \<Longrightarrow> out \<in> rule_outbound ` set rules \<Longrightarrow>
     \<exists>spec. parse_outbound out groups = Inr spec"
  by (induction rules arbitrary: i P) (auto simp: bind_result_Inr map_err_Inr compile_rule_def)

lemma optimize_routing_rules_outbounds:
  assumes "optimize_routing_rules assets rules = Inr opt"
  shows "rule_outbound ` set opt = rule_outbound ` set rules"
proof -
  from assms obtain ps where ps: "collect_results (prepare_rule assets) rules = Inr ps"
    and opt: "rule_outbound ` set opt = rule_outbound ` set (merge_rules [] ps)"
    by (auto simp: optimize_routing_rules_def map_result_Inr image_image)
  have "map rule_outbound ps = map rule_outbound rules"
    using ps by (induction rules arbitrary: ps) (auto simp: bind_result_Inr prepare_rule_def map_result_Inr)
  from arg_cong [OF this, of set] opt show ?thesis by (simp add: merge_rules_outbounds)
qed

lemma decide_rules_some:
  "(\<And>must. otherwise must \<noteq> None) \<Longrightarrow> decide_rules E q otherwise must rs \<noteq> None"
  by (induction E q otherwise must rs rule: decide_rules.induct) auto

section \<open>Properties\<close>

text \<open>
  C2. The userspace matcher that is built from a routing configuration decides every query as the
  configuration says: the first rule all of whose functions hold gives the outbound, a function holds when one of its
  parameters (with geodata categories expanded) does, or none when it is negated, \<^verbatim>\<open>must_rules\<close> marks the
  outcome of what follows, and the fallback decides otherwise.  The optimiser, the byte images of
  the match sets and the prefix and domain tables do not change the decision, provided no two
  neighbouring rules are negated singletons of the same function with the same outbound.
\<close>

theorem build_matcher_decides_config:
  assumes "engines_ok E" and "build_resident_userspace_routing_matcher E assets config = Inr M"
    and "collect_results (expand_rule assets) (config_rules config) = Inr rules"
    and "negated_singletons_apart rules"
  shows "\<exists>d. config_outcome E assets config q = Inr d \<and> match_query_detail M q = outcome_result d"
proof (rule built_matcher_decides [OF assms(1,2)])
  fix groups opt f fb
  assume g: "outbound_groups (config_groups config) = Inr groups"
    and opt: "optimize_routing_rules assets (config_rules config) = Inr opt"
    and outs: "\<forall>out \<in> rule_outbound ` set opt. \<exists>spec. parse_outbound out groups = Inr spec"
    and f: "dynamic_to_single_function (config_fallback config) = Inr f" "parse_outbound f groups = Inr fb"
    and m: "\<And>q. match_query_detail M q =
      outcome_result (decide_rules E q (fallback_outcome fb) False (with_specs groups opt))"
  note same = optimize_routing_rules_decide [OF opt assms(3,4)]
  have "resolved groups rules = Inr (with_specs groups rules)"
    using outs unfolding resolved_iff same(2) by simp
  then show ?thesis
    using g f assms(3) same(1) m by (simp add: config_outcome_def)
qed


theorem build_matcher_decides_config_witness:
  "\<exists>M. build_resident_userspace_routing_matcher literal_engines (\<lambda>_. Inl []) (port_config [port_rule False ''443'']) = Inr M \<and>
     match_query_detail M (Query_tcp (V4 1) 443 []) =
       Inr \<lparr>outcome_outbound = 2, outcome_mark = 0, outcome_must = False\<rparr>"
proof -
  let ?c = "port_config [port_rule False ''443'']" and ?q = "Query_tcp (V4 1) 443 []"
  obtain M where M: "build_resident_userspace_routing_matcher literal_engines (\<lambda>_. Inl []) ?c = Inr M"
    using build_one_port by blast
  have rules: "collect_results (expand_rule (\<lambda>_. Inl [])) (config_rules ?c) =
      Inr [\<lparr>rule_and_functions = [Function ''port'' False [plain_param [] ''443'']], rule_outbound = Function ''proxy'' False []\<rparr>]"
    by (simp add: expand_port_rule)
  have "config_outcome literal_engines (\<lambda>_. Inl []) ?c ?q =
      Inr (Some \<lparr>outcome_outbound = 2, outcome_mark = 0, outcome_must = False\<rparr>)"
    by (simp add: config_outcome_def proxy_groups expand_port_rule resolved_def proxy_outbound config_rule_holds_def
        function_holds_def param_holds_def port_texts Query_tcp_def Query_default_def spec_outcome_def outbound_consts)
  with build_matcher_decides_config [OF literal_engines_ok M rules, of ?q] M show ?thesis
    by (auto simp: negated_singletons_apart_def outcome_result_def)
qed

text \<open>
  C7. A matcher built from a configuration answers every query, unless the fallback is
  \<^verbatim>\<open>must_rules\<close>.
\<close>

theorem built_matcher_answers:
  assumes "engines_ok E" and "build_resident_userspace_routing_matcher E assets config = Inr M"
    and "dynamic_to_single_function (config_fallback config) = Inr f" and "fn_name f \<noteq> ''must_rules''"
  shows "\<exists>out. match_query_detail M q = Inr out"
proof (rule built_matcher_decides [OF assms(1,2)])
  fix groups rules f' fb
  assume g: "outbound_groups (config_groups config) = Inr groups"
    and f: "dynamic_to_single_function (config_fallback config) = Inr f'" "parse_outbound f' groups = Inr fb"
    and m: "\<And>q. match_query_detail M q =
      outcome_result (decide_rules E q (fallback_outcome fb) False (with_specs groups rules))"
  from f assms(3,4) have "groups (fn_name f) = Some (os_id fb)"
    by (auto simp: parse_outbound_def bind_result_Inr ok_or_Inr)
  with outbound_groups_ok [OF g] have "os_id fb \<le> USER_DEFINED_MAX" by (auto simp: groups_ok_def ran_def)
  then have "os_id fb \<noteq> MUST_RULES" by (auto simp: outbound_consts)
  then have "fallback_outcome fb must \<noteq> None" for must by (simp add: fallback_outcome_def)
  then have "decide_rules E q (fallback_outcome fb) False (with_specs groups rules) \<noteq> None"
    by (rule decide_rules_some)
  then show ?thesis by (auto simp: m outcome_result_def ok_or_Inr)
qed

theorem built_matcher_answers_witness:
  "\<exists>M out. build_resident_userspace_routing_matcher literal_engines (\<lambda>_. Inl []) (port_config [port_rule False ''443'']) = Inr M \<and>
     match_query_detail M Query_default = Inr out"
proof -
  let ?c = "port_config [port_rule False ''443'']"
  obtain M where M: "build_resident_userspace_routing_matcher literal_engines (\<lambda>_. Inl []) ?c = Inr M"
    using build_one_port by blast
  with built_matcher_answers [OF literal_engines_ok M] show ?thesis by simp
qed

text \<open>
  C8. A plan that is built fits the kernel maps: at most 1024 match sets of 24 bytes each, every
  prefix set a match set refers to exists, the prefix sets hold only valid prefixes, and the bit
  of a domain set is the index of a match set.
\<close>

theorem build_plan_bounds:
  assumes "engines_ok E" and "build_routing_plan E assets config = Inr P"
  shows "0 < length (plan_matches P) \<and> length (plan_matches P) \<le> 1024 \<and>
    (\<forall>m \<in> set (plan_matches P). length (msb_bytes m) = 24 \<and>
       (\<exists>t. match_set_typed m = Inr t \<and>
         (\<forall>j. lpm_index_of (rms_kind t) = Some j \<longrightarrow> unat j < length (plan_lpm_sets P)))) \<and>
    (\<forall>ps \<in> set (plan_lpm_sets P). \<forall>p \<in> set ps. prefix_ok p) \<and>
    (\<forall>d \<in> set (plan_domain_sets P). rds_rule_index d < length (plan_matches P))"
proof -
  have "plan_matches P \<noteq> []"
    using assms(2) by (auto simp: build_routing_plan_def bind_result_Inr Let_def split: if_splits)
  moreover have "plan_ok E P" "length (plan_matches P) \<le> unat MAX_MATCH_SET_LEN"
    by (rule build_routing_plan_decides [OF assms]; assumption)+
  ultimately show ?thesis by (auto simp: plan_ok_def list_all_iff set_ok_def MAX_MATCH_SET_LEN_def)
qed

theorem build_plan_bounds_witness:
  "\<exists>P. build_routing_plan literal_engines (\<lambda>_. Inl []) (port_config [port_rule False ''443'']) = Inr P \<and>
     0 < length (plan_matches P) \<and> length (plan_matches P) \<le> 1024"
proof -
  obtain P where P: "build_routing_plan literal_engines (\<lambda>_. Inl []) (port_config [port_rule False ''443'']) = Inr P"
    using build_one_port [of literal_engines "\<lambda>_. Inl []"]
    by (auto simp: build_resident_userspace_routing_matcher_def bind_result_Inr)
  with build_plan_bounds [OF literal_engines_ok P] show ?thesis by blast
qed

text \<open>
  C9. A configuration with a repeated or reserved group name, with more than 250 groups, or with a
  rule whose outbound names no group is not built.
\<close>

theorem build_names_resolved:
  assumes "build_routing_plan E assets config = Inr P"
  shows "distinct (''direct'' # ''block'' # config_groups config) \<and> length (config_groups config) \<le> 250 \<and>
    (\<forall>r \<in> set (config_rules config).
       fn_name (rule_outbound r) \<in> set (''must_rules'' # ''direct'' # ''block'' # config_groups config))"
proof -
  from assms obtain groups opt P1 where g: "outbound_groups (config_groups config) = Inr groups"
    and o: "optimize_routing_rules assets (config_rules config) = Inr opt"
    and c: "compile_rules E groups 0 opt \<lparr>plan_matches = [], plan_lpm_sets = [], plan_domain_sets = []\<rparr> = Inr P1"
    by (auto simp: build_routing_plan_def bind_result_Inr)
  note n = outbound_groups_loop_names [OF g [unfolded outbound_groups_def]]
  have "fn_name (rule_outbound r) = ''must_rules'' \<or> fn_name (rule_outbound r) \<in> dom groups"
    if "r \<in> set (config_rules config)" for r
    using that compile_rules_outbounds [OF c, of "rule_outbound r"] optimize_routing_rules_outbounds [OF o]
    by (auto dest: parse_outbound_named)
  with n show ?thesis by fastforce
qed

theorem build_names_resolved_witness:
  "\<exists>P. build_routing_plan literal_engines (\<lambda>_. Inl []) (port_config [port_rule False ''443'']) = Inr P \<and>
     distinct [''direct'', ''block'', ''proxy'']"
proof -
  obtain P where P: "build_routing_plan literal_engines (\<lambda>_. Inl []) (port_config [port_rule False ''443'']) = Inr P"
    using build_one_port [of literal_engines "\<lambda>_. Inl []"]
    by (auto simp: build_resident_userspace_routing_matcher_def bind_result_Inr)
  from build_names_resolved [OF P] have "distinct [''direct'', ''block'', ''proxy'']" unfolding RoutingConfig.simps by (rule conjunct1)
  with P show ?thesis by blast
qed

text \<open>
  C10. The optimiser merges neighbouring single-function rules also when both are negated, which
  joins \<^verbatim>\<open>!port(80) -> proxy\<close> and \<^verbatim>\<open>!port(443) -> proxy\<close> to \<^verbatim>\<open>!port(80, 443) -> proxy\<close>: a
  connection to port 443 falls through to the fallback although the first rule sends it to the
  proxy.
\<close>

theorem negated_rules_merged:
  "\<exists>M. build_resident_userspace_routing_matcher literal_engines assets
        (port_config [port_rule True ''80'', port_rule True ''443'']) = Inr M \<and>
     match_query_detail M (Query_tcp a 443 []) =
       Inr \<lparr>outcome_outbound = DIRECT, outcome_mark = 0, outcome_must = False\<rparr> \<and>
     config_outcome literal_engines assets (port_config [port_rule True ''80'', port_rule True ''443'']) (Query_tcp a 443 []) =
       Inr (Some \<lparr>outcome_outbound = 2, outcome_mark = 0, outcome_must = False\<rparr>)"
proof -
  let ?c = "port_config [port_rule True ''80'', port_rule True ''443'']" and ?q = "Query_tcp a 443 []"
  obtain M where M: "build_resident_userspace_routing_matcher literal_engines assets ?c = Inr M"
    using build_port_config [OF optimize_negated_ports] by blast
  note holds = config_rule_holds_def function_holds_def param_holds_def port_texts Query_tcp_def Query_default_def
    fallback_outcome_def outbound_consts spec_outcome_def outbound_spec_def proxy_outbound
  have "match_query_detail M ?q = Inr \<lparr>outcome_outbound = DIRECT, outcome_mark = 0, outcome_must = False\<rparr>"
  proof (rule built_matcher_decides [OF literal_engines_ok M])
    fix groups rules f fb
    assume "outbound_groups (config_groups ?c) = Inr groups"
      "optimize_routing_rules assets (config_rules ?c) = Inr rules"
      "dynamic_to_single_function (config_fallback ?c) = Inr f" "parse_outbound f groups = Inr fb"
      "\<And>q. match_query_detail M q = outcome_result
         (decide_rules literal_engines q (fallback_outcome fb) False (with_specs groups rules))"
    then show ?thesis
      by (auto simp: proxy_groups optimize_negated_ports proxy_outbound outcome_result_def holds)
  qed
  moreover have "config_outcome literal_engines assets ?c ?q =
      Inr (Some \<lparr>outcome_outbound = 2, outcome_mark = 0, outcome_must = False\<rparr>)"
    by (simp add: config_outcome_def proxy_groups expand_port_rule resolved_def proxy_outbound holds)
  ultimately show ?thesis using M by blast
qed

end
