(* ===== verification/Domain_Routing.thy ===== *)
theory Domain_Routing
  imports Bpf_Abi "HOL-Library.Finite_Map" "HOL-Library.Char_ord" "HOL-Library.List_Lexorder"
begin

text \<open>
  The ownership of \<^verbatim>\<open>domain_routing_map\<close>, the kernel map from destination addresses to domain
  bitmaps (\<^verbatim>\<open>dae-runtime-control/src/domain_routing\<close>).  Every DNS answer owns the addresses it lists
  with the bitmap of its name; an address carries the disjunction of the bitmaps of its owners.  A
  tracker follows owners and addresses and plans the changes of the map, an owner applies batches of
  events, and \<^verbatim>\<open>apply_domain_routing_map_by_id\<close> of \<^verbatim>\<open>dae-ebpf-support/src/routing_maps.rs\<close> writes a plan
  with a rollback.

  Hash maps are finite maps, an address key is the list of its four words.  The system calls on the
  map are the parameter \<open>map_sys\<close>; a value is the list of its 32 words.
\<close>

section \<open>Data\<close>

type_synonym DomainRoutingIpKey = "u32 list"

type_synonym bitmap = "u32 list"

datatype io_error = ENOENT | OsError string | InvalidInput string | OtherError string

record DomainRoutingOwnerSnapshot =
  snap_bitmap :: bitmap
  snap_ips :: "DomainRoutingIpKey list"

record DomainRoutingDnsEvent =
  ev_owner_key :: string
  ev_bitmap :: bitmap
  ev_ips :: "DomainRoutingIpKey list"

record IpState =
  st_owners :: "(string, bitmap) fmap"
  st_merged :: bitmap

record DomainRoutingTracker =
  tr_owners :: "(string, DomainRoutingOwnerSnapshot) fmap"
  tr_ips :: "(DomainRoutingIpKey, IpState) fmap"

record DomainRoutingStateEntry =
  entry_key :: DomainRoutingIpKey
  entry_bitmap :: bitmap

record DomainRoutingSyncPlan =
  plan_updates :: "DomainRoutingStateEntry list"
  plan_deletes :: "DomainRoutingIpKey list"
  plan_owner_count :: nat
  plan_ip_count :: nat

record DomainRoutingOwner =
  own_map_id :: "u32 option"
  own_tracker :: DomainRoutingTracker

record DomainRoutingOwnerUpdate =
  upd_map_id :: "u32 option"
  upd_plan :: DomainRoutingSyncPlan
  upd_flush :: bool

record DomainRoutingOwnerApplyReport =
  rep_map_id :: u32
  rep_map_id_changed :: bool
  rep_skipped :: bool
  rep_owner_snapshot_changed :: bool
  rep_affected_keys :: nat
  rep_entries_updated :: nat
  rep_entries_deleted :: nat
  rep_owner_count :: nat
  rep_ip_count :: nat

record DomainRoutingMapReplay =
  replay_map_id :: u32
  replay_changed :: bool
  replay_entries :: "DomainRoutingStateEntry list"

record DomainRoutingReloadClearPlan =
  clear_map_id :: u32
  clear_map_id_changed :: bool
  clear_deletes :: "DomainRoutingIpKey list"
  clear_owner_count :: nat
  clear_ip_count :: nat

text \<open>
  Iteration over a \<^verbatim>\<open>HashMap\<close>.  Its order is unspecified in Rust; the model visits the keys in
  ascending order, and no result below depends on it.
\<close>

definition hash_entries :: "('k :: linorder, 'v) fmap \<Rightarrow> ('k \<times> 'v) list" where
  "hash_entries m = map (\<lambda>k. (k, the (fmlookup m k))) (sorted_list_of_fset (fmdom m))"

definition hash_len :: "('k, 'v) fmap \<Rightarrow> nat" where
  "hash_len m = fcard (fmdom m)"

section \<open>Keys and bitmaps\<close>

definition ip_to_key :: "IpAddr \<Rightarrow> DomainRoutingIpKey" where
  "ip_to_key ip =
     (let octets = mapped_octets ip
      in [le_word (take 4 octets), le_word (take 4 (drop 4 octets)), le_word (take 4 (drop 8 octets)),
          le_word (take 4 (drop 12 octets))])"

definition normalize_ip_keys :: "DomainRoutingIpKey list \<Rightarrow> DomainRoutingIpKey list" where
  "normalize_ip_keys keys = remdups_adj (sort keys)"

definition zero_bitmap :: bitmap where
  "zero_bitmap = replicate 32 0"

definition or_bitmap :: "bitmap \<Rightarrow> bitmap \<Rightarrow> bitmap" where
  "or_bitmap dst src = map2 (OR) dst src"

definition merge_owner_bitmaps :: "(string, bitmap) fmap \<Rightarrow> bitmap" where
  "merge_owner_bitmaps owners = fold (\<lambda>(_, bitmap) merged. or_bitmap merged bitmap) (hash_entries owners) zero_bitmap"

text \<open>A bitmap array from the words of a slice.\<close>

definition bitmap_of_words :: "u32 list \<Rightarrow> bitmap" where
  "bitmap_of_words words = take 32 (words @ replicate 32 0)"

definition snapshot_from_keys :: "u32 list \<Rightarrow> DomainRoutingIpKey list \<Rightarrow> DomainRoutingOwnerSnapshot" where
  "snapshot_from_keys words ips = \<lparr>snap_bitmap = bitmap_of_words words, snap_ips = normalize_ip_keys ips\<rparr>"

definition snapshot_is_empty :: "DomainRoutingOwnerSnapshot \<Rightarrow> bool" where
  "snapshot_is_empty s \<longleftrightarrow> snap_ips s = [] \<or> list_all (\<lambda>word. word = 0) (snap_bitmap s)"

definition event_from_keys :: "string \<Rightarrow> u32 list \<Rightarrow> DomainRoutingIpKey list \<Rightarrow> DomainRoutingDnsEvent" where
  "event_from_keys owner_key words ips =
     \<lparr>ev_owner_key = owner_key, ev_bitmap = bitmap_of_words words, ev_ips = normalize_ip_keys ips\<rparr>"

definition event_remove :: "string \<Rightarrow> DomainRoutingDnsEvent" where
  "event_remove owner_key = \<lparr>ev_owner_key = owner_key, ev_bitmap = zero_bitmap, ev_ips = []\<rparr>"

definition into_snapshot :: "DomainRoutingDnsEvent \<Rightarrow> DomainRoutingOwnerSnapshot" where
  "into_snapshot e = \<lparr>snap_bitmap = ev_bitmap e, snap_ips = ev_ips e\<rparr>"

section \<open>The tracker\<close>

definition tracker_default :: DomainRoutingTracker where
  "tracker_default = \<lparr>tr_owners = fmempty, tr_ips = fmempty\<rparr>"

definition owner_count :: "DomainRoutingTracker \<Rightarrow> nat" where
  "owner_count T = hash_len (tr_owners T)"

definition ip_count :: "DomainRoutingTracker \<Rightarrow> nat" where
  "ip_count T = hash_len (tr_ips T)"

definition tracker_entries :: "DomainRoutingTracker \<Rightarrow> DomainRoutingStateEntry list" where
  "tracker_entries T =
     sort_key entry_key (map (\<lambda>(key, state). \<lparr>entry_key = key, entry_bitmap = st_merged state\<rparr>) (hash_entries (tr_ips T)))"

definition desired_bitmap_for_key ::
    "DomainRoutingTracker \<Rightarrow> DomainRoutingIpKey \<Rightarrow> string \<Rightarrow> DomainRoutingOwnerSnapshot \<Rightarrow> bool \<Rightarrow> bitmap \<times> bool" where
  "desired_bitmap_for_key T key owner_key snapshot contains =
     (let (bitmap, present) =
        (case fmlookup (tr_ips T) key of
           None \<Rightarrow> (zero_bitmap, False)
         | Some state \<Rightarrow>
             fold (\<lambda>(existing, existing_bitmap) (bitmap, present).
                 if existing = owner_key then (bitmap, present) else (or_bitmap bitmap existing_bitmap, True))
               (hash_entries (st_owners state)) (zero_bitmap, False))
      in if \<not> snapshot_is_empty snapshot \<and> contains
         then (or_bitmap bitmap (snap_bitmap snapshot), True) else (bitmap, present))"

text \<open>One address of a plan: what changes when the merged bitmap there becomes the given one.\<close>

definition plan_ip ::
    "(DomainRoutingIpKey, IpState) fmap \<Rightarrow> DomainRoutingIpKey \<Rightarrow> bitmap \<times> bool \<Rightarrow>
      DomainRoutingStateEntry list \<times> DomainRoutingIpKey list" where
  "plan_ip ips ip next =
     (case (snd next, fmlookup ips ip) of
        (False, Some _) \<Rightarrow> ([], [ip])
      | (True, None) \<Rightarrow> ([\<lparr>entry_key = ip, entry_bitmap = fst next\<rparr>], [])
      | (True, Some state) \<Rightarrow>
          (if st_merged state \<noteq> fst next then [\<lparr>entry_key = ip, entry_bitmap = fst next\<rparr>] else [], [])
      | _ \<Rightarrow> ([], []))"

definition plan_ips ::
    "(DomainRoutingIpKey, IpState) fmap \<Rightarrow> (DomainRoutingIpKey \<Rightarrow> bitmap \<times> bool) \<Rightarrow> DomainRoutingIpKey list \<Rightarrow>
      DomainRoutingStateEntry list \<times> DomainRoutingIpKey list" where
  "plan_ips ips desired affected =
     (concat (map (\<lambda>ip. fst (plan_ip ips ip (desired ip))) affected),
      concat (map (\<lambda>ip. snd (plan_ip ips ip (desired ip))) affected))"

definition plan_owner_update :: "DomainRoutingTracker \<Rightarrow> string \<Rightarrow> DomainRoutingOwnerSnapshot \<Rightarrow> DomainRoutingSyncPlan" where
  "plan_owner_update T owner_key snapshot =
     (let unchanged = \<lparr>plan_updates = [], plan_deletes = [], plan_owner_count = owner_count T, plan_ip_count = ip_count T\<rparr>;
          old_snapshot = fmlookup (tr_owners T) owner_key
      in if owner_key = [] then unchanged
         else if old_snapshot = Some snapshot then unchanged
         else
           let affected = normalize_ip_keys
                 ((case old_snapshot of None \<Rightarrow> [] | Some old \<Rightarrow> snap_ips old) @ snap_ips snapshot);
               contains = (\<lambda>ip. if length (snap_ips snapshot) > 16 then ip \<in> set (sort (snap_ips snapshot))
                                else ip \<in> set (snap_ips snapshot));
               (updates, deletes) = plan_ips (tr_ips T)
                 (\<lambda>ip. desired_bitmap_for_key T ip owner_key snapshot (contains ip)) affected
           in unchanged\<lparr>plan_updates := updates, plan_deletes := deletes\<rparr>)"

definition plan_transition :: "DomainRoutingTracker \<Rightarrow> DomainRoutingTracker \<Rightarrow> DomainRoutingSyncPlan" where
  "plan_transition T next =
     (let affected = normalize_ip_keys (map fst (hash_entries (tr_ips T)) @ map fst (hash_entries (tr_ips next)));
          (updates, deletes) = plan_ips (tr_ips T)
            (\<lambda>key. case fmlookup (tr_ips next) key of None \<Rightarrow> (zero_bitmap, False) | Some s \<Rightarrow> (st_merged s, True)) affected
      in \<lparr>plan_updates = updates, plan_deletes = deletes, plan_owner_count = owner_count next, plan_ip_count = ip_count next\<rparr>)"

definition remove_owner_ip :: "string \<Rightarrow> DomainRoutingIpKey \<Rightarrow> (DomainRoutingIpKey, IpState) fmap \<Rightarrow> (DomainRoutingIpKey, IpState) fmap" where
  "remove_owner_ip owner_key ip ips =
     (case fmlookup ips ip of
        None \<Rightarrow> ips
      | Some state \<Rightarrow>
          let owners = fmdrop owner_key (st_owners state)
          in if owners = fmempty then fmdrop ip ips
             else fmupd ip \<lparr>st_owners = owners, st_merged = merge_owner_bitmaps owners\<rparr> ips)"

definition remove_owner :: "string \<Rightarrow> DomainRoutingTracker \<Rightarrow> DomainRoutingTracker" where
  "remove_owner owner_key T =
     (case fmlookup (tr_owners T) owner_key of
        None \<Rightarrow> T
      | Some old \<Rightarrow>
          T\<lparr>tr_owners := fmdrop owner_key (tr_owners T), tr_ips := fold (remove_owner_ip owner_key) (snap_ips old) (tr_ips T)\<rparr>)"

definition apply_owner_ip :: "string \<Rightarrow> bitmap \<Rightarrow> DomainRoutingIpKey \<Rightarrow> (DomainRoutingIpKey, IpState) fmap \<Rightarrow> (DomainRoutingIpKey, IpState) fmap" where
  "apply_owner_ip owner_key bitmap ip ips =
     (let owners = fmupd owner_key bitmap (case fmlookup ips ip of None \<Rightarrow> fmempty | Some state \<Rightarrow> st_owners state)
      in fmupd ip \<lparr>st_owners = owners, st_merged = merge_owner_bitmaps owners\<rparr> ips)"

definition apply_owner_ip_state :: "string \<Rightarrow> DomainRoutingIpKey list \<Rightarrow> bitmap \<Rightarrow> DomainRoutingTracker \<Rightarrow> DomainRoutingTracker" where
  "apply_owner_ip_state owner_key ips bitmap T =
     T\<lparr>tr_ips := fold (apply_owner_ip owner_key bitmap) ips (tr_ips T)\<rparr>"

definition apply_owner_snapshot_ref :: "string \<Rightarrow> DomainRoutingOwnerSnapshot \<Rightarrow> DomainRoutingTracker \<Rightarrow> DomainRoutingTracker" where
  "apply_owner_snapshot_ref owner_key snapshot T =
     (if fmlookup (tr_owners T) owner_key = Some snapshot then T
      else let T = remove_owner owner_key T
           in if snapshot_is_empty snapshot then T
              else apply_owner_ip_state owner_key (snap_ips snapshot) (snap_bitmap snapshot)
                     (T\<lparr>tr_owners := fmupd owner_key snapshot (tr_owners T)\<rparr>))"

definition apply_owner_update_ref ::
    "string \<Rightarrow> DomainRoutingOwnerSnapshot \<Rightarrow> DomainRoutingTracker \<Rightarrow> DomainRoutingSyncPlan \<times> DomainRoutingTracker" where
  "apply_owner_update_ref owner_key snapshot T =
     (let plan = plan_owner_update T owner_key snapshot
      in if owner_key = [] then (plan, T)
         else let T = apply_owner_snapshot_ref owner_key snapshot T
              in (plan\<lparr>plan_owner_count := owner_count T, plan_ip_count := ip_count T\<rparr>, T))"

definition sync_owner :: "string \<Rightarrow> DomainRoutingOwnerSnapshot \<Rightarrow> DomainRoutingTracker \<Rightarrow> DomainRoutingTracker" where
  "sync_owner owner_key snapshot T = snd (apply_owner_update_ref owner_key snapshot T)"

section \<open>Writing the kernel map\<close>

text \<open>System calls on the maps of a kernel in state \<open>'k\<close>.\<close>

record 'k map_sys =
  sys_open :: "u32 \<Rightarrow> 'k \<Rightarrow> (io_error, unit) result \<times> 'k"
  sys_lookup :: "u32 \<Rightarrow> DomainRoutingIpKey \<Rightarrow> 'k \<Rightarrow> (io_error, bitmap) result \<times> 'k"
  sys_update :: "u32 \<Rightarrow> DomainRoutingIpKey \<Rightarrow> bitmap \<Rightarrow> 'k \<Rightarrow> (io_error, unit) result \<times> 'k"
  sys_delete :: "u32 \<Rightarrow> DomainRoutingIpKey \<Rightarrow> 'k \<Rightarrow> (io_error, unit) result \<times> 'k"

type_synonym snapshots = "(DomainRoutingIpKey \<times> bitmap option) list"

fun take_snapshots ::
    "'k map_sys \<Rightarrow> u32 \<Rightarrow> DomainRoutingIpKey list \<Rightarrow> snapshots \<Rightarrow> 'k \<Rightarrow> (io_error, snapshots) result \<times> 'k" where
  "take_snapshots S m [] snapshots k = (Inr snapshots, k)"
| "take_snapshots S m (key # keys) snapshots k =
     (if key \<in> fst ` set snapshots then take_snapshots S m keys snapshots k
      else case sys_lookup S m key k of
             (Inr old, k) \<Rightarrow> take_snapshots S m keys (snapshots @ [(key, Some old)]) k
           | (Inl error, k) \<Rightarrow>
               if error = ENOENT then take_snapshots S m keys (snapshots @ [(key, None)]) k else (Inl error, k))"

fun write_updates ::
    "'k map_sys \<Rightarrow> u32 \<Rightarrow> DomainRoutingStateEntry list \<Rightarrow> 'k \<Rightarrow> (io_error, unit) result \<times> 'k" where
  "write_updates S m [] k = (Inr (), k)"
| "write_updates S m (entry # entries) k =
     (case sys_update S m (entry_key entry) (entry_bitmap entry) k of
        (Inl error, k) \<Rightarrow> (Inl error, k)
      | (Inr _, k) \<Rightarrow> write_updates S m entries k)"

fun write_deletes :: "'k map_sys \<Rightarrow> u32 \<Rightarrow> DomainRoutingIpKey list \<Rightarrow> 'k \<Rightarrow> (io_error, unit) result \<times> 'k" where
  "write_deletes S m [] k = (Inr (), k)"
| "write_deletes S m (key # keys) k =
     (case sys_delete S m key k of
        (Inl error, k) \<Rightarrow> if error \<noteq> ENOENT then (Inl error, k) else write_deletes S m keys k
      | (Inr _, k) \<Rightarrow> write_deletes S m keys k)"

fun rollback_loop ::
    "'k map_sys \<Rightarrow> u32 \<Rightarrow> snapshots \<Rightarrow> io_error option \<Rightarrow> 'k \<Rightarrow> (io_error, unit) result \<times> 'k" where
  "rollback_loop S m [] first_error k = (case first_error of Some e \<Rightarrow> Inl e | None \<Rightarrow> Inr (), k)"
| "rollback_loop S m ((key, old) # rest) first_error k =
     (case (case old of Some b \<Rightarrow> sys_update S m key b k | None \<Rightarrow> sys_delete S m key k) of
        (Inl error, k) \<Rightarrow>
          rollback_loop S m rest (if error \<noteq> ENOENT \<and> first_error = None then Some error else first_error) k
      | (Inr _, k) \<Rightarrow> rollback_loop S m rest first_error k)"

definition rollback_domain_routing_snapshot ::
    "'k map_sys \<Rightarrow> u32 \<Rightarrow> snapshots \<Rightarrow> 'k \<Rightarrow> (io_error, unit) result \<times> 'k" where
  "rollback_domain_routing_snapshot S m snapshots k = rollback_loop S m (rev snapshots) None k"

fun show_io_error :: "io_error \<Rightarrow> string" where
  "show_io_error ENOENT = ''No such file or directory (os error 2)''"
| "show_io_error (OsError text) = text"
| "show_io_error (InvalidInput text) = text"
| "show_io_error (OtherError text) = text"

definition domain_routing_apply_error :: "io_error \<Rightarrow> (io_error, unit) result \<Rightarrow> io_error" where
  "domain_routing_apply_error operation rollback =
     (case rollback of
        Inr _ \<Rightarrow> operation
      | Inl rollback \<Rightarrow>
          OtherError (''domain routing map operation failed: '' @ show_io_error operation @
            ''; rollback also failed: '' @ show_io_error rollback))"

definition apply_domain_routing_map_by_id ::
    "'k map_sys \<Rightarrow> u32 \<Rightarrow> DomainRoutingStateEntry list \<Rightarrow> DomainRoutingIpKey list \<Rightarrow> 'k \<Rightarrow>
      (io_error, unit) result \<times> 'k" where
  "apply_domain_routing_map_by_id S m updates deletes k =
     (case sys_open S m k of
        (Inl error, k) \<Rightarrow> (Inl error, k)
      | (Inr _, k) \<Rightarrow>
          case take_snapshots S m (map entry_key updates @ deletes) [] k of
            (Inl error, k) \<Rightarrow> (Inl error, k)
          | (Inr snapshots, k) \<Rightarrow>
              let fail = (\<lambda>error k. case rollback_domain_routing_snapshot S m snapshots k of
                            (rollback, k) \<Rightarrow> (Inl (domain_routing_apply_error error rollback), k))
              in case write_updates S m updates k of
                   (Inl error, k) \<Rightarrow> fail error k
                 | (Inr _, k) \<Rightarrow>
                     case write_deletes S m deletes k of
                       (Inl error, k) \<Rightarrow> fail error k
                     | (Inr _, k) \<Rightarrow> (Inr (), k))"

section \<open>The owner\<close>

definition owner_default :: DomainRoutingOwner where
  "owner_default = \<lparr>own_map_id = None, own_tracker = tracker_default\<rparr>"

definition install_map :: "u32 \<Rightarrow> DomainRoutingOwner \<Rightarrow> DomainRoutingMapReplay \<times> DomainRoutingOwner" where
  "install_map map_id own =
     (let changed = (own_map_id own \<noteq> Some map_id)
      in (\<lparr>replay_map_id = map_id, replay_changed = changed,
           replay_entries = (if changed then tracker_entries (own_tracker own) else [])\<rparr>,
          own\<lparr>own_map_id := Some map_id\<rparr>))"

definition prepare_reload_map ::
    "u32 \<Rightarrow> DomainRoutingIpKey list \<Rightarrow> DomainRoutingOwner \<Rightarrow> DomainRoutingReloadClearPlan \<times> DomainRoutingOwner" where
  "prepare_reload_map map_id existing_keys own =
     (\<lparr>clear_map_id = map_id, clear_map_id_changed = (own_map_id own \<noteq> Some map_id),
       clear_deletes = normalize_ip_keys existing_keys, clear_owner_count = 0, clear_ip_count = 0\<rparr>,
      \<lparr>own_map_id = Some map_id, own_tracker = tracker_default\<rparr>)"

definition prepare_reload_map_with ::
    "(u32 \<Rightarrow> DomainRoutingIpKey list \<Rightarrow> 'k \<Rightarrow> (io_error, unit) result \<times> 'k) \<Rightarrow> u32 \<Rightarrow> DomainRoutingIpKey list \<Rightarrow>
      DomainRoutingOwner \<Rightarrow> 'k \<Rightarrow> (io_error, DomainRoutingReloadClearPlan) result \<times> DomainRoutingOwner \<times> 'k" where
  "prepare_reload_map_with apply map_id existing_keys own k =
     (let deletes = normalize_ip_keys existing_keys
      in case (if deletes \<noteq> [] then apply map_id deletes k else (Inr (), k)) of
           (Inl error, k) \<Rightarrow> (Inl error, own, k)
         | (Inr _, k) \<Rightarrow> (case prepare_reload_map map_id existing_keys own of (plan, own) \<Rightarrow> (Inr plan, own, k)))"

definition apply_owner_snapshot ::
    "string \<Rightarrow> DomainRoutingOwnerSnapshot \<Rightarrow> DomainRoutingOwner \<Rightarrow> DomainRoutingOwnerUpdate \<times> DomainRoutingOwner" where
  "apply_owner_snapshot owner_key snapshot own =
     (case apply_owner_update_ref owner_key snapshot (own_tracker own) of
        (plan, T) \<Rightarrow>
          (\<lparr>upd_map_id = own_map_id own, upd_plan = plan,
            upd_flush = (own_map_id own \<noteq> None \<and> (plan_updates plan \<noteq> [] \<or> plan_deletes plan \<noteq> []))\<rparr>,
           own\<lparr>own_tracker := T\<rparr>))"

text \<open>The replacements of a batch: the last event of an owner counts.\<close>

fun collect_replacements ::
    "DomainRoutingDnsEvent list \<Rightarrow> (string, DomainRoutingOwnerSnapshot) fmap \<Rightarrow>
      (io_error, (string, DomainRoutingOwnerSnapshot) fmap) result" where
  "collect_replacements [] replacements = Inr replacements"
| "collect_replacements (event # events) replacements =
     (if ev_owner_key event = [] then Inl (InvalidInput ''domain routing owner key is empty'')
      else collect_replacements events (fmupd (ev_owner_key event) (into_snapshot event) replacements))"

definition changes_owner ::
    "(string, DomainRoutingOwnerSnapshot) fmap \<Rightarrow> (string, DomainRoutingOwnerSnapshot) fmap \<Rightarrow> string \<Rightarrow> bool" where
  "changes_owner owners replacements key =
     (case fmlookup replacements key of
        None \<Rightarrow> False
      | Some snapshot \<Rightarrow>
          (case fmlookup owners key of Some old \<Rightarrow> old \<noteq> snapshot | None \<Rightarrow> \<not> snapshot_is_empty snapshot))"

definition affected_ips ::
    "(string, DomainRoutingOwnerSnapshot) fmap \<Rightarrow> (string, DomainRoutingOwnerSnapshot) fmap \<Rightarrow> DomainRoutingIpKey list" where
  "affected_ips owners replacements =
     normalize_ip_keys (concat (map (\<lambda>(key, snapshot).
       (case fmlookup owners key of None \<Rightarrow> [] | Some old \<Rightarrow> snap_ips old) @ snap_ips snapshot)
       (hash_entries replacements)))"

definition ip_state_default :: IpState where
  "ip_state_default = \<lparr>st_owners = fmempty, st_merged = zero_bitmap\<rparr>"

text \<open>An address that is changed in place; it is always staged, so the \<^verbatim>\<open>expect\<close> of the code holds.\<close>

definition modify_staged ::
    "((string, bitmap) fmap \<Rightarrow> (string, bitmap) fmap) \<Rightarrow> DomainRoutingIpKey \<Rightarrow> (DomainRoutingIpKey, IpState) fmap \<Rightarrow>
      (DomainRoutingIpKey, IpState) fmap" where
  "modify_staged f ip staged =
     (case fmlookup staged ip of
        None \<Rightarrow> staged
      | Some state \<Rightarrow> fmupd ip (state\<lparr>st_owners := f (st_owners state)\<rparr>) staged)"

definition stage_replacement ::
    "(string, DomainRoutingOwnerSnapshot) fmap \<Rightarrow> string \<times> DomainRoutingOwnerSnapshot \<Rightarrow>
      (DomainRoutingIpKey, IpState) fmap \<Rightarrow> (DomainRoutingIpKey, IpState) fmap" where
  "stage_replacement owners replacement staged =
     (case replacement of (key, snapshot) \<Rightarrow>
        let staged = (case fmlookup owners key of
              None \<Rightarrow> staged | Some old \<Rightarrow> fold (modify_staged (fmdrop key)) (snap_ips old) staged)
        in if \<not> snapshot_is_empty snapshot
           then fold (modify_staged (fmupd key (snap_bitmap snapshot))) (snap_ips snapshot) staged
           else staged)"

definition stage_batch ::
    "DomainRoutingTracker \<Rightarrow> (string, DomainRoutingOwnerSnapshot) fmap \<Rightarrow> (DomainRoutingIpKey, IpState) fmap" where
  "stage_batch T replacements =
     (let staged = fmap_of_list (map (\<lambda>ip. (ip, case fmlookup (tr_ips T) ip of None \<Rightarrow> ip_state_default | Some s \<Rightarrow> s))
            (affected_ips (tr_owners T) replacements))
      in fmmap (\<lambda>state. state\<lparr>st_merged := merge_owner_bitmaps (st_owners state)\<rparr>)
           (fold (stage_replacement (tr_owners T)) (hash_entries replacements) staged))"

definition replay_entries_of ::
    "DomainRoutingTracker \<Rightarrow> (DomainRoutingIpKey, IpState) fmap \<Rightarrow> DomainRoutingStateEntry list" where
  "replay_entries_of T staged =
     sort_key entry_key
       (map (\<lambda>(ip, state). \<lparr>entry_key = ip, entry_bitmap = st_merged state\<rparr>)
         (filter (\<lambda>(ip, _). ip |\<notin>| fmdom staged) (hash_entries (tr_ips T)) @
          filter (\<lambda>(_, state). st_owners state \<noteq> fmempty) (hash_entries staged)))"

definition commit_owner ::
    "string \<times> DomainRoutingOwnerSnapshot \<Rightarrow> (string, DomainRoutingOwnerSnapshot) fmap \<Rightarrow>
      (string, DomainRoutingOwnerSnapshot) fmap" where
  "commit_owner replacement owners =
     (case replacement of (key, snapshot) \<Rightarrow>
        if snapshot_is_empty snapshot then fmdrop key owners else fmupd key snapshot owners)"

definition commit_ip ::
    "DomainRoutingIpKey \<times> IpState \<Rightarrow> (DomainRoutingIpKey, IpState) fmap \<Rightarrow> (DomainRoutingIpKey, IpState) fmap" where
  "commit_ip entry ips =
     (case entry of (ip, state) \<Rightarrow> if st_owners state = fmempty then fmdrop ip ips else fmupd ip state ips)"

definition commit_batch ::
    "(string, DomainRoutingOwnerSnapshot) fmap \<Rightarrow> (DomainRoutingIpKey, IpState) fmap \<Rightarrow> DomainRoutingTracker \<Rightarrow>
      DomainRoutingTracker" where
  "commit_batch replacements staged T =
     \<lparr>tr_owners = fold commit_owner (hash_entries replacements) (tr_owners T),
      tr_ips = fold commit_ip (hash_entries staged) (tr_ips T)\<rparr>"

type_synonym 'k apply_map =
  "u32 \<Rightarrow> DomainRoutingStateEntry list \<Rightarrow> DomainRoutingIpKey list \<Rightarrow> 'k \<Rightarrow> (io_error, unit) result \<times> 'k"

definition apply_dns_events_with ::
    "'k apply_map \<Rightarrow> u32 \<Rightarrow> DomainRoutingDnsEvent list \<Rightarrow> DomainRoutingOwner \<Rightarrow> 'k \<Rightarrow>
      (io_error, DomainRoutingOwnerApplyReport) result \<times> DomainRoutingOwner \<times> 'k" where
  "apply_dns_events_with apply map_id events own k =
     (case collect_replacements events fmempty of
        Inl error \<Rightarrow> (Inl error, own, k)
      | Inr collected \<Rightarrow>
          let T = own_tracker own;
              replacements = fmfilter (changes_owner (tr_owners T) collected) collected;
              affected = affected_ips (tr_owners T) replacements;
              staged = stage_batch T replacements;
              (updates, deletes) = plan_ips (tr_ips T)
                (\<lambda>ip. case fmlookup staged ip of
                        None \<Rightarrow> (zero_bitmap, False) | Some next \<Rightarrow> (st_merged next, st_owners next \<noteq> fmempty)) affected;
              map_id_changed = (own_map_id own \<noteq> Some map_id);
              updates = (if map_id_changed then replay_entries_of T staged else updates);
              deletes = (if map_id_changed then [] else deletes);
              skipped = (updates = [] \<and> deletes = [])
          in case (if skipped then (Inr (), k) else apply map_id updates deletes k) of
               (Inl error, k) \<Rightarrow> (Inl error, own, k)
             | (Inr _, k) \<Rightarrow>
                 let T = commit_batch replacements staged T
                 in (Inr \<lparr>rep_map_id = map_id, rep_map_id_changed = map_id_changed, rep_skipped = skipped,
                          rep_owner_snapshot_changed = (replacements \<noteq> fmempty), rep_affected_keys = length affected,
                          rep_entries_updated = length updates, rep_entries_deleted = length deletes,
                          rep_owner_count = owner_count T, rep_ip_count = ip_count T\<rparr>,
                     \<lparr>own_map_id = Some map_id, own_tracker = T\<rparr>, k))"

definition apply_dns_event_with ::
    "'k apply_map \<Rightarrow> u32 \<Rightarrow> DomainRoutingDnsEvent \<Rightarrow> DomainRoutingOwner \<Rightarrow> 'k \<Rightarrow>
      (io_error, DomainRoutingOwnerApplyReport) result \<times> DomainRoutingOwner \<times> 'k" where
  "apply_dns_event_with apply map_id event own k = apply_dns_events_with apply map_id [event] own k"

end
