(* ===== verification/Domain_Tracker.thy ===== *)
theory Domain_Tracker
  imports Domain_Routing
begin

text \<open>
  The domain routing tracker: the map its owners ask for, the index by address as an invariant of
  every operation, plans as differences of maps, and batches of DNS events as sequences of updates.
\<close>

section \<open>Hash maps and merged bitmaps\<close>

lemma set_hash_entries [simp]: "(k, v) \<in> set (hash_entries m) \<longleftrightarrow> fmlookup m k = Some v"
  by (auto simp: hash_entries_def sorted_list_of_fset_simps fmlookup_dom_iff)

lemma distinct_hash_entries [simp]: "distinct (map fst (hash_entries m))"
  by (simp add: hash_entries_def comp_def sorted_list_of_fset.rep_eq)

lemma hash_entries_keys [simp]: "set (map fst (hash_entries m)) = fmdom' m"
  by (auto simp: hash_entries_def comp_def fmdom'_alt_def)

definition bitmap_ok :: "bitmap \<Rightarrow> bool" where
  "bitmap_ok b \<longleftrightarrow> length b = 32"

lemma length_or_bitmap [simp]: "length (or_bitmap a b) = min (length a) (length b)"
  by (simp add: or_bitmap_def)

lemma or_bitmap_nth: "i < length a \<Longrightarrow> i < length b \<Longrightarrow> or_bitmap a b ! i = a ! i OR b ! i"
  by (simp add: or_bitmap_def)

lemma fold_or_bitmap:
  assumes "\<forall>(k, b) \<in> set xs. bitmap_ok b" "bitmap_ok acc"
  shows "bitmap_ok (fold (\<lambda>(_, b) acc. or_bitmap acc b) xs acc) \<and>
    (i < 32 \<longrightarrow> bit (fold (\<lambda>(_, b) acc. or_bitmap acc b) xs acc ! i) n \<longleftrightarrow>
       bit (acc ! i) n \<or> (\<exists>(k, b) \<in> set xs. bit (b ! i) n))"
  using assms
proof (induction xs arbitrary: acc)
  case (Cons x xs)
  obtain k b where x: "x = (k, b)" by (cases x)
  from Cons.prems have "bitmap_ok (or_bitmap acc b)" by (simp add: x bitmap_ok_def)
  with Cons.prems Cons.IH [of "or_bitmap acc b"] show ?case
    by (auto simp: x bitmap_ok_def or_bitmap_nth bit_or_iff)
qed simp

definition owners_ok :: "(string, bitmap) fmap \<Rightarrow> bool" where
  "owners_ok os \<longleftrightarrow> (\<forall>k b. fmlookup os k = Some b \<longrightarrow> bitmap_ok b)"

lemma merge_owner_bitmaps_bit:
  assumes "owners_ok os" "i < 32"
  shows "bit (merge_owner_bitmaps os ! i) n \<longleftrightarrow> (\<exists>k b. fmlookup os k = Some b \<and> bit (b ! i) n)"
proof -
  have "\<forall>(k, b) \<in> set (hash_entries os). bitmap_ok b" using assms(1) by (auto simp: owners_ok_def)
  from fold_or_bitmap [OF this, of zero_bitmap i n] assms(2)
  have "bit (merge_owner_bitmaps os ! i) n \<longleftrightarrow> (\<exists>(k, b) \<in> set (hash_entries os). bit (b ! i) n)"
    by (simp add: merge_owner_bitmaps_def bitmap_ok_def zero_bitmap_def)
  then show ?thesis by (simp add: split_def Bex_def)
qed

lemma set_normalize_ip_keys [simp]: "set (normalize_ip_keys keys) = set keys"
  by (simp add: normalize_ip_keys_def)

lemma distinct_normalize_ip_keys [simp]: "distinct (normalize_ip_keys keys)"
proof -
  have "sorted xs \<Longrightarrow> distinct (remdups_adj xs)" for xs :: "DomainRoutingIpKey list"
    by (induction xs rule: remdups_adj.induct) (auto simp: antisym)
  then show ?thesis by (simp add: normalize_ip_keys_def)
qed

section \<open>What the tracker stands for\<close>

definition owners_of :: "(string, DomainRoutingOwnerSnapshot) fmap \<Rightarrow> DomainRoutingIpKey \<Rightarrow> (string, bitmap) fmap" where
  "owners_of owners ip =
     fmmap snap_bitmap (fmfilter (\<lambda>k. case fmlookup owners k of None \<Rightarrow> False | Some s \<Rightarrow> ip \<in> set (snap_ips s)) owners)"

lemma owners_of_lookup:
  "fmlookup (owners_of owners ip) k =
     (case fmlookup owners k of None \<Rightarrow> None | Some s \<Rightarrow> if ip \<in> set (snap_ips s) then Some (snap_bitmap s) else None)"
  by (simp add: owners_of_def split: option.split)

definition ip_state_of :: "(string, DomainRoutingOwnerSnapshot) fmap \<Rightarrow> DomainRoutingIpKey \<Rightarrow> IpState option" where
  "ip_state_of owners ip =
     (let os = owners_of owners ip
      in if os = fmempty then None else Some \<lparr>st_owners = os, st_merged = merge_owner_bitmaps os\<rparr>)"

text \<open>The kernel map the owners ask for.\<close>

definition merged_of :: "(string, DomainRoutingOwnerSnapshot) fmap \<Rightarrow> DomainRoutingIpKey \<rightharpoonup> bitmap" where
  "merged_of owners ip =
     (let os = owners_of owners ip in if os = fmempty then None else Some (merge_owner_bitmaps os))"

definition tracker_ok :: "DomainRoutingTracker \<Rightarrow> bool" where
  "tracker_ok T \<longleftrightarrow>
     (\<forall>ip. fmlookup (tr_ips T) ip = ip_state_of (tr_owners T) ip) \<and>
     (\<forall>k s. fmlookup (tr_owners T) k = Some s \<longrightarrow> \<not> snapshot_is_empty s)"

lemma tracker_default_ok [simp]: "tracker_ok tracker_default"
  by (auto simp: tracker_ok_def tracker_default_def ip_state_of_def owners_of_def)

lemma merged_of_state: "merged_of owners ip = map_option st_merged (ip_state_of owners ip)"
  by (simp add: merged_of_def ip_state_of_def Let_def)

section \<open>Updates of one owner\<close>

abbreviation state_with :: "(string, bitmap) fmap \<Rightarrow> IpState option" where
  "state_with os \<equiv> (if os = fmempty then None else Some \<lparr>st_owners = os, st_merged = merge_owner_bitmaps os\<rparr>)"

lemma fmdrop_twice [simp]: "fmdrop k (fmdrop k m) = fmdrop k m"
  by (rule fmap_ext) simp

lemma remove_owner_ips:
  "fmlookup (fold (remove_owner_ip key) xs ips) ip =
    (if ip \<in> set xs then case fmlookup ips ip of None \<Rightarrow> None | Some st \<Rightarrow> state_with (fmdrop key (st_owners st))
     else fmlookup ips ip)"
proof (induction xs arbitrary: ips)
  case (Cons x xs)
  have l: "fmlookup (remove_owner_ip key x ips) ip =
      (if ip = x then case fmlookup ips ip of None \<Rightarrow> None | Some st \<Rightarrow> state_with (fmdrop key (st_owners st))
       else fmlookup ips ip)" for ip
    by (auto simp: remove_owner_ip_def Let_def split: option.splits)
  show ?case by (cases "fmlookup ips ip") (auto simp: Cons.IH l)
qed simp

lemma apply_owner_ips:
  "fmlookup (fold (apply_owner_ip key b) xs ips) ip =
    (if ip \<in> set xs
     then state_with (fmupd key b (case fmlookup ips ip of None \<Rightarrow> fmempty | Some st \<Rightarrow> st_owners st))
     else fmlookup ips ip)"
proof (induction xs arbitrary: ips)
  case (Cons x xs)
  have ne: "fmupd key b m \<noteq> fmempty" for m by (metis fmempty_lookup fmupd_lookup option.distinct(1))
  have l: "fmlookup (apply_owner_ip key b x ips) ip =
      (if ip = x then state_with (fmupd key b (case fmlookup ips ip of None \<Rightarrow> fmempty | Some st \<Rightarrow> st_owners st))
       else fmlookup ips ip)" for ip
    by (simp add: apply_owner_ip_def Let_def ne)
  have "fmupd key b (fmupd key b m) = fmupd key b m" for m by (rule fmap_ext) simp
  then show ?case by (simp add: Cons.IH l ne)
qed simp

definition set_owner ::
    "string \<Rightarrow> DomainRoutingOwnerSnapshot \<Rightarrow> (string, DomainRoutingOwnerSnapshot) fmap \<Rightarrow> (string, DomainRoutingOwnerSnapshot) fmap" where
  "set_owner k s owners = (if snapshot_is_empty s then fmdrop k owners else fmupd k s owners)"

lemma owners_of_drop: "owners_of (fmdrop k owners) ip = fmdrop k (owners_of owners ip)"
  by (rule fmap_ext) (simp add: owners_of_lookup)

lemma owners_of_upd:
  "owners_of (fmupd k s owners) ip =
     (if ip \<in> set (snap_ips s) then fmupd k (snap_bitmap s) (owners_of owners ip) else fmdrop k (owners_of owners ip))"
  by (rule fmap_ext) (simp add: owners_of_lookup)

lemma remove_owner_ok:
  assumes "tracker_ok T"
  shows "tracker_ok (remove_owner k T)" "tr_owners (remove_owner k T) = fmdrop k (tr_owners T)"
proof -
  show "tr_owners (remove_owner k T) = fmdrop k (tr_owners T)"
    by (auto simp: remove_owner_def split: option.split intro!: fmap_ext)
  show "tracker_ok (remove_owner k T)"
  proof (cases "fmlookup (tr_owners T) k")
    case None
    then show ?thesis using assms by (simp add: remove_owner_def)
  next
    case (Some old)
    have i: "fmlookup (tr_ips T) ip = state_with (owners_of (tr_owners T) ip)" for ip
      using assms by (simp add: tracker_ok_def ip_state_of_def Let_def)
    have drop: "fmdrop k (owners_of (tr_owners T) ip) = owners_of (tr_owners T) ip" if "ip \<notin> set (snap_ips old)" for ip
      using that by (intro fmap_ext) (auto simp: owners_of_lookup Some)
    have "fmlookup (fold (remove_owner_ip k) (snap_ips old) (tr_ips T)) ip = state_with (fmdrop k (owners_of (tr_owners T) ip))" for ip
      by (cases "ip \<in> set (snap_ips old)") (simp_all add: remove_owner_ips i drop)
    then have "fmlookup (tr_ips (remove_owner k T)) ip = ip_state_of (tr_owners (remove_owner k T)) ip" for ip
      by (simp add: remove_owner_def Some ip_state_of_def owners_of_drop Let_def)
    moreover have "fmlookup (tr_owners (remove_owner k T)) k' = Some s \<longrightarrow> \<not> snapshot_is_empty s" for k' s
      using assms by (simp add: remove_owner_def Some tracker_ok_def)
    ultimately show ?thesis by (simp add: tracker_ok_def)
  qed
qed

lemma apply_owner_snapshot_ref_ok:
  assumes "tracker_ok T"
  shows "tracker_ok (apply_owner_snapshot_ref k s T)"
    "tr_owners (apply_owner_snapshot_ref k s T) = set_owner k s (tr_owners T)"
proof -
  let ?T = "remove_owner k T"
  note r = remove_owner_ok [OF assms, of k]
  have i: "fmlookup (tr_ips ?T) ip = state_with (owners_of (tr_owners ?T) ip)" for ip
    using r(1) by (simp add: tracker_ok_def ip_state_of_def Let_def)
  have up: "fmlookup (fold (apply_owner_ip k (snap_bitmap s)) (snap_ips s) (tr_ips ?T)) ip =
      state_with (owners_of (fmupd k s (tr_owners ?T)) ip)" for ip
  proof -
    have "fmdrop k (owners_of (tr_owners ?T) ip) = owners_of (tr_owners ?T) ip"
      unfolding r(2) owners_of_drop by simp
    then show ?thesis by (auto simp: apply_owner_ips i owners_of_upd)
  qed
  have ud: "fmupd k s (fmdrop k (tr_owners T)) = fmupd k s (tr_owners T)" by (intro fmap_ext) simp
  have same: "set_owner k s (tr_owners T) = tr_owners T" if k: "fmlookup (tr_owners T) k = Some s"
  proof -
    have "fmupd k s (tr_owners T) = tr_owners T" by (rule fmap_ext) (auto simp: k)
    then show ?thesis using assms k by (simp add: set_owner_def tracker_ok_def)
  qed
  show "tr_owners (apply_owner_snapshot_ref k s T) = set_owner k s (tr_owners T)"
    using same by (auto simp: apply_owner_snapshot_ref_def Let_def apply_owner_ip_state_def r(2) ud set_owner_def)
  show "tracker_ok (apply_owner_snapshot_ref k s T)"
  proof (cases "fmlookup (tr_owners T) k = Some s \<or> snapshot_is_empty s")
    case True
    then show ?thesis using assms r(1) by (auto simp: apply_owner_snapshot_ref_def Let_def)
  next
    case False
    let ?S = "apply_owner_snapshot_ref k s T"
    from False have S: "?S = ?T\<lparr>tr_owners := fmupd k s (tr_owners ?T),
        tr_ips := fold (apply_owner_ip k (snap_bitmap s)) (snap_ips s) (tr_ips ?T)\<rparr>"
      by (simp add: apply_owner_snapshot_ref_def Let_def apply_owner_ip_state_def)
    have "fmlookup (tr_ips ?S) ip = ip_state_of (tr_owners ?S) ip" for ip
      using up by (simp add: S ip_state_of_def Let_def)
    moreover have "fmlookup (tr_owners ?S) k' = Some s' \<longrightarrow> \<not> snapshot_is_empty s'" for k' s'
      using r(1) False by (auto simp: S tracker_ok_def)
    ultimately show ?thesis by (simp add: tracker_ok_def)
  qed
qed

section \<open>Plans\<close>

definition apply_updates :: "DomainRoutingStateEntry list \<Rightarrow> (DomainRoutingIpKey \<rightharpoonup> bitmap) \<Rightarrow> DomainRoutingIpKey \<rightharpoonup> bitmap" where
  "apply_updates = fold (\<lambda>e m. m(entry_key e \<mapsto> entry_bitmap e))"

definition apply_deletes :: "DomainRoutingIpKey list \<Rightarrow> (DomainRoutingIpKey \<rightharpoonup> bitmap) \<Rightarrow> DomainRoutingIpKey \<rightharpoonup> bitmap" where
  "apply_deletes = fold (\<lambda>ip m. m(ip := None))"

definition apply_plan ::
    "DomainRoutingStateEntry list \<times> DomainRoutingIpKey list \<Rightarrow> (DomainRoutingIpKey \<rightharpoonup> bitmap) \<Rightarrow> DomainRoutingIpKey \<rightharpoonup> bitmap" where
  "apply_plan p m = apply_deletes (snd p) (apply_updates (fst p) m)"

lemma apply_deletes_lookup: "apply_deletes ips m ip = (if ip \<in> set ips then None else m ip)"
  unfolding apply_deletes_def by (induction ips arbitrary: m) auto

lemma apply_updates_lookup:
  assumes "\<forall>e \<in> set es. entry_key e = ip \<longrightarrow> entry_bitmap e = b"
  shows "apply_updates es m ip = (if ip \<in> entry_key ` set es then Some b else m ip)"
  using assms unfolding apply_updates_def by (induction es arbitrary: m) auto

text \<open>The bitmap and presence a map asks for at an address.\<close>

definition wanted :: "(DomainRoutingIpKey \<rightharpoonup> bitmap) \<Rightarrow> (DomainRoutingIpKey \<Rightarrow> bitmap \<times> bool) \<Rightarrow> DomainRoutingIpKey \<Rightarrow> bool" where
  "wanted m desired ip \<longleftrightarrow> (case m ip of None \<Rightarrow> \<not> snd (desired ip) | Some b \<Rightarrow> desired ip = (b, True))"

lemma plan_ip_eq:
  "plan_ip ips ip d =
     (if snd d \<and> map_option st_merged (fmlookup ips ip) \<noteq> Some (fst d)
      then [\<lparr>entry_key = ip, entry_bitmap = fst d\<rparr>] else [],
      if \<not> snd d \<and> fmlookup ips ip \<noteq> None then [ip] else [])"
  by (cases d; cases "snd d"; cases "fmlookup ips ip") (simp_all add: plan_ip_def)

lemma set_concat_if: "set (concat (map (\<lambda>x. if P x then [f x] else []) xs)) = f ` {x \<in> set xs. P x}"
  by (induction xs) auto

lemma set_plan_ips:
  "set (fst (plan_ips ips desired affected)) = (\<lambda>ip. \<lparr>entry_key = ip, entry_bitmap = fst (desired ip)\<rparr>) `
     {ip \<in> set affected. snd (desired ip) \<and> map_option st_merged (fmlookup ips ip) \<noteq> Some (fst (desired ip))}"
  "set (snd (plan_ips ips desired affected)) = {ip \<in> set affected. \<not> snd (desired ip) \<and> fmlookup ips ip \<noteq> None}"
  unfolding plan_ips_def plan_ip_eq fst_conv snd_conv set_concat_if by simp_all

lemma plan_ips_apply:
  assumes "\<forall>ip. m ip = map_option st_merged (fmlookup ips ip)"
    and "\<forall>ip \<in> set affected. wanted m' desired ip" "\<forall>ip. ip \<notin> set affected \<longrightarrow> m' ip = m ip"
  shows "apply_plan (plan_ips ips desired affected) m = m'"
proof
  fix ip
  let ?p = "plan_ips ips desired affected"
  have ups: "\<forall>e \<in> set (fst ?p). entry_key e = ip \<longrightarrow> entry_bitmap e = fst (desired ip)"
    by (auto simp: set_plan_ips)
  have up: "ip \<in> entry_key ` set (fst ?p) \<longleftrightarrow>
      ip \<in> set affected \<and> snd (desired ip) \<and> m ip \<noteq> Some (fst (desired ip))"
    by (simp add: set_plan_ips image_image assms(1))
  have de: "ip \<in> set (snd ?p) \<longleftrightarrow> ip \<in> set affected \<and> \<not> snd (desired ip) \<and> m ip \<noteq> None"
    by (simp add: set_plan_ips assms(1))
  show "apply_plan ?p m ip = m' ip"
  proof (cases "ip \<in> set affected")
    case True
    then have "wanted m' desired ip" using assms(2) by blast
    then show ?thesis
      using True
      by (cases "m' ip") (auto simp: apply_plan_def apply_deletes_lookup apply_updates_lookup [OF ups] up de wanted_def)
  next
    case False
    then show ?thesis
      using assms(3) by (simp add: apply_plan_def apply_deletes_lookup apply_updates_lookup [OF ups] up de)
  qed
qed

lemma tracker_ok_merged:
  "tracker_ok T \<Longrightarrow> merged_of (tr_owners T) ip = map_option st_merged (fmlookup (tr_ips T) ip)"
  by (simp add: merged_of_state tracker_ok_def)

text \<open>Switching to another tracker.\<close>

lemma plan_transition_apply:
  assumes "tracker_ok T" "tracker_ok T'"
  shows "apply_plan (plan_updates (plan_transition T T'), plan_deletes (plan_transition T T')) (merged_of (tr_owners T)) =
    merged_of (tr_owners T')"
proof -
  let ?desired = "\<lambda>key. case fmlookup (tr_ips T') key of None \<Rightarrow> (zero_bitmap, False) | Some s \<Rightarrow> (st_merged s, True)"
  let ?aff = "normalize_ip_keys (map fst (hash_entries (tr_ips T)) @ map fst (hash_entries (tr_ips T')))"
  have "apply_plan (plan_ips (tr_ips T) ?desired ?aff) (merged_of (tr_owners T)) = merged_of (tr_owners T')"
  proof (rule plan_ips_apply)
    show "\<forall>ip \<in> set ?aff. wanted (merged_of (tr_owners T')) ?desired ip"
      by (simp add: wanted_def tracker_ok_merged [OF assms(2)] split: option.split)
    show "\<forall>ip. ip \<notin> set ?aff \<longrightarrow> merged_of (tr_owners T') ip = merged_of (tr_owners T) ip"
      by (auto simp: tracker_ok_merged assms fmdom'_alt_def simp del: set_map) (metis fmdom_notD option.map(1))+
  qed (simp add: tracker_ok_merged assms)
  then show ?thesis by (simp add: plan_transition_def Let_def split_def)
qed

section \<open>Batches\<close>

definition new_state :: "DomainRoutingIpKey \<Rightarrow> (string \<times> DomainRoutingOwnerSnapshot) \<Rightarrow> (string, bitmap) fmap \<Rightarrow> (string, bitmap) fmap" where
  "new_state ip = (\<lambda>(k, s) os. if \<not> snapshot_is_empty s \<and> ip \<in> set (snap_ips s) then fmupd k (snap_bitmap s) os else fmdrop k os)"

lemma modify_staged_lookup:
  assumes "\<And>os. f (f os) = f os"
  shows "fmlookup (fold (modify_staged f) xs staged) ip =
    map_option (\<lambda>st. if ip \<in> set xs then st\<lparr>st_owners := f (st_owners st)\<rparr> else st) (fmlookup staged ip)"
proof (induction xs arbitrary: staged)
  case Nil
  then show ?case by (simp add: option.map_ident)
next
  case (Cons x xs)
  have "fmlookup (modify_staged f x staged) ip =
      map_option (\<lambda>st. if ip = x then st\<lparr>st_owners := f (st_owners st)\<rparr> else st) (fmlookup staged ip)"
    by (cases "fmlookup staged ip"; cases "ip = x") (auto simp: modify_staged_def split: option.split)
  then show ?case by (cases "fmlookup staged ip") (auto simp: Cons.IH assms)
qed

lemma stage_replacement_lookup:
  assumes "\<And>st. fmlookup staged ip = Some st \<Longrightarrow> fmlookup (st_owners st) k = fmlookup (owners_of owners ip) k"
  shows "fmlookup (stage_replacement owners (k, s) staged) ip =
    map_option (\<lambda>st. st\<lparr>st_owners := new_state ip (k, s) (st_owners st)\<rparr>) (fmlookup staged ip)"
proof -
  have i1: "fmupd k b (fmupd k b os) = fmupd k b os" and i2: "fmupd k b (fmdrop k os) = fmupd k b os" for b and os :: "(string, bitmap) fmap"
    by (rule fmap_ext, simp)+
  have i3: "fmlookup os k = None \<Longrightarrow> fmdrop k os = os" for os :: "(string, bitmap) fmap"
    by (rule fmap_ext) auto
  let ?old = "case fmlookup owners k of None \<Rightarrow> staged | Some old \<Rightarrow> fold (modify_staged (fmdrop k)) (snap_ips old) staged"
  have old: "fmlookup ?old ip = map_option (\<lambda>st. if \<exists>old. fmlookup owners k = Some old \<and> ip \<in> set (snap_ips old)
      then st\<lparr>st_owners := fmdrop k (st_owners st)\<rparr> else st) (fmlookup staged ip)"
    by (simp add: modify_staged_lookup option.map_ident split: option.split)
  show ?thesis
  proof (cases "fmlookup staged ip")
    case None
    then show ?thesis
      using old by (simp add: stage_replacement_def Let_def modify_staged_lookup i1)
  next
    case (Some st)
    let ?claimed = "\<exists>old. fmlookup owners k = Some old \<and> ip \<in> set (snap_ips old)"
    have dropped: "fmlookup ?old ip = Some (st\<lparr>st_owners := fmdrop k (st_owners st)\<rparr>)"
    proof (cases ?claimed)
      case True
      then show ?thesis unfolding old using Some by simp
    next
      case False
      then have "fmlookup (st_owners st) k = None"
        using assms [OF Some] by (auto simp: owners_of_lookup split: option.splits)
      from i3 [OF this] False show ?thesis unfolding old using Some by simp
    qed
    show ?thesis
      unfolding stage_replacement_def prod.case Let_def
      by (simp add: dropped modify_staged_lookup i1 i2 new_state_def Some)
  qed
qed

text \<open>All replacements together.\<close>

lemma fold_stage_lookup:
  assumes "distinct (map fst xs)"
    and "\<And>st k. fmlookup staged ip = Some st \<Longrightarrow> k \<in> fst ` set xs \<Longrightarrow>
      fmlookup (st_owners st) k = fmlookup (owners_of owners ip) k"
  shows "fmlookup (fold (stage_replacement owners) xs staged) ip =
    map_option (\<lambda>st. st\<lparr>st_owners := fold (new_state ip) xs (st_owners st)\<rparr>) (fmlookup staged ip)"
  using assms
proof (induction xs arbitrary: staged)
  case Nil
  then show ?case by (simp add: option.map_ident)
next
  case (Cons x xs)
  obtain k s where x: "x = (k, s)" by (cases x)
  have step: "fmlookup (stage_replacement owners x staged) ip =
      map_option (\<lambda>st. st\<lparr>st_owners := new_state ip x (st_owners st)\<rparr>) (fmlookup staged ip)"
    unfolding x using Cons.prems(2) by (intro stage_replacement_lookup) (simp add: x)
  have keep: "fmlookup (new_state ip x os) k' = fmlookup os k'" if "k' \<in> fst ` set xs" for os k'
    using that Cons.prems(1) by (auto simp: x new_state_def image_iff)
  have "fmlookup (fold (stage_replacement owners) xs (stage_replacement owners x staged)) ip =
      map_option (\<lambda>st. st\<lparr>st_owners := fold (new_state ip) xs (st_owners st)\<rparr>) (fmlookup (stage_replacement owners x staged) ip)"
  proof (rule Cons.IH)
    fix st k' assume "fmlookup (stage_replacement owners x staged) ip = Some st" and k': "k' \<in> fst ` set xs"
    then obtain st0 where "fmlookup staged ip = Some st0" "st = st0\<lparr>st_owners := new_state ip x (st_owners st0)\<rparr>"
      using step by auto
    with keep [OF k'] Cons.prems(2) [of st0 k'] k' show "fmlookup (st_owners st) k' = fmlookup (owners_of owners ip) k'"
      by simp
  qed (use Cons.prems(1) in simp)
  then show ?case by (simp add: step option.map_comp comp_def)
qed

lemma fold_new_state:
  assumes "distinct (map fst xs)"
  shows "fmlookup (fold (new_state ip) xs os) k =
    (case map_of xs k of None \<Rightarrow> fmlookup os k
     | Some s \<Rightarrow> if \<not> snapshot_is_empty s \<and> ip \<in> set (snap_ips s) then Some (snap_bitmap s) else None)"
  using assms
proof (induction xs arbitrary: os)
  case (Cons x xs)
  obtain k' s where x: "x = (k', s)" by (cases x)
  from Cons.prems have "map_of xs k' = None" by (simp add: x map_of_eq_None_iff)
  with Cons show ?case by (auto simp: x new_state_def split: option.split)
qed simp

lemma fold_commit_owner:
  assumes "distinct (map fst xs)"
  shows "fmlookup (fold commit_owner xs owners) k =
    (case map_of xs k of None \<Rightarrow> fmlookup owners k | Some s \<Rightarrow> if snapshot_is_empty s then None else Some s)"
  using assms
proof (induction xs arbitrary: owners)
  case (Cons x xs)
  obtain k' s where x: "x = (k', s)" by (cases x)
  from Cons.prems have "map_of xs k' = None" by (simp add: x map_of_eq_None_iff)
  with Cons show ?case by (auto simp: x commit_owner_def split: option.split)
qed simp

lemma fold_commit_ip:
  assumes "distinct (map fst xs)"
  shows "fmlookup (fold commit_ip xs ips) k =
    (case map_of xs k of None \<Rightarrow> fmlookup ips k | Some st \<Rightarrow> if st_owners st = fmempty then None else Some st)"
  using assms
proof (induction xs arbitrary: ips)
  case (Cons x xs)
  obtain k' s where x: "x = (k', s)" by (cases x)
  from Cons.prems have "map_of xs k' = None" by (simp add: x map_of_eq_None_iff)
  with Cons show ?case by (auto simp: x commit_ip_def split: option.split)
qed simp

lemma map_of_hash_entries [simp]: "map_of (hash_entries m) k = fmlookup m k"
proof (cases "fmlookup m k")
  case None
  then have "k \<notin> fst ` set (hash_entries m)" by force
  with None show ?thesis by (simp add: map_of_eq_None_iff)
next
  case (Some v)
  then have "map_of (hash_entries m) k = Some v" by (intro map_of_is_SomeI) simp_all
  with Some show ?thesis by simp
qed

text \<open>The staged addresses are exactly the affected ones, with the state the new owners ask for.\<close>

abbreviation committed ::
    "(string, DomainRoutingOwnerSnapshot) fmap \<Rightarrow> (string, DomainRoutingOwnerSnapshot) fmap \<Rightarrow> (string, DomainRoutingOwnerSnapshot) fmap" where
  "committed owners replacements \<equiv> fold commit_owner (hash_entries replacements) owners"

lemma committed_lookup:
  "fmlookup (committed owners R) k =
     (case fmlookup R k of None \<Rightarrow> fmlookup owners k | Some s \<Rightarrow> if snapshot_is_empty s then None else Some s)"
  by (simp add: fold_commit_owner)

lemma set_affected_ips:
  "ip \<in> set (affected_ips owners R) \<longleftrightarrow>
     (\<exists>k s. fmlookup R k = Some s \<and> (ip \<in> set (snap_ips s) \<or> (\<exists>old. fmlookup owners k = Some old \<and> ip \<in> set (snap_ips old))))"
proof -
  have "ip \<in> set (case fmlookup owners k of None \<Rightarrow> [] | Some old \<Rightarrow> snap_ips old) \<longleftrightarrow>
      (\<exists>old. fmlookup owners k = Some old \<and> ip \<in> set (snap_ips old))" for k
    by (cases "fmlookup owners k") simp_all
  then show ?thesis by (simp add: affected_ips_def Bex_def) blast
qed

lemma owners_of_committed:
  "owners_of (committed owners R) ip = fold (new_state ip) (hash_entries R) (owners_of owners ip)"
  by (rule fmap_ext) (auto simp: owners_of_lookup committed_lookup fold_new_state split: option.split)

lemma owners_of_unaffected:
  assumes "ip \<notin> set (affected_ips owners R)"
  shows "owners_of (committed owners R) ip = owners_of owners ip"
  using assms
  by (intro fmap_ext) (auto simp: owners_of_lookup committed_lookup set_affected_ips split: option.split)

lemma stage_batch_lookup:
  assumes "tracker_ok T"
  shows "fmlookup (stage_batch T R) ip =
    (if ip \<in> set (affected_ips (tr_owners T) R)
     then let os = owners_of (committed (tr_owners T) R) ip in Some \<lparr>st_owners = os, st_merged = merge_owner_bitmaps os\<rparr>
     else None)"
proof -
  let ?st = "\<lambda>ip. case fmlookup (tr_ips T) ip of None \<Rightarrow> ip_state_default | Some s \<Rightarrow> s"
  let ?staged = "fmap_of_list (map (\<lambda>ip. (ip, ?st ip)) (affected_ips (tr_owners T) R))"
  have os: "st_owners (?st ip) = owners_of (tr_owners T) ip"
    using assms by (auto simp: tracker_ok_def ip_state_of_def ip_state_default_def Let_def)
  have staged: "fmlookup ?staged ip = (if ip \<in> set (affected_ips (tr_owners T) R) then Some (?st ip) else None)"
    by (simp add: fmlookup_of_list map_of_map_restrict restrict_map_def)
  have "fmlookup (fold (stage_replacement (tr_owners T)) (hash_entries R) ?staged) ip =
      map_option (\<lambda>st. st\<lparr>st_owners := fold (new_state ip) (hash_entries R) (st_owners st)\<rparr>) (fmlookup ?staged ip)"
    by (rule fold_stage_lookup) (auto simp: staged os split: if_splits)
  then show ?thesis
    by (simp add: stage_batch_def Let_def staged os owners_of_committed)
qed

lemma commit_batch_ok:
  assumes "tracker_ok T"
  shows "tracker_ok (commit_batch R (stage_batch T R) T)"
    "tr_owners (commit_batch R (stage_batch T R) T) = committed (tr_owners T) R"
proof -
  let ?T = "commit_batch R (stage_batch T R) T"
  show own: "tr_owners ?T = committed (tr_owners T) R" by (simp add: commit_batch_def)
  have "fmlookup (tr_ips ?T) ip = ip_state_of (tr_owners ?T) ip" for ip
  proof (cases "ip \<in> set (affected_ips (tr_owners T) R)")
    case True
    then show ?thesis
      by (simp add: own) (simp add: commit_batch_def fold_commit_ip stage_batch_lookup [OF assms] Let_def ip_state_of_def)
  next
    case False
    then show ?thesis
      using assms
      by (simp add: own) (simp add: commit_batch_def fold_commit_ip stage_batch_lookup [OF assms] Let_def ip_state_of_def
          owners_of_unaffected tracker_ok_def)
  qed
  moreover have "fmlookup (tr_owners ?T) k = Some s \<longrightarrow> \<not> snapshot_is_empty s" for k s
    using assms unfolding own committed_lookup by (auto simp: tracker_ok_def split: option.splits if_splits)
  ultimately show "tracker_ok ?T" by (simp add: tracker_ok_def)
qed

lemma bitmap_eqI:
  assumes "bitmap_ok a" "bitmap_ok b" "\<And>i n. i < 32 \<Longrightarrow> bit (a ! i) n = bit (b ! i) n"
  shows "a = b"
  using assms by (intro nth_equalityI bit_eqI) (auto simp: bitmap_ok_def)

lemma merge_owner_bitmaps_ok: "owners_ok os \<Longrightarrow> bitmap_ok (merge_owner_bitmaps os)"
  unfolding merge_owner_bitmaps_def
  by (rule fold_or_bitmap [THEN conjunct1]) (auto simp: owners_ok_def bitmap_ok_def zero_bitmap_def)

lemma desired_fold:
  "fold (\<lambda>(existing, b) (bitmap, present).
       if existing = k then (bitmap, present) else (or_bitmap bitmap b, True)) xs (acc, p) =
   (fold (\<lambda>(_, b) acc. or_bitmap acc b) (filter (\<lambda>x. fst x \<noteq> k) xs) acc, p \<or> (\<exists>x \<in> set xs. fst x \<noteq> k))"
  by (induction xs arbitrary: acc p) auto

lemma hash_entries_drop: "filter (\<lambda>x. fst x \<noteq> k) (hash_entries os) = hash_entries (fmdrop k os)"
proof -
  have "filter (\<lambda>x. fst x \<noteq> k) (hash_entries os) =
      map (\<lambda>k'. (k', the (fmlookup os k'))) (filter (\<lambda>k'. k' \<noteq> k) (sorted_list_of_fset (fmdom os)))"
    by (simp add: hash_entries_def filter_map o_def)
  also have "filter (\<lambda>k'. k' \<noteq> k) (sorted_list_of_fset (fmdom os)) = sorted_list_of_fset (fmdom (fmdrop k os))"
    by (rule sorted_distinct_set_unique) (auto simp: sorted_list_of_fset.rep_eq sorted_wrt_filter)
  finally show ?thesis by (simp add: hash_entries_def sorted_list_of_fset.rep_eq cong: map_cong)
qed

lemma desired_merge:
  "fold (\<lambda>(existing, b) (bitmap, present).
       if existing = k then (bitmap, present) else (or_bitmap bitmap b, True)) (hash_entries os) (zero_bitmap, False) =
   (merge_owner_bitmaps (fmdrop k os), fmdrop k os \<noteq> fmempty)"
proof -
  have "(\<exists>x \<in> set (hash_entries os). fst x \<noteq> k) \<longleftrightarrow> fmdrop k os \<noteq> fmempty"
  proof
    assume "\<exists>x \<in> set (hash_entries os). fst x \<noteq> k"
    then obtain k' v where "fmlookup os k' = Some v" "k' \<noteq> k" by auto
    then have "fmlookup (fmdrop k os) k' = Some v" by simp
    then show "fmdrop k os \<noteq> fmempty" by (metis fmempty_lookup option.distinct(1))
  next
    assume "fmdrop k os \<noteq> fmempty"
    then obtain k' v where "fmlookup (fmdrop k os) k' = Some v" by (metis fmap_ext fmempty_lookup option.exhaust)
    then have "(k', v) \<in> set (hash_entries os)" "fst (k', v) \<noteq> k" by (auto split: if_splits)
    then show "\<exists>x \<in> set (hash_entries os). fst x \<noteq> k" by blast
  qed
  then show ?thesis by (simp only: desired_fold hash_entries_drop merge_owner_bitmaps_def) simp
qed

lemma merge_owner_bitmaps_empty [simp]: "merge_owner_bitmaps fmempty = zero_bitmap"
  by (simp add: merge_owner_bitmaps_def hash_entries_def sorted_list_of_fset.rep_eq)

lemma merge_owner_bitmaps_upd:
  assumes "owners_ok os" "bitmap_ok b"
  shows "merge_owner_bitmaps (fmupd k b os) = or_bitmap (merge_owner_bitmaps (fmdrop k os)) b"
proof (rule bitmap_eqI)
  have ok: "owners_ok (fmupd k b os)" "owners_ok (fmdrop k os)" using assms by (auto simp: owners_ok_def split: if_splits)
  show "bitmap_ok (merge_owner_bitmaps (fmupd k b os))" by (rule merge_owner_bitmaps_ok [OF ok(1)])
  have d: "bitmap_ok (merge_owner_bitmaps (fmdrop k os))" by (rule merge_owner_bitmaps_ok [OF ok(2)])
  then show "bitmap_ok (or_bitmap (merge_owner_bitmaps (fmdrop k os)) b)" using assms(2) by (simp add: bitmap_ok_def)
  fix i n :: nat
  assume i: "i < 32"
  with d assms(2) have "or_bitmap (merge_owner_bitmaps (fmdrop k os)) b ! i = merge_owner_bitmaps (fmdrop k os) ! i OR b ! i"
    by (simp add: bitmap_ok_def or_bitmap_nth)
  then show "bit (merge_owner_bitmaps (fmupd k b os) ! i) n = bit (or_bitmap (merge_owner_bitmaps (fmdrop k os)) b ! i) n"
    by (auto simp: merge_owner_bitmaps_bit [OF ok(1) i] merge_owner_bitmaps_bit [OF ok(2) i] bit_or_iff)
qed

definition snapshots_ok :: "(string, DomainRoutingOwnerSnapshot) fmap \<Rightarrow> bool" where
  "snapshots_ok owners \<longleftrightarrow> (\<forall>k s. fmlookup owners k = Some s \<longrightarrow> bitmap_ok (snap_bitmap s))"

lemma owners_of_ok: "snapshots_ok owners \<Longrightarrow> owners_ok (owners_of owners ip)"
  by (auto simp: owners_ok_def owners_of_lookup snapshots_ok_def split: option.splits if_splits)

lemma owners_of_set:
  "owners_of (set_owner k s owners) ip =
     (if \<not> snapshot_is_empty s \<and> ip \<in> set (snap_ips s) then fmupd k (snap_bitmap s) (owners_of owners ip)
      else fmdrop k (owners_of owners ip))"
  by (rule fmap_ext) (simp add: owners_of_lookup set_owner_def)

lemma desired_bitmap_merged:
  assumes "tracker_ok T" "snapshots_ok (tr_owners T)" "bitmap_ok (snap_bitmap s)"
  shows "wanted (merged_of (set_owner k s (tr_owners T)))
    (\<lambda>ip. desired_bitmap_for_key T ip k s (ip \<in> set (snap_ips s))) ip"
proof -
  let ?os = "owners_of (tr_owners T) ip"
  have "(case fmlookup (tr_ips T) ip of None \<Rightarrow> (zero_bitmap, False)
      | Some state \<Rightarrow> fold (\<lambda>(existing, b) (bitmap, present).
            if existing = k then (bitmap, present) else (or_bitmap bitmap b, True)) (hash_entries (st_owners state)) (zero_bitmap, False)) =
      (merge_owner_bitmaps (fmdrop k ?os), fmdrop k ?os \<noteq> fmempty)"
    using assms(1) by (auto simp: tracker_ok_def ip_state_of_def desired_merge Let_def)
  with merge_owner_bitmaps_upd [OF owners_of_ok [OF assms(2), of ip] assms(3), of k] show ?thesis
    by (auto simp: wanted_def merged_of_def owners_of_set desired_bitmap_for_key_def Let_def)
qed

lemma plan_owner_update_apply:
  assumes "tracker_ok T" "snapshots_ok (tr_owners T)" "bitmap_ok (snap_bitmap s)" "k \<noteq> []"
  shows "apply_plan (plan_updates (plan_owner_update T k s), plan_deletes (plan_owner_update T k s)) (merged_of (tr_owners T)) =
    merged_of (set_owner k s (tr_owners T))"
proof (cases "fmlookup (tr_owners T) k = Some s")
  case True
  then have "set_owner k s (tr_owners T) = tr_owners T"
    using assms(1) by (intro fmap_ext) (auto simp: set_owner_def tracker_ok_def)
  with True assms(4) show ?thesis
    by (simp add: plan_owner_update_def Let_def apply_plan_def apply_updates_def apply_deletes_def)
next
  case False
  let ?aff = "normalize_ip_keys ((case fmlookup (tr_owners T) k of None \<Rightarrow> [] | Some old \<Rightarrow> snap_ips old) @ snap_ips s)"
  let ?desired = "\<lambda>ip. desired_bitmap_for_key T ip k s (ip \<in> set (snap_ips s))"
  have "apply_plan (plan_ips (tr_ips T) ?desired ?aff) (merged_of (tr_owners T)) = merged_of (set_owner k s (tr_owners T))"
  proof (rule plan_ips_apply)
    show "\<forall>ip. ip \<notin> set ?aff \<longrightarrow> merged_of (set_owner k s (tr_owners T)) ip = merged_of (tr_owners T) ip"
    proof (intro allI impI)
      fix ip
      assume "ip \<notin> set ?aff"
      then have "owners_of (set_owner k s (tr_owners T)) ip = owners_of (tr_owners T) ip"
        by (intro fmap_ext) (auto simp: owners_of_lookup set_owner_def split: option.splits)
      then show "merged_of (set_owner k s (tr_owners T)) ip = merged_of (tr_owners T) ip" by (simp add: merged_of_def)
    qed
  qed (use desired_bitmap_merged [OF assms(1-3)] in \<open>simp_all add: tracker_ok_merged assms(1)\<close>)
  moreover have "(if 16 < length (snap_ips s) then ip \<in> set (sort (snap_ips s)) else ip \<in> set (snap_ips s)) =
      (ip \<in> set (snap_ips s))" for ip by simp
  ultimately show ?thesis using False assms(4)
    by (simp only: plan_owner_update_def Let_def split_def) simp
qed

lemma merged_of_empty [simp]: "merged_of fmempty = Map.empty"
  by (rule ext) (simp add: merged_of_def owners_of_def)

lemma merged_of_unaffected:
  "ip \<notin> set (affected_ips owners R) \<Longrightarrow> merged_of (committed owners R) ip = merged_of owners ip"
  by (simp add: merged_of_def owners_of_unaffected)

lemma batch_plan_apply:
  assumes "tracker_ok T"
  shows "apply_plan (plan_ips (tr_ips T)
      (\<lambda>ip. case fmlookup (stage_batch T R) ip of
              None \<Rightarrow> (zero_bitmap, False) | Some st \<Rightarrow> (st_merged st, st_owners st \<noteq> fmempty))
      (affected_ips (tr_owners T) R)) (merged_of (tr_owners T)) = merged_of (committed (tr_owners T) R)"
proof (rule plan_ips_apply)
  show "\<forall>ip \<in> set (affected_ips (tr_owners T) R). wanted (merged_of (committed (tr_owners T) R))
      (\<lambda>ip. case fmlookup (stage_batch T R) ip of
              None \<Rightarrow> (zero_bitmap, False) | Some st \<Rightarrow> (st_merged st, st_owners st \<noteq> fmempty)) ip"
    by (simp add: wanted_def stage_batch_lookup [OF assms] merged_of_def Let_def)
qed (simp_all add: tracker_ok_merged assms merged_of_unaffected)

lemma apply_updates_of_map:
  assumes "\<And>ip b. (\<exists>e \<in> set es. entry_key e = ip \<and> entry_bitmap e = b) \<longleftrightarrow> m' ip = Some b"
  shows "apply_updates es m = m ++ m'"
proof
  fix ip
  show "apply_updates es m ip = (m ++ m') ip"
  proof (cases "m' ip")
    case None
    then have "ip \<notin> entry_key ` set es" using assms [of ip] by auto
    then have "apply_updates es m ip = m ip" by (subst apply_updates_lookup [of _ _ undefined]) auto
    with None show ?thesis by (simp add: map_add_def)
  next
    case (Some b)
    then have "\<forall>e \<in> set es. entry_key e = ip \<longrightarrow> entry_bitmap e = b" using assms [of ip] by (metis option.inject)
    moreover have "ip \<in> entry_key ` set es" using assms [of ip b] Some by auto
    ultimately have "apply_updates es m ip = Some b" by (subst apply_updates_lookup [of _ _ b]) simp_all
    with Some show ?thesis by (simp add: map_add_def)
  qed
qed

lemma tracker_entries_apply:
  assumes "tracker_ok T"
  shows "apply_updates (tracker_entries T) m = m ++ merged_of (tr_owners T)"
proof (rule apply_updates_of_map)
  fix ip b
  show "(\<exists>e \<in> set (tracker_entries T). entry_key e = ip \<and> entry_bitmap e = b) \<longleftrightarrow> merged_of (tr_owners T) ip = Some b"
    by (simp add: tracker_entries_def tracker_ok_merged [OF assms] Bex_def image_iff) force
qed

lemma replay_entries_apply:
  assumes "tracker_ok T"
  shows "apply_updates (replay_entries_of T (stage_batch T R)) m = m ++ merged_of (committed (tr_owners T) R)"
proof (rule apply_updates_of_map)
  fix ip b
  let ?S = "stage_batch T R" and ?A = "set (affected_ips (tr_owners T) R)"
  have dom: "ip |\<in>| fmdom ?S \<longleftrightarrow> ip \<in> ?A" for ip
    by (auto simp: fmlookup_dom_iff stage_batch_lookup [OF assms] Let_def split: if_splits)
  have "(\<exists>e \<in> set (replay_entries_of T ?S). entry_key e = ip \<and> entry_bitmap e = b) \<longleftrightarrow>
      (\<exists>st. b = st_merged st \<and> (ip |\<notin>| fmdom ?S \<and> fmlookup (tr_ips T) ip = Some st \<or>
         fmlookup ?S ip = Some st \<and> st_owners st \<noteq> fmempty))"
    by (simp add: replay_entries_of_def Bex_def image_iff) force
  also have "\<dots> \<longleftrightarrow> merged_of (committed (tr_owners T) R) ip = Some b"
  proof (cases "ip \<in> ?A")
    case True
    then show ?thesis by (auto simp: dom stage_batch_lookup [OF assms] Let_def merged_of_def)
  next
    case False
    then show ?thesis
      by (auto simp: dom stage_batch_lookup [OF assms] merged_of_unaffected tracker_ok_merged [OF assms])
  qed
  finally show "(\<exists>e \<in> set (replay_entries_of T ?S). entry_key e = ip \<and> entry_bitmap e = b) \<longleftrightarrow>
      merged_of (committed (tr_owners T) R) ip = Some b" .
qed

section \<open>Batches as sequences of events\<close>

definition event_owner ::
    "DomainRoutingDnsEvent \<Rightarrow> (string, DomainRoutingOwnerSnapshot) fmap \<Rightarrow> (string, DomainRoutingOwnerSnapshot) fmap" where
  "event_owner e = set_owner (ev_owner_key e) (into_snapshot e)"

lemma committed_upd: "committed owners (fmupd k s R) = set_owner k s (committed owners R)"
  by (rule fmap_ext) (simp add: committed_lookup set_owner_def)

lemma committed_empty: "committed owners fmempty = owners"
  by (rule fmap_ext) (simp add: committed_lookup)

lemma collect_replacements_committed:
  "collect_replacements events R0 = Inr R \<Longrightarrow> committed owners R = fold event_owner events (committed owners R0)"
proof (induction events R0 rule: collect_replacements.induct)
  case (2 event events R0)
  then show ?case by (simp add: committed_upd event_owner_def split: if_splits)
qed simp

lemma committed_filter:
  assumes "\<forall>k s. fmlookup owners k = Some s \<longrightarrow> \<not> snapshot_is_empty s"
  shows "committed owners (fmfilter (changes_owner owners R) R) = committed owners R"
  using assms
  by (intro fmap_ext) (auto simp: committed_lookup changes_owner_def split: option.splits)

lemma batch_committed:
  assumes "tracker_ok T" "collect_replacements events fmempty = Inr R"
  shows "committed (tr_owners T) (fmfilter (changes_owner (tr_owners T) R) R) = fold event_owner events (tr_owners T)"
proof -
  have "\<forall>k s. fmlookup (tr_owners T) k = Some s \<longrightarrow> \<not> snapshot_is_empty s" using assms(1) by (simp add: tracker_ok_def)
  then show ?thesis
    by (simp add: committed_filter collect_replacements_committed [OF assms(2)] committed_empty)
qed

text \<open>What a batch does to the owner and asks of the map.\<close>

definition batch_plan ::
    "DomainRoutingOwner \<Rightarrow> u32 \<Rightarrow> (string, DomainRoutingOwnerSnapshot) fmap \<Rightarrow> DomainRoutingStateEntry list \<times> DomainRoutingIpKey list" where
  "batch_plan own m R =
     (let T = own_tracker own
      in if own_map_id own \<noteq> Some m then (replay_entries_of T (stage_batch T R), [])
         else plan_ips (tr_ips T)
           (\<lambda>ip. case fmlookup (stage_batch T R) ip of
                   None \<Rightarrow> (zero_bitmap, False) | Some st \<Rightarrow> (st_merged st, st_owners st \<noteq> fmempty))
           (affected_ips (tr_owners T) R))"

lemma apply_dns_events_run:
  assumes "collect_replacements events fmempty = Inr R0"
    and "R = fmfilter (changes_owner (tr_owners (own_tracker own)) R0) R0"
  obtains rep where "rep_owner_snapshot_changed rep = (R \<noteq> fmempty)"
    "apply_dns_events_with apply m events own k =
      (case (if batch_plan own m R = ([], []) then (Inr (), k)
             else apply m (fst (batch_plan own m R)) (snd (batch_plan own m R)) k) of
         (Inl error, k) \<Rightarrow> (Inl error, own, k)
       | (Inr _, k) \<Rightarrow>
           (Inr rep, \<lparr>own_map_id = Some m, own_tracker = commit_batch R (stage_batch (own_tracker own) R) (own_tracker own)\<rparr>, k))"
proof -
  define S where "S = stage_batch (own_tracker own) R"
  define p where "p = plan_ips (tr_ips (own_tracker own))
      (\<lambda>ip. case fmlookup S ip of None \<Rightarrow> (zero_bitmap, False) | Some st \<Rightarrow> (st_merged st, st_owners st \<noteq> fmempty))
      (affected_ips (tr_owners (own_tracker own)) R)"
  have plan: "batch_plan own m R = (if own_map_id own \<noteq> Some m then (replay_entries_of (own_tracker own) S, []) else p)"
    by (simp only: batch_plan_def p_def S_def Let_def)
  have "fst (batch_plan own m R) = (if own_map_id own \<noteq> Some m then replay_entries_of (own_tracker own) S else fst p)"
    "snd (batch_plan own m R) = (if own_map_id own \<noteq> Some m then [] else snd p)" by (simp_all add: plan)
  note parts = this
  let ?p = "batch_plan own m R" and ?T = "commit_batch R (stage_batch (own_tracker own) R) (own_tracker own)"
  define rep where "rep = \<lparr>rep_map_id = m, rep_map_id_changed = (own_map_id own \<noteq> Some m),
      rep_skipped = (fst ?p = [] \<and> snd ?p = []), rep_owner_snapshot_changed = (R \<noteq> fmempty),
      rep_affected_keys = length (affected_ips (tr_owners (own_tracker own)) R), rep_entries_updated = length (fst ?p),
      rep_entries_deleted = length (snd ?p), rep_owner_count = owner_count ?T, rep_ip_count = ip_count ?T\<rparr>"
  have skip: "?p = ([], []) \<longleftrightarrow> fst ?p = [] \<and> snd ?p = []" by (simp add: prod_eq_iff)
  show ?thesis
  proof (rule that [of rep])
    show "apply_dns_events_with apply m events own k =
      (case (if ?p = ([], []) then (Inr (), k) else apply m (fst ?p) (snd ?p) k) of
         (Inl error, k) \<Rightarrow> (Inl error, own, k)
       | (Inr _, k) \<Rightarrow> (Inr rep, \<lparr>own_map_id = Some m, own_tracker = ?T\<rparr>, k))"
      unfolding skip rep_def parts S_def p_def apply_dns_events_with_def assms(1) sum.case Let_def assms(2) [symmetric] split_def
      by (rule refl)
  qed (simp add: rep_def)
qed

lemma apply_dns_events_success:
  assumes "tracker_ok (own_tracker own)"
    and "apply_dns_events_with apply m events own k = (Inr rep, own', k')"
  obtains ups dels where "own_map_id own' = Some m" "tracker_ok (own_tracker own')"
    "tr_owners (own_tracker own') = fold event_owner events (tr_owners (own_tracker own))"
    "ups = [] \<and> dels = [] \<and> k' = k \<or> apply m ups dels k = (Inr (), k')"
    "own_map_id own = Some m \<Longrightarrow>
       apply_plan (ups, dels) (merged_of (tr_owners (own_tracker own))) = merged_of (tr_owners (own_tracker own'))"
    "own_map_id own \<noteq> Some m \<Longrightarrow> apply_plan (ups, dels) c = c ++ merged_of (tr_owners (own_tracker own'))"
    "\<not> rep_owner_snapshot_changed rep \<Longrightarrow> tr_owners (own_tracker own') = tr_owners (own_tracker own)"
proof -
  let ?T = "own_tracker own"
  from assms(2) obtain R0 where R0: "collect_replacements events fmempty = Inr R0"
    by (cases "collect_replacements events fmempty") (simp_all add: apply_dns_events_with_def)
  define R where "R = fmfilter (changes_owner (tr_owners ?T) R0) R0"
  define ups dels where "ups = fst (batch_plan own m R)" and "dels = snd (batch_plan own m R)"
  note c = commit_batch_ok [OF assms(1), of R]
  have own: "committed (tr_owners ?T) R = fold event_owner events (tr_owners ?T)"
    unfolding R_def by (rule batch_committed [OF assms(1) R0])
  obtain rep' where rep': "rep_owner_snapshot_changed rep' = (R \<noteq> fmempty)" and
    run: "apply_dns_events_with apply m events own k =
      (case (if batch_plan own m R = ([], []) then (Inr (), k) else apply m ups dels k) of
         (Inl error, k) \<Rightarrow> (Inl error, own, k)
       | (Inr _, k) \<Rightarrow> (Inr rep', \<lparr>own_map_id = Some m, own_tracker = commit_batch R (stage_batch ?T R) ?T\<rparr>, k))"
    using apply_dns_events_run [OF R0 R_def, of "apply" m k] unfolding ups_def dels_def by blast
  from assms(2) run have own': "own' = \<lparr>own_map_id = Some m, own_tracker = commit_batch R (stage_batch ?T R) ?T\<rparr>"
    and k: "ups = [] \<and> dels = [] \<and> k' = k \<or> apply m ups dels k = (Inr (), k')" and rep: "rep = rep'"
    by (auto simp: ups_def dels_def split: if_splits sum.splits prod.splits)
  show ?thesis
  proof (rule that [of ups dels])
    show "tracker_ok (own_tracker own')" by (simp add: own' c)
    show "apply_plan (ups, dels) (merged_of (tr_owners ?T)) = merged_of (tr_owners (own_tracker own'))" if "own_map_id own = Some m"
      using that batch_plan_apply [OF assms(1), of R] by (simp add: ups_def dels_def batch_plan_def Let_def own' c)
    show "apply_plan (ups, dels) c = c ++ merged_of (tr_owners (own_tracker own'))" if "own_map_id own \<noteq> Some m"
      using that replay_entries_apply [OF assms(1), of R c]
      by (simp add: ups_def dels_def batch_plan_def Let_def own' c apply_plan_def apply_deletes_def)
    show "tr_owners (own_tracker own') = tr_owners ?T" if "\<not> rep_owner_snapshot_changed rep"
      using that c(2) by (simp add: own' rep rep' committed_empty)
  qed (use k in \<open>simp_all add: own' c own\<close>)
qed

lemma collect_replacements_error:
  "collect_replacements events R = Inl e \<Longrightarrow> e = InvalidInput ''domain routing owner key is empty''"
  by (induction events R rule: collect_replacements.induct) (auto split: if_splits)

lemma apply_dns_events_error:
  assumes "apply_dns_events_with apply m events own k = (Inl e, own', k')"
  shows "own' = own \<and> (k' = k \<and> (\<exists>t. e = InvalidInput t) \<or> (\<exists>ups dels. apply m ups dels k = (Inl e, k')))"
proof (cases "collect_replacements events fmempty")
  case (Inl e')
  then have "e' = InvalidInput ''domain routing owner key is empty''"
    by (rule collect_replacements_error)
  with Inl assms show ?thesis by (auto simp: apply_dns_events_with_def)
next
  case (Inr R0)
  define R where "R = fmfilter (changes_owner (tr_owners (own_tracker own)) R0) R0"
  define p where "p = batch_plan own m R"
  obtain rep own'' where "apply_dns_events_with apply m events own k =
      (case (if p = ([], []) then (Inr (), k) else apply m (fst p) (snd p) k) of
         (Inl error, k) \<Rightarrow> (Inl error, own, k) | (Inr _, k) \<Rightarrow> (Inr rep, own'', k))"
    using apply_dns_events_run [OF Inr R_def, of "apply" m k] unfolding p_def by blast
  with assms show ?thesis by (auto split: if_splits sum.splits prod.splits)
qed

section \<open>Properties\<close>

text \<open>
  C0. The incremental plan of an owner's update is exact: written to the map that the tracked owners
  ask for, it gives the map that the owners ask for once the tracker has recorded the snapshot, and
  the tracker's index by address stays consistent.
\<close>

theorem owner_update_plan_exact:
  assumes "tracker_ok T" "snapshots_ok (tr_owners T)" "bitmap_ok (snap_bitmap s)" "k \<noteq> []"
  shows "let plan = plan_owner_update T k s; T' = sync_owner k s T
    in tracker_ok T' \<and> tr_owners T' = set_owner k s (tr_owners T) \<and>
       apply_plan (plan_updates plan, plan_deletes plan) (merged_of (tr_owners T)) = merged_of (tr_owners T')"
proof -
  have "sync_owner k s T = apply_owner_snapshot_ref k s T"
    using assms(4) by (simp add: sync_owner_def apply_owner_update_ref_def Let_def)
  with apply_owner_snapshot_ref_ok [OF assms(1), of k s] plan_owner_update_apply [OF assms] show ?thesis
    by (simp add: Let_def)
qed

theorem owner_update_plan_exact_witness:
  "let s = snapshot_from_keys [1] [[0, 0, 0, 1]]; plan = plan_owner_update tracker_default ''a'' s;
       T' = sync_owner ''a'' s tracker_default
   in tracker_ok T' \<and> tr_owners T' = set_owner ''a'' s fmempty \<and>
      apply_plan (plan_updates plan, plan_deletes plan) Map.empty = merged_of (tr_owners T')"
proof -
  have "snapshots_ok (tr_owners tracker_default)" "bitmap_ok (snap_bitmap (snapshot_from_keys [1] [[0, 0, 0, 1]]))"
    by (simp_all add: tracker_default_def snapshots_ok_def snapshot_from_keys_def bitmap_ok_def bitmap_of_words_def)
  from owner_update_plan_exact [OF tracker_default_ok this, of "''a''"] show ?thesis
    by (simp add: Let_def) (simp add: tracker_default_def)
qed

text \<open>
  C0. A batch of DNS events is atomic: when the map cannot be written, or an event names no owner, the
  generation's owner is as before; otherwise its snapshots are those of the events applied one after
  the other, whatever owners the batch names twice or removes.
\<close>

theorem dns_batch_atomic:
  assumes "tracker_ok (own_tracker own)" "apply_dns_events_with apply m events own k = (r, own', k')"
  shows "(case r of
      Inl e \<Rightarrow> own' = own
    | Inr rep \<Rightarrow> own_map_id own' = Some m \<and> tracker_ok (own_tracker own') \<and>
        tr_owners (own_tracker own') = fold event_owner events (tr_owners (own_tracker own)))"
proof (cases r)
  case (Inl e)
  with apply_dns_events_error assms(2) show ?thesis by fastforce
next
  case (Inr rep)
  from assms(2) [unfolded Inr] have run: "apply_dns_events_with apply m events own k = (Inr rep, own', k')" .
  show ?thesis unfolding Inr by (rule apply_dns_events_success [OF assms(1) run]) simp
qed

theorem dns_batch_atomic_witness:
  "case apply_dns_events_with (\<lambda>_ _ _ k. (Inr (), k)) 5
      [event_from_keys ''a'' [4] [[0, 0, 0, 9]], event_remove ''a'', event_from_keys ''b'' [1] [[0, 0, 0, 9]]] owner_default () of
     (r, own, _) \<Rightarrow> (case r of Inl e \<Rightarrow> False | Inr rep \<Rightarrow> own_map_id own = Some 5) \<and>
       fmlookup (tr_owners (own_tracker own)) ''b'' = Some (snapshot_from_keys [1] [[0, 0, 0, 9]])"
proof -
  let ?events = "[event_from_keys ''a'' [4] [[0, 0, 0, 9]], event_remove ''a'', event_from_keys ''b'' [1] [[0, 0, 0, 9]]]"
  let ?run = "apply_dns_events_with (\<lambda>_ _ _ k. (Inr (), k)) 5 ?events owner_default ()"
  obtain r own k where run: "?run = (r, own, k)" by (metis prod_cases3)
  have "case fst ?run of Inl e \<Rightarrow> False | Inr rep \<Rightarrow> True" by code_simp
  then obtain rep where r: "r = Inr rep" by (cases r) (simp_all add: run)
  have "tracker_ok (own_tracker owner_default)" by (simp add: owner_default_def)
  from dns_batch_atomic [OF this run] r
  have own: "own_map_id own = Some 5" "tr_owners (own_tracker own) = fold event_owner ?events (tr_owners (own_tracker owner_default))"
    by simp_all
  have "fmlookup (fold event_owner ?events (tr_owners (own_tracker owner_default))) ''b'' = Some (snapshot_from_keys [1] [[0, 0, 0, 9]])"
    by code_simp
  with own r show ?thesis by (simp only: run prod.case sum.case)
qed

end
