(* ===== verification/Domain_Transaction.thy ===== *)
theory Domain_Transaction
  imports Domain_Tracker "HOL-Library.AList"
begin

text \<open>
  Writing a plan to the kernel's map with rollback, under the documented behaviour of the system
  calls, and two kernels that have it.
\<close>

section \<open>Transactions on the kernel map\<close>

text \<open>
  Documented behaviour of the system calls on one map: a lookup reads the map, an update or a
  deletion that succeeds changes one key, one that fails changes none.  The map is an LRU hash map,
  whose updates may drop other entries when it is full; \<open>aged a b\<close> says that \<open>b\<close> is what may be left
  of \<open>a\<close>.  An update of any key is never refused for a missing entry, and the kernel's own errors are
  error numbers.
\<close>

locale map_calls =
  fixes S :: "'k map_sys" and m :: u32 and contents :: "'k \<Rightarrow> DomainRoutingIpKey \<rightharpoonup> bitmap"
    and aged :: "(DomainRoutingIpKey \<rightharpoonup> bitmap) \<Rightarrow> (DomainRoutingIpKey \<rightharpoonup> bitmap) \<Rightarrow> bool"
  assumes aged_refl: "aged a a"
    and aged_trans: "aged a b \<Longrightarrow> aged b c \<Longrightarrow> aged a c"
    and aged_upd: "aged a b \<Longrightarrow> aged (a(key := x)) (b(key := x))"
    and open_law: "sys_open S m k = (r, k') \<Longrightarrow> contents k' = contents k \<and> (\<forall>t. r \<noteq> Inl (OtherError t))"
    and lookup_law: "sys_lookup S m key k = (found, k') \<Longrightarrow>
      contents k' = contents k \<and> (\<forall>v. found = Inr v \<longrightarrow> contents k key = Some v) \<and>
      (found = Inl ENOENT \<longrightarrow> contents k key = None) \<and> (\<forall>t. found \<noteq> Inl (OtherError t))"
    and update_ok: "sys_update S m key v k = (Inr (), k') \<Longrightarrow> aged ((contents k)(key \<mapsto> v)) (contents k')"
    and update_err: "sys_update S m key v k = (Inl e, k') \<Longrightarrow>
      aged (contents k) (contents k') \<and> e \<noteq> ENOENT \<and> (\<forall>t. e \<noteq> OtherError t)"
    and delete_ok: "sys_delete S m key k = (r, k') \<Longrightarrow> r = Inr () \<or> r = Inl ENOENT \<Longrightarrow>
      aged ((contents k)(key := None)) (contents k')"
    and delete_err: "sys_delete S m key k = (Inl e, k') \<Longrightarrow> e \<noteq> ENOENT \<Longrightarrow>
      aged (contents k) (contents k') \<and> (\<forall>t. e \<noteq> OtherError t)"
begin

lemma aged_plan: "aged a b \<Longrightarrow> aged (apply_plan p a) (apply_plan p b)"
proof -
  have "aged a b \<Longrightarrow> aged (apply_updates es a) (apply_updates es b)" for es a b
    unfolding apply_updates_def by (induction es arbitrary: a b) (simp_all add: aged_upd del: fun_upd_apply)
  moreover have "aged a b \<Longrightarrow> aged (apply_deletes ks a) (apply_deletes ks b)" for ks a b
    unfolding apply_deletes_def by (induction ks arbitrary: a b) (simp_all add: aged_upd del: fun_upd_apply)
  ultimately show "aged a b \<Longrightarrow> aged (apply_plan p a) (apply_plan p b)" unfolding apply_plan_def by blast
qed

lemma take_snapshots_reads:
  assumes "take_snapshots S m keys snaps k = (r, k')" "\<forall>(key, v) \<in> set snaps. v = contents k key"
  shows "contents k' = contents k \<and> (\<forall>t. r \<noteq> Inl (OtherError t)) \<and>
    (\<forall>snaps'. r = Inr snaps' \<longrightarrow> fst ` set snaps' = fst ` set snaps \<union> set keys \<and> (\<forall>(key, v) \<in> set snaps'. v = contents k key))"
  using assms
proof (induction keys arbitrary: snaps k)
  case (Cons key keys)
  show ?case
  proof (cases "key \<in> fst ` set snaps")
    case True
    with Cons.prems Cons.IH [of snaps k] show ?thesis by (auto simp: insert_absorb)
  next
    case False
    obtain q k1 where l: "sys_lookup S m key k = (q, k1)" by fastforce
    note law = lookup_law [OF l]
    show ?thesis
    proof (cases "q = Inl ENOENT \<or> (\<exists>v. q = Inr v)")
      case True
      define old where "old = (case q of Inr v \<Rightarrow> Some v | Inl _ \<Rightarrow> None)"
      have "take_snapshots S m keys (snaps @ [(key, old)]) k1 = (r, k')"
        using Cons.prems(1) True l \<open>key \<notin> _\<close> by (auto simp: old_def)
      moreover have "\<forall>(key, v) \<in> set (snaps @ [(key, old)]). v = contents k1 key"
        using Cons.prems(2) law True by (auto simp: old_def)
      ultimately show ?thesis using Cons.IH [of "snaps @ [(key, old)]" k1] law by auto
    next
      case err: False
      with Cons.prems(1) l \<open>key \<notin> _\<close> law show ?thesis by (cases q) auto
    qed
  qed
qed auto

lemma write_updates_aged:
  assumes "write_updates S m es k = (r, k')" "aged a (contents k)"
  shows "(r = Inr () \<longrightarrow> aged (apply_updates es a) (contents k')) \<and>
    (\<exists>b. aged b (contents k') \<and> (\<forall>key. key \<notin> entry_key ` set es \<longrightarrow> b key = a key)) \<and> (\<forall>t. r \<noteq> Inl (OtherError t))"
  using assms
proof (induction es arbitrary: k a)
  case Nil
  then show ?case by (auto simp: apply_updates_def)
next
  case (Cons e es)
  obtain q k1 where u: "sys_update S m (entry_key e) (entry_bitmap e) k = (q, k1)" by fastforce
  show ?case
  proof (cases q)
    case (Inl err)
    with Cons.prems u update_err [of "entry_key e" "entry_bitmap e" k err k1] show ?thesis
      by (auto intro: aged_trans)
  next
    case (Inr x)
    let ?a = "a(entry_key e \<mapsto> entry_bitmap e)"
    from Inr u have "sys_update S m (entry_key e) (entry_bitmap e) k = (Inr (), k1)" by simp
    from update_ok [OF this] aged_upd [OF Cons.prems(2)] have a: "aged ?a (contents k1)" by (rule aged_trans [rotated])
    have w: "write_updates S m es k1 = (r, k')" using Cons.prems(1) u Inr by simp
    from Cons.IH [OF w a] obtain b where b: "aged b (contents k')" "\<forall>key. key \<notin> entry_key ` set es \<longrightarrow> b key = ?a key"
      by blast
    then have "\<forall>key. key \<notin> entry_key ` set (e # es) \<longrightarrow> b key = a key" by simp
    with b(1) Cons.IH [OF w a] show ?thesis unfolding apply_updates_def fold_simps by blast
  qed
qed

lemma write_deletes_aged:
  assumes "write_deletes S m keys k = (r, k')" "aged a (contents k)"
  shows "(r = Inr () \<longrightarrow> aged (apply_deletes keys a) (contents k')) \<and>
    (\<exists>b. aged b (contents k') \<and> (\<forall>key. key \<notin> set keys \<longrightarrow> b key = a key)) \<and> (\<forall>t. r \<noteq> Inl (OtherError t))"
  using assms
proof (induction keys arbitrary: k a)
  case Nil
  then show ?case by (auto simp: apply_deletes_def)
next
  case (Cons key keys)
  obtain q k1 where d: "sys_delete S m key k = (q, k1)" by fastforce
  show ?case
  proof (cases "q = Inr () \<or> q = Inl ENOENT")
    case True
    let ?a = "a(key := None)"
    from delete_ok [OF d True] aged_upd [OF Cons.prems(2)] have a: "aged ?a (contents k1)" by (rule aged_trans [rotated])
    have w: "write_deletes S m keys k1 = (r, k')" using Cons.prems(1) d True by auto
    from Cons.IH [OF w a] obtain b where b: "aged b (contents k')" "\<forall>key. key \<notin> set keys \<longrightarrow> b key = ?a key"
      by blast
    then have "\<forall>key'. key' \<notin> set (key # keys) \<longrightarrow> b key' = a key'" by simp
    with b(1) Cons.IH [OF w a] show ?thesis unfolding apply_deletes_def fold_simps by blast
  next
    case False
    then obtain e where e: "q = Inl e" "e \<noteq> ENOENT" by (cases q) auto
    with Cons.prems d delete_err [of key k e k1] show ?thesis by (auto intro: aged_trans)
  qed
qed

lemma rollback_loop_first: "rollback_loop S m snaps (Some e) k = (r, k') \<Longrightarrow> r = Inl e"
proof (induction snaps arbitrary: k)
  case (Cons x snaps)
  obtain key old where x: "x = (key, old)" by (cases x)
  obtain q k1 where "(case old of Some b \<Rightarrow> sys_update S m key b k | None \<Rightarrow> sys_delete S m key k) = (q, k1)" by fastforce
  with Cons show ?case by (cases q) (auto simp: x)
qed simp

lemma rollback_loop_restores:
  assumes "rollback_loop S m snaps None k = (Inr (), k')" "aged a (contents k)"
  shows "aged (fold (\<lambda>(key, v) a. a(key := v)) snaps a) (contents k')"
  using assms
proof (induction snaps arbitrary: k a)
  case (Cons x snaps)
  obtain key old where x: "x = (key, old)" by (cases x)
  let ?op = "case old of Some b \<Rightarrow> sys_update S m key b k | None \<Rightarrow> sys_delete S m key k"
  obtain q k1 where op: "?op = (q, k1)" by fastforce
  have fin: "q = Inr () \<or> (old = None \<and> q = Inl ENOENT)"
  proof (cases q)
    case (Inl e)
    then have "e = ENOENT"
      using Cons.prems(1) op rollback_loop_first [of snaps e k1] by (auto simp: x split: if_splits)
    with Inl op show ?thesis by (cases old) (auto dest: update_err)
  qed simp
  then have rest: "rollback_loop S m snaps None k1 = (Inr (), k')" using Cons.prems(1) op by (auto simp: x)
  have "aged ((contents k)(key := old)) (contents k1)"
    using fin op by (cases old) (auto intro: update_ok delete_ok)
  with aged_upd [OF Cons.prems(2)] have "aged (a(key := old)) (contents k1)" by (rule aged_trans)
  from Cons.IH [OF rest this] show ?case by (simp add: x)
qed simp

lemma fold_restore:
  assumes "\<forall>(key, v) \<in> set snaps. v = c key"
  shows "fold (\<lambda>(key, v) a. a(key := v)) snaps a key = (if key \<in> fst ` set snaps then c key else a key)"
  using assms by (induction snaps arbitrary: a) auto

text \<open>The map after a successful transaction, and after one that was rolled back.\<close>

lemma rolled_back:
  assumes "rollback_domain_routing_snapshot S m snaps k = (Inr (), k')" "aged b (contents k)"
    and "\<forall>(key, v) \<in> set snaps. v = c key" "\<forall>key. key \<notin> fst ` set snaps \<longrightarrow> b key = c key"
  shows "aged c (contents k')"
proof -
  have "aged (fold (\<lambda>(key, v) a. a(key := v)) (rev snaps) b) (contents k')"
    using assms(1,2) by (auto simp: rollback_domain_routing_snapshot_def intro: rollback_loop_restores)
  moreover have "fold (\<lambda>(key, v) a. a(key := v)) (rev snaps) b = c"
    using assms(3,4) by (auto simp: fun_eq_iff fold_restore [where c = c])
  ultimately show ?thesis by simp
qed

lemma undone:
  assumes "rollback_domain_routing_snapshot S m snaps k = (rb, k')" "\<forall>t. domain_routing_apply_error e rb \<noteq> OtherError t"
    and "aged b (contents k)" "\<forall>(key, v) \<in> set snaps. v = c key" "\<forall>key. key \<notin> fst ` set snaps \<longrightarrow> b key = c key"
  shows "aged c (contents k')"
proof -
  have "rb = Inr ()" using assms(2) by (cases rb) (auto simp: domain_routing_apply_error_def)
  with assms(1) have "rollback_domain_routing_snapshot S m snaps k = (Inr (), k')" by simp
  from rolled_back [OF this assms(3-5)] show ?thesis .
qed

text \<open>
  A transaction that succeeds applies the plan; one that fails leaves the map as it was, unless the
  rollback failed too.
\<close>

lemma apply_domain_routing_map_result:
  assumes "apply_domain_routing_map_by_id S m ups dels k = (r, k')" "aged a (contents k)"
    and "\<forall>t. r \<noteq> Inl (OtherError t)"
  shows "aged (if r = Inr () then apply_plan (ups, dels) a else a) (contents k')"
proof -
  obtain r1 k1 where o: "sys_open S m k = (r1, k1)" by fastforce
  obtain r2 k2 where t: "take_snapshots S m (map entry_key ups @ dels) [] k1 = (r2, k2)" by fastforce
  obtain r3 k3 where u: "write_updates S m ups k2 = (r3, k3)" by fastforce
  obtain r4 k4 where d: "write_deletes S m dels k3 = (r4, k4)" by fastforce
  note t' = take_snapshots_reads [OF t]
  have c: "contents k2 = contents k" "contents k1 = contents k" using open_law [OF o] t' by auto
  note u' = write_updates_aged [OF u, of "contents k", unfolded c, OF aged_refl]
  show ?thesis
  proof (cases "(\<exists>x. r1 = Inr x) \<and> (\<exists>s. r2 = Inr s)")
    case False
    then have "(r, k') = (r1, k1) \<and> r1 \<noteq> Inr () \<or> (\<exists>e. r = Inl e) \<and> k' = k2"
      using assms(1) o t by (cases r1; cases r2) (auto simp: apply_domain_routing_map_by_id_def)
    then show ?thesis using assms(2) c by auto
  next
    case True
    then obtain s where s: "r1 = Inr ()" "r2 = Inr s" by auto
    with t' c have snaps: "fst ` set s = entry_key ` set ups \<union> set dels" "\<forall>(key, v) \<in> set s. v = contents k key" by auto
    show ?thesis
    proof (cases r3)
      case (Inl e)
      from u' obtain b where b: "aged b (contents k3)" "\<forall>key. key \<notin> entry_key ` set ups \<longrightarrow> b key = contents k key" by blast
      obtain rb kf where rb: "rollback_domain_routing_snapshot S m s k3 = (rb, kf)" by fastforce
      then have r: "r = Inl (domain_routing_apply_error e rb)" "k' = kf"
        using assms(1) o t u s Inl by (auto simp: apply_domain_routing_map_by_id_def)
      have "aged (contents k) (contents kf)" 
        by (rule undone [OF rb _ b(1) snaps(2)]) (use assms(3) r(1) b(2) snaps(1) in auto)
      with r assms(2) show ?thesis by (auto intro: aged_trans)
    next
      case (Inr x)
      with u' have "aged (apply_updates ups (contents k)) (contents k3)" by simp
      note d' = write_deletes_aged [OF d this]
      show ?thesis
      proof (cases r4)
        case (Inl e)
        from d' obtain b where b: "aged b (contents k4)" "\<forall>key. key \<notin> set dels \<longrightarrow> b key = apply_updates ups (contents k) key" by blast
        obtain rb kf where rb: "rollback_domain_routing_snapshot S m s k4 = (rb, kf)" by fastforce
        then have r: "r = Inl (domain_routing_apply_error e rb)" "k' = kf"
          using assms(1) o t u d s Inl Inr by (auto simp: apply_domain_routing_map_by_id_def)
        have "apply_updates ups (contents k) key = contents k key" if "key \<notin> entry_key ` set ups" for key
          using that by (subst apply_updates_lookup [of _ _ undefined]) auto
        then have "aged (contents k) (contents kf)" 
          by (intro undone [OF rb _ b(1) snaps(2)]) (use assms(3) r(1) b(2) snaps(1) in auto)
        with r assms(2) show ?thesis by (auto intro: aged_trans)
      next
        case ok: (Inr y)
        then have "r = Inr ()" "k' = k4"
          using assms(1) o t u d s Inr by (auto simp: apply_domain_routing_map_by_id_def)
        moreover have "aged (apply_plan (ups, dels) a) (apply_plan (ups, dels) (contents k))" by (rule aged_plan [OF assms(2)])
        moreover have "aged (apply_plan (ups, dels) (contents k)) (contents k4)"
          using d' ok by (simp add: apply_plan_def)
        ultimately show ?thesis by (auto intro: aged_trans)
      qed
    qed
  qed
qed

end

section \<open>Kernels that keep the contract\<close>

text \<open>
  A kernel with one map, most recently written entry first, and a schedule of calls that fail.  An
  LRU hash map drops the oldest entries when it is full; a plain hash map refuses a new key.
\<close>

record map_kernel =
  mk_capacity :: nat
  mk_entries :: "(DomainRoutingIpKey \<times> bitmap) list"
  mk_faults :: "bool list"

definition mk_call :: "map_kernel \<Rightarrow> bool \<times> map_kernel" where
  "mk_call k = (case mk_faults k of [] \<Rightarrow> (False, k) | f # fs \<Rightarrow> (f, k\<lparr>mk_faults := fs\<rparr>))"

definition mk_update :: "bool \<Rightarrow> DomainRoutingIpKey \<Rightarrow> bitmap \<Rightarrow> map_kernel \<Rightarrow> (io_error, unit) result \<times> map_kernel" where
  "mk_update lru key v k =
     (case mk_call k of (f, k) \<Rightarrow>
        if f then (Inl (OsError ''ENOMEM''), k)
        else let es = (key, v) # AList.delete key (mk_entries k)
             in if lru then (Inr (), k\<lparr>mk_entries := take (mk_capacity k) es\<rparr>)
                else if length es \<le> mk_capacity k then (Inr (), k\<lparr>mk_entries := es\<rparr>)
                else (Inl (OsError ''E2BIG''), k))"

definition mk_delete :: "DomainRoutingIpKey \<Rightarrow> map_kernel \<Rightarrow> (io_error, unit) result \<times> map_kernel" where
  "mk_delete key k =
     (case mk_call k of (f, k) \<Rightarrow>
        if f then (Inl (OsError ''EBUSY''), k)
        else if map_of (mk_entries k) key = None then (Inl ENOENT, k)
        else (Inr (), k\<lparr>mk_entries := AList.delete key (mk_entries k)\<rparr>))"

definition mk_lookup :: "DomainRoutingIpKey \<Rightarrow> map_kernel \<Rightarrow> (io_error, bitmap) result \<times> map_kernel" where
  "mk_lookup key k =
     (case mk_call k of (f, k) \<Rightarrow>
        if f then (Inl (OsError ''EINTR''), k)
        else case map_of (mk_entries k) key of None \<Rightarrow> (Inl ENOENT, k) | Some v \<Rightarrow> (Inr v, k))"

definition mk_sys :: "bool \<Rightarrow> map_kernel map_sys" where
  "mk_sys lru =
     \<lparr>sys_open = (\<lambda>_ k. case mk_call k of (f, k) \<Rightarrow> (if f then Inl (OsError ''ENOENT'') else Inr (), k)),
      sys_lookup = (\<lambda>_. mk_lookup), sys_update = (\<lambda>_. mk_update lru), sys_delete = (\<lambda>_. mk_delete)\<rparr>"

abbreviation mk_contents :: "map_kernel \<Rightarrow> DomainRoutingIpKey \<rightharpoonup> bitmap" where
  "mk_contents k \<equiv> map_of (mk_entries k)"

text \<open>What an LRU map may have left of a map.\<close>

definition lru_left :: "(DomainRoutingIpKey \<rightharpoonup> bitmap) \<Rightarrow> (DomainRoutingIpKey \<rightharpoonup> bitmap) \<Rightarrow> bool" where
  "lru_left a b \<longleftrightarrow> (\<forall>key v. b key = Some v \<longrightarrow> a key = Some v)"

lemma mk_call_keeps: "mk_call k = (f, k') \<Longrightarrow> mk_entries k' = mk_entries k \<and> mk_capacity k' = mk_capacity k"
  by (auto simp: mk_call_def split: list.splits)

lemma map_of_take: "map_of (take n xs) key = Some v \<Longrightarrow> map_of xs key = Some v"
proof -
  assume "map_of (take n xs) key = Some v"
  then have "map_of (take n xs @ drop n xs) key = Some v" by (simp only: map_of_append map_add_Some_iff) auto
  then show ?thesis by simp
qed

lemma mk_update_ok:
  assumes "mk_update lru key v k = (Inr (), k')"
  shows "lru_left ((mk_contents k)(key \<mapsto> v)) (mk_contents k') \<and> (\<not> lru \<longrightarrow> mk_contents k' = (mk_contents k)(key \<mapsto> v))"
proof -
  let ?es = "(key, v) # AList.delete key (mk_entries k)"
  obtain f k1 where k1: "mk_call k = (f, k1)" by fastforce
  have es: "map_of ?es = (mk_contents k)(key \<mapsto> v)" by (simp add: delete_conv')
  from assms k1 mk_call_keeps [OF k1]
  have "mk_entries k' = (if lru then take (mk_capacity k) ?es else ?es)"
    by (auto simp: mk_update_def Let_def split: if_splits)
  with es show ?thesis
    using map_of_take [of "mk_capacity k" ?es] by (cases lru) (simp_all only: lru_left_def if_True if_False, blast+)
qed

lemma mk_update_err:
  "mk_update lru key v k = (Inl e, k') \<Longrightarrow> mk_contents k' = mk_contents k \<and> (\<exists>t. e = OsError t)"
  using mk_call_keeps [of k] by (auto simp: mk_update_def Let_def split: prod.splits if_splits)

lemma mk_delete_result:
  "mk_delete key k = (r, k') \<Longrightarrow>
     (r = Inr () \<or> r = Inl ENOENT) \<and> mk_contents k' = (mk_contents k)(key := None) \<or>
     (\<exists>t. r = Inl (OsError t)) \<and> mk_contents k' = mk_contents k"
  using mk_call_keeps [of k] by (auto simp: mk_delete_def delete_conv' fun_upd_idem split: prod.splits if_splits)

lemma mk_lookup_result:
  "mk_lookup key k = (r, k') \<Longrightarrow> mk_contents k' = mk_contents k \<and>
     (r = (case mk_contents k key of None \<Rightarrow> Inl ENOENT | Some v \<Rightarrow> Inr v) \<or> (\<exists>t. r = Inl (OsError t)))"
  using mk_call_keeps [of k] by (auto simp: mk_lookup_def split: prod.splits if_splits option.splits)

lemmas mk_sys_simps = mk_sys_def map_sys.simps

interpretation lru: map_calls "mk_sys True" m mk_contents lru_left for m
proof
  fix k k' :: map_kernel and key v r e found
  show "sys_open (mk_sys True) m k = (r, k') \<Longrightarrow> mk_contents k' = mk_contents k \<and> (\<forall>t. r \<noteq> Inl (OtherError t))" for r
    using mk_call_keeps [of k] by (auto simp: mk_sys_simps split: prod.splits if_splits)
  show "sys_lookup (mk_sys True) m key k = (found, k') \<Longrightarrow>
      mk_contents k' = mk_contents k \<and> (\<forall>v. found = Inr v \<longrightarrow> mk_contents k key = Some v) \<and>
      (found = Inl ENOENT \<longrightarrow> mk_contents k key = None) \<and> (\<forall>t. found \<noteq> Inl (OtherError t))" for found
    using mk_lookup_result [of key k found k'] by (auto simp: mk_sys_simps split: option.splits)
  show "sys_update (mk_sys True) m key v k = (Inr (), k') \<Longrightarrow> lru_left ((mk_contents k)(key \<mapsto> v)) (mk_contents k')"
    using mk_update_ok [of True key v k k'] by (simp add: mk_sys_simps)
  show "sys_update (mk_sys True) m key v k = (Inl e, k') \<Longrightarrow>
      lru_left (mk_contents k) (mk_contents k') \<and> e \<noteq> ENOENT \<and> (\<forall>t. e \<noteq> OtherError t)"
    using mk_update_err [of True key v k e k'] by (auto simp: mk_sys_simps lru_left_def)
  show "sys_delete (mk_sys True) m key k = (r, k') \<Longrightarrow> r = Inr () \<or> r = Inl ENOENT \<Longrightarrow>
      lru_left ((mk_contents k)(key := None)) (mk_contents k')" for r
    using mk_delete_result [of key k r k'] by (auto simp: mk_sys_simps lru_left_def)
  show "sys_delete (mk_sys True) m key k = (Inl e, k') \<Longrightarrow> e \<noteq> ENOENT \<Longrightarrow>
      lru_left (mk_contents k) (mk_contents k') \<and> (\<forall>t. e \<noteq> OtherError t)"
    using mk_delete_result [of key k "Inl e" k'] by (auto simp: mk_sys_simps lru_left_def)
qed (auto simp: lru_left_def)

interpretation hash: map_calls "mk_sys False" m mk_contents "(=)" for m
proof
  fix k k' :: map_kernel and key v e
  show "sys_open (mk_sys False) m k = (r, k') \<Longrightarrow> mk_contents k' = mk_contents k \<and> (\<forall>t. r \<noteq> Inl (OtherError t))" for r
    using mk_call_keeps [of k] by (auto simp: mk_sys_simps split: prod.splits if_splits)
  show "sys_lookup (mk_sys False) m key k = (found, k') \<Longrightarrow>
      mk_contents k' = mk_contents k \<and> (\<forall>v. found = Inr v \<longrightarrow> mk_contents k key = Some v) \<and>
      (found = Inl ENOENT \<longrightarrow> mk_contents k key = None) \<and> (\<forall>t. found \<noteq> Inl (OtherError t))" for found
    using mk_lookup_result [of key k found k'] by (auto simp: mk_sys_simps split: option.splits)
  show "sys_update (mk_sys False) m key v k = (Inr (), k') \<Longrightarrow> (mk_contents k)(key \<mapsto> v) = mk_contents k'"
    using mk_update_ok [of False key v k k'] by (simp add: mk_sys_simps)
  show "sys_update (mk_sys False) m key v k = (Inl e, k') \<Longrightarrow>
      mk_contents k = mk_contents k' \<and> e \<noteq> ENOENT \<and> (\<forall>t. e \<noteq> OtherError t)"
    using mk_update_err [of False key v k e k'] by (auto simp: mk_sys_simps)
  show "sys_delete (mk_sys False) m key k = (r, k') \<Longrightarrow> r = Inr () \<or> r = Inl ENOENT \<Longrightarrow>
      (mk_contents k)(key := None) = mk_contents k'" for r
    using mk_delete_result [of key k r k'] by (auto simp: mk_sys_simps)
  show "sys_delete (mk_sys False) m key k = (Inl e, k') \<Longrightarrow> e \<noteq> ENOENT \<Longrightarrow>
      mk_contents k = mk_contents k' \<and> (\<forall>t. e \<noteq> OtherError t)"
    using mk_delete_result [of key k "Inl e" k'] by (auto simp: mk_sys_simps)
qed auto

section \<open>Properties\<close>

text \<open>
  C0. Writing a plan to the kernel map is a transaction: on success the map is the old one with the
  plan applied; when a call fails and the rollback succeeds, the map is as before.  The map is an LRU
  map, so in both cases entries it evicted meanwhile may be missing.
\<close>

theorem map_transaction:
  assumes "map_calls S m contents aged" "apply_domain_routing_map_by_id S m ups dels k = (r, k')"
    and "aged a (contents k)" "\<forall>t. r \<noteq> Inl (OtherError t)"
  shows "aged (if r = Inr () then apply_plan (ups, dels) a else a) (contents k')"
  by (rule map_calls.apply_domain_routing_map_result [OF assms])

abbreviation faulty_kernel :: map_kernel where
  "faulty_kernel \<equiv> \<lparr>mk_capacity = 2, mk_entries = [([7], [0])], mk_faults = [False, False, False, False, True]\<rparr>"

lemma faulty_run:
  "apply_domain_routing_map_by_id (mk_sys True) 5 [\<lparr>entry_key = [7], entry_bitmap = [1]\<rparr>] [[8]] faulty_kernel =
     (Inl (OsError ''EBUSY''), \<lparr>mk_capacity = 2, mk_entries = [([7], [0])], mk_faults = []\<rparr>)"
  by code_simp

theorem map_transaction_witness:
  "lru_left (mk_contents faulty_kernel)
     (mk_contents (snd (apply_domain_routing_map_by_id (mk_sys True) 5 [\<lparr>entry_key = [7], entry_bitmap = [1]\<rparr>] [[8]] faulty_kernel)))"
proof -
  have "map_calls (mk_sys True) 5 mk_contents lru_left" by (rule lru.map_calls_axioms)
  from map_transaction [OF this faulty_run lru.aged_refl] show ?thesis by (simp add: faulty_run del: map_of.simps)
qed

end
