(* ===== verification/Domain_Fence.thy ===== *)
theory Domain_Fence
  imports Domain_Transaction
begin

text \<open>
  Generations of the resident DNS service sharing the kernel map through the generation fence, and
  their interleavings.
\<close>

section \<open>Generations\<close>

record GenerationToken =
  gen_physical :: u64
  gen_logical :: u64

record 's GenerationFence =
  gate_active :: "GenerationToken option"
  fence_state :: 's

record ResidentDomainRoutingMapState =
  ms_map_id :: "u32 option"
  ms_tracker :: DomainRoutingTracker

text \<open>An operation under the gate changes the state of the fence and the context it captures.\<close>

definition with_active ::
    "GenerationToken \<Rightarrow> ('s \<Rightarrow> 'c \<Rightarrow> (io_error, 'r) result \<times> 's \<times> 'c) \<Rightarrow> 's GenerationFence \<Rightarrow> 'c \<Rightarrow>
      (io_error, 'r option) result \<times> 's GenerationFence \<times> 'c" where
  "with_active generation operation F c =
     (if gate_active F \<noteq> Some generation then (Inr None, F, c)
      else case operation (fence_state F) c of (r, s, c) \<Rightarrow> (map_result Some r, F\<lparr>fence_state := s\<rparr>, c))"

definition switch ::
    "GenerationToken \<Rightarrow> ('s \<Rightarrow> 'c \<Rightarrow> (io_error, 'r) result \<times> 's \<times> 'c) \<Rightarrow> 's GenerationFence \<Rightarrow> 'c \<Rightarrow>
      (io_error, 'r) result \<times> 's GenerationFence \<times> 'c" where
  "switch generation operation F c =
     (case operation (fence_state F) c of
        (Inl e, s, c) \<Rightarrow> (Inl e, F\<lparr>fence_state := s\<rparr>, c)
      | (Inr r, s, c) \<Rightarrow> (Inr r, \<lparr>gate_active = Some generation, fence_state = s\<rparr>, c))"

definition gate_clear :: "'s GenerationFence \<Rightarrow> 's GenerationFence" where
  "gate_clear F = F\<lparr>gate_active := None\<rparr>"

definition sync_events :: "DomainRoutingDnsEvent list \<Rightarrow> DomainRoutingTracker \<Rightarrow> DomainRoutingTracker" where
  "sync_events events = fold (\<lambda>event. sync_owner (ev_owner_key event) (into_snapshot event)) events"

definition apply_events_with ::
    "'k apply_map \<Rightarrow> GenerationToken \<Rightarrow> u32 \<Rightarrow> DomainRoutingDnsEvent list \<Rightarrow> DomainRoutingOwner \<Rightarrow>
      ResidentDomainRoutingMapState GenerationFence \<Rightarrow> 'k \<Rightarrow>
      (io_error, unit) result \<times> DomainRoutingOwner \<times> ResidentDomainRoutingMapState GenerationFence \<times> 'k" where
  "apply_events_with apply generation map_id events own F k =
     (case with_active generation
        (\<lambda>state (own, k).
           if ms_map_id state \<noteq> Some map_id then (Inr None, state, own, k)
           else case apply_dns_events_with apply map_id events own k of
                  (Inl e, own, k) \<Rightarrow> (Inl e, state, own, k)
                | (Inr report, own, k) \<Rightarrow>
                    (Inr (Some ()),
                     if rep_owner_snapshot_changed report
                     then state\<lparr>ms_tracker := sync_events events (ms_tracker state)\<rparr> else state, own, k)) F (own, k) of
        (Inl e, F, own, k) \<Rightarrow> (Inl e, own, F, k)
      | (Inr applied, F, own, k) \<Rightarrow>
          if applied = Some (Some ()) then (Inr (), own, F, k)
          else case apply_dns_events_with (\<lambda>_ _ _ k. (Inr (), k)) map_id events own k of
                 (Inl e, own, k) \<Rightarrow> (Inl e, own, F, k)
               | (Inr _, own, k) \<Rightarrow> (Inr (), own, F, k))"

definition activate_with ::
    "'k apply_map \<Rightarrow> GenerationToken \<Rightarrow> u32 \<Rightarrow> DomainRoutingOwner \<Rightarrow>
      ResidentDomainRoutingMapState GenerationFence \<Rightarrow> 'k \<Rightarrow>
      (io_error, unit) result \<times> ResidentDomainRoutingMapState GenerationFence \<times> 'k" where
  "activate_with apply generation map_id own F k =
     switch generation
       (\<lambda>state k.
          let desired = own_tracker own;
              plan = (if ms_map_id state = Some map_id then plan_transition (ms_tracker state) desired
                      else \<lparr>plan_updates = tracker_entries desired, plan_deletes = [],
                            plan_owner_count = owner_count desired, plan_ip_count = ip_count desired\<rparr>)
          in case (if plan_updates plan \<noteq> [] \<or> plan_deletes plan \<noteq> []
                   then apply map_id (plan_updates plan) (plan_deletes plan) k else (Inr (), k)) of
               (Inl e, k) \<Rightarrow> (Inl e, state, k)
             | (Inr _, k) \<Rightarrow> (Inr (), \<lparr>ms_map_id = Some map_id, ms_tracker = desired\<rparr>, k)) F k"

section \<open>Interleavings\<close>

text \<open>
  Generations run side by side: each has its own owner, all share the fence and the kernel.  A batch
  of a generation and an activation are atomic, since both hold the gate (and the generation's own
  mutation lock).  A step whose rollback failed is left out.
\<close>

record 'k runtime =
  rt_owners :: "GenerationToken \<Rightarrow> DomainRoutingOwner"
  rt_fence :: "ResidentDomainRoutingMapState GenerationFence"
  rt_kernel :: 'k

definition fence_default :: "ResidentDomainRoutingMapState GenerationFence" where
  "fence_default = \<lparr>gate_active = None, fence_state = \<lparr>ms_map_id = None, ms_tracker = tracker_default\<rparr>\<rparr>"

definition runtime_start :: "'k \<Rightarrow> 'k runtime" where
  "runtime_start k = \<lparr>rt_owners = (\<lambda>_. owner_default), rt_fence = fence_default, rt_kernel = k\<rparr>"

abbreviation rollback_failed :: "(io_error, 'a) result \<Rightarrow> bool" where
  "rollback_failed r \<equiv> \<exists>t. r = Inl (OtherError t)"

text \<open>An event's bitmap is an array of 32 words.\<close>

definition event_ok :: "DomainRoutingDnsEvent \<Rightarrow> bool" where
  "event_ok e \<longleftrightarrow> bitmap_ok (ev_bitmap e)"

inductive rt_step :: "'k map_sys \<Rightarrow> u32 \<Rightarrow> 'k runtime \<Rightarrow> 'k runtime \<Rightarrow> bool" for S m where
  events: "apply_events_with (apply_domain_routing_map_by_id S) g m events (rt_owners w g) (rt_fence w) (rt_kernel w) = (r, own, F, k) \<Longrightarrow>
    list_all event_ok events \<Longrightarrow> \<not> rollback_failed r \<Longrightarrow> rt_step S m w \<lparr>rt_owners = (rt_owners w)(g := own), rt_fence = F, rt_kernel = k\<rparr>"
| activate: "activate_with (apply_domain_routing_map_by_id S) g m (rt_owners w g) (rt_fence w) (rt_kernel w) = (r, F, k) \<Longrightarrow>
    \<not> rollback_failed r \<Longrightarrow> rt_step S m w \<lparr>rt_owners = rt_owners w, rt_fence = F, rt_kernel = k\<rparr>"
| clear: "rt_step S m w (w\<lparr>rt_fence := gate_clear (rt_fence w)\<rparr>)"

inductive_cases rt_stepE: "rt_step S m w w'"

definition rt_reaches :: "'k map_sys \<Rightarrow> u32 \<Rightarrow> 'k runtime \<Rightarrow> 'k runtime \<Rightarrow> bool" where
  "rt_reaches S m = (rt_step S m)\<^sup>*\<^sup>*"

definition owner_ok :: "u32 \<Rightarrow> DomainRoutingOwner \<Rightarrow> bool" where
  "owner_ok m own \<longleftrightarrow>
     tracker_ok (own_tracker own) \<and> snapshots_ok (tr_owners (own_tracker own)) \<and>
     (own_map_id own = Some m \<or> own_map_id own = None \<and> tr_owners (own_tracker own) = fmempty)"

definition rt_ok ::
    "u32 \<Rightarrow> ('k \<Rightarrow> DomainRoutingIpKey \<rightharpoonup> bitmap) \<Rightarrow> ((DomainRoutingIpKey \<rightharpoonup> bitmap) \<Rightarrow> (DomainRoutingIpKey \<rightharpoonup> bitmap) \<Rightarrow> bool) \<Rightarrow>
      'k runtime \<Rightarrow> bool" where
  "rt_ok m contents aged w \<longleftrightarrow>
     (let st = fence_state (rt_fence w)
      in (\<forall>g. owner_ok m (rt_owners w g)) \<and> tracker_ok (ms_tracker st) \<and>
         (ms_map_id st = Some m \<or> ms_map_id st = None \<and> tr_owners (ms_tracker st) = fmempty) \<and>
         aged (merged_of (tr_owners (ms_tracker st))) (contents (rt_kernel w)) \<and>
         (\<forall>g. gate_active (rt_fence w) = Some g \<longrightarrow>
            ms_map_id st = Some m \<and> tr_owners (ms_tracker st) = tr_owners (own_tracker (rt_owners w g))))"

lemma snapshots_ok_event: "snapshots_ok owners \<Longrightarrow> event_ok e \<Longrightarrow> snapshots_ok (event_owner e owners)"
  by (auto simp: event_owner_def set_owner_def snapshots_ok_def event_ok_def into_snapshot_def split: if_splits)

lemma snapshots_ok_fold:
  "snapshots_ok owners \<Longrightarrow> list_all event_ok events \<Longrightarrow> snapshots_ok (fold event_owner events owners)"
  by (induction events arbitrary: owners) (simp_all add: snapshots_ok_event)

lemma sync_events_ok:
  assumes "tracker_ok T" "\<forall>e \<in> set events. ev_owner_key e \<noteq> []"
  shows "tracker_ok (sync_events events T) \<and> tr_owners (sync_events events T) = fold event_owner events (tr_owners T)"
  using assms
proof (induction events arbitrary: T)
  case (Cons e events)
  let ?T = "sync_owner (ev_owner_key e) (into_snapshot e) T"
  have "?T = apply_owner_snapshot_ref (ev_owner_key e) (into_snapshot e) T"
    using Cons.prems by (simp add: sync_owner_def apply_owner_update_ref_def Let_def)
  with apply_owner_snapshot_ref_ok [OF Cons.prems(1)]
  have "tracker_ok ?T" "tr_owners ?T = event_owner e (tr_owners T)" by (simp_all add: event_owner_def)
  with Cons.IH [of ?T] Cons.prems(2) show ?case by (simp add: sync_events_def)
qed (simp add: sync_events_def)

lemma collect_replacements_named:
  "collect_replacements events R0 = Inr R \<Longrightarrow> \<forall>e \<in> set events. ev_owner_key e \<noteq> []"
  by (induction events R0 rule: collect_replacements.induct) (auto split: if_splits)

lemma apply_dns_events_named:
  "apply_dns_events_with apply m events own k = (Inr rep, own', k') \<Longrightarrow> \<forall>e \<in> set events. ev_owner_key e \<noteq> []"
  by (cases "collect_replacements events fmempty")
    (auto simp: apply_dns_events_with_def dest: collect_replacements_named)

lemma apply_events_with_cases:
  assumes "apply_events_with apply g m events own F k = (r, own', F', k')"
  obtains (live) "gate_active F = Some g" "ms_map_id (fence_state F) = Some m"
      "\<exists>rep. apply_dns_events_with apply m events own k = (rep, own', k') \<and>
         (case rep of Inl e \<Rightarrow> r = Inl e \<and> F' = F
          | Inr rep \<Rightarrow> r = Inr () \<and> F' = F\<lparr>fence_state := (if rep_owner_snapshot_changed rep
              then (fence_state F)\<lparr>ms_tracker := sync_events events (ms_tracker (fence_state F))\<rparr> else fence_state F)\<rparr>)"
  | (idle) "gate_active F \<noteq> Some g \<or> ms_map_id (fence_state F) \<noteq> Some m" "F' = F"
      "\<exists>rep. apply_dns_events_with (\<lambda>_ _ _ k. (Inr (), k)) m events own k = (rep, own', k') \<and> map_result (\<lambda>_. ()) rep = r"
proof (cases "gate_active F = Some g \<and> ms_map_id (fence_state F) = Some m")
  case True
  obtain rep own1 k1 where a: "apply_dns_events_with apply m events own k = (rep, own1, k1)" by (metis prod_cases3)
  from True a assms show thesis
    by (intro live) (auto simp: apply_events_with_def with_active_def split: sum.splits)
next
  case False
  obtain rep own1 k1 where a: "apply_dns_events_with (\<lambda>_ _ _ k. (Inr (), k)) m events own k = (rep, own1, k1)" by (metis prod_cases3)
  have F: "F\<lparr>fence_state := fence_state F\<rparr> = F" by simp
  from False a assms show thesis
    by (intro idle) (auto simp: apply_events_with_def with_active_def F split: sum.splits if_splits)
qed

lemma apply_dns_events_idle:
  assumes "apply_dns_events_with (\<lambda>_ _ _ k. (Inr (), k)) m events own k = (rep, own', k')" "owner_ok m own"
    and "list_all event_ok events"
  shows "owner_ok m own' \<and> k' = k"
proof (cases rep)
  case (Inl e)
  with apply_dns_events_error [of "\<lambda>_ _ _ k. (Inr (), k)"] assms show ?thesis by fastforce
next
  case (Inr rep')
  with assms(1) have run: "apply_dns_events_with (\<lambda>_ _ _ k. (Inr (), k)) m events own k = (Inr rep', own', k')" by simp
  from assms(2) have "tracker_ok (own_tracker own)" by (simp add: owner_ok_def)
  then show ?thesis by (rule apply_dns_events_success [OF _ run])
    (use assms(2,3) in \<open>auto simp: owner_ok_def snapshots_ok_fold\<close>)
qed

text \<open>The fence's tracker follows the live generation's owners.\<close>

lemma fence_follows:
  assumes "owner_ok m own" "apply_dns_events_with apply m events own k = (rep, own', k')"
    and "tracker_ok T" "tr_owners T = tr_owners (own_tracker own)"
  shows "case rep of Inl e \<Rightarrow> tr_owners (own_tracker own') = tr_owners T
         | Inr rep \<Rightarrow>
             let T' = (if rep_owner_snapshot_changed rep then sync_events events T else T)
             in tracker_ok T' \<and> tr_owners T' = tr_owners (own_tracker own')"
proof (cases rep)
  case (Inl e)
  with apply_dns_events_error assms show ?thesis by fastforce
next
  case (Inr rep')
  note run = assms(2) [unfolded Inr]
  have "tracker_ok (own_tracker own)" using assms(1) by (simp add: owner_ok_def)
  then have "tr_owners (own_tracker own') = fold event_owner events (tr_owners (own_tracker own))"
    "\<not> rep_owner_snapshot_changed rep' \<Longrightarrow> tr_owners (own_tracker own') = tr_owners (own_tracker own)"
    by (rule apply_dns_events_success [OF _ run]; blast)+
  then show ?thesis using sync_events_ok [OF assms(3) apply_dns_events_named [OF run]] assms(3,4) Inr
    by (simp add: Let_def)
qed

context map_calls
begin

lemma apply_dns_events_kernel:
  assumes "apply_dns_events_with (apply_domain_routing_map_by_id S) m events own k = (rep, own', k')"
    and "owner_ok m own" "\<not> rollback_failed rep" "list_all event_ok events" "aged (merged_of (tr_owners (own_tracker own))) (contents k)"
  shows "owner_ok m own' \<and> aged (merged_of (tr_owners (own_tracker own'))) (contents k')"
proof (cases rep)
  case (Inl e)
  from apply_dns_events_error [OF assms(1) [unfolded Inl]]
  consider "own' = own" "k' = k" | ups dels where "own' = own" "apply_domain_routing_map_by_id S m ups dels k = (Inl e, k')" by blast
  then show ?thesis
  proof cases
    case 2
    with apply_domain_routing_map_result [OF 2(2) assms(5)] assms(2,3) Inl show ?thesis by auto
  qed (use assms in simp)
next
  case (Inr rep')
  let ?M = "\<lambda>own. merged_of (tr_owners (own_tracker own))"
  have ok: "tracker_ok (own_tracker own)" using assms(2) by (simp add: owner_ok_def)
  obtain ups dels where s: "own_map_id own' = Some m" "tracker_ok (own_tracker own')"
    "tr_owners (own_tracker own') = fold event_owner events (tr_owners (own_tracker own))"
    "ups = [] \<and> dels = [] \<and> k' = k \<or> apply_domain_routing_map_by_id S m ups dels k = (Inr (), k')"
    "own_map_id own = Some m \<Longrightarrow> apply_plan (ups, dels) (?M own) = ?M own'"
    "own_map_id own \<noteq> Some m \<Longrightarrow> apply_plan (ups, dels) Map.empty = Map.empty ++ ?M own'"
    using apply_dns_events_success [OF ok assms(1) [unfolded Inr], where c = Map.empty] by metis
  have "apply_plan (ups, dels) (?M own) = ?M own'"
    using s(5,6) assms(2) by (auto simp: owner_ok_def)
  moreover have "aged (apply_plan (ups, dels) (?M own)) (contents k')"
    using s(4) apply_domain_routing_map_result [OF _ assms(5), of ups dels "Inr ()" k'] assms(5)
    by (auto simp: apply_plan_def apply_updates_def apply_deletes_def)
  ultimately show ?thesis using s assms(2,4) by (simp add: owner_ok_def snapshots_ok_fold)
qed

lemma rt_ok_events:
  assumes "rt_ok m contents aged w"
    and run: "apply_events_with (apply_domain_routing_map_by_id S) g m events (rt_owners w g) (rt_fence w) (rt_kernel w) = (r, own, F, k)"
    and "list_all event_ok events" "\<not> rollback_failed r"
  shows "rt_ok m contents aged \<lparr>rt_owners = (rt_owners w)(g := own), rt_fence = F, rt_kernel = k\<rparr>"
proof -
  let ?st = "fence_state (rt_fence w)"
  have own: "owner_ok m (rt_owners w g)" using assms(1) by (simp add: rt_ok_def Let_def)
  from run show ?thesis
  proof (cases rule: apply_events_with_cases)
    case live
    have old: "tr_owners (ms_tracker ?st) = tr_owners (own_tracker (rt_owners w g))" "tracker_ok (ms_tracker ?st)"
      "aged (merged_of (tr_owners (own_tracker (rt_owners w g)))) (contents (rt_kernel w))"
      using assms(1) live by (auto simp: rt_ok_def Let_def)
    from live(3) obtain rep where rep: "apply_dns_events_with (apply_domain_routing_map_by_id S) m events (rt_owners w g) (rt_kernel w) = (rep, own, k)"
      and res: "case rep of Inl e \<Rightarrow> r = Inl e \<and> F = rt_fence w
          | Inr rep \<Rightarrow> r = Inr () \<and> F = (rt_fence w)\<lparr>fence_state := (if rep_owner_snapshot_changed rep
              then ?st\<lparr>ms_tracker := sync_events events (ms_tracker ?st)\<rparr> else ?st)\<rparr>" by blast
    have "\<not> rollback_failed rep" using res assms(4) by (auto split: sum.splits)
    note new = apply_dns_events_kernel [OF rep own this assms(3) old(3)]
    have fence: "gate_active F = gate_active (rt_fence w)" "ms_map_id (fence_state F) = Some m"
      "tracker_ok (ms_tracker (fence_state F))" "tr_owners (ms_tracker (fence_state F)) = tr_owners (own_tracker own)"
      using fence_follows [OF own rep old(2,1)] res old live(2) by (auto simp: Let_def split: sum.splits)
    show ?thesis using assms(1) new fence live(1) by (auto simp: rt_ok_def Let_def)
  next
    case idle
    from idle(3) obtain rep where "apply_dns_events_with (\<lambda>_ _ _ k. (Inr (), k)) m events (rt_owners w g) (rt_kernel w) = (rep, own, k)"
      by blast
    from apply_dns_events_idle [OF this own assms(3)] have "owner_ok m own" "k = rt_kernel w" by simp_all
    with assms(1) idle(1,2) show ?thesis by (auto simp: rt_ok_def Let_def)
  qed
qed

lemma rt_ok_activate:
  assumes "rt_ok m contents aged w"
    and run: "activate_with (apply_domain_routing_map_by_id S) g m (rt_owners w g) (rt_fence w) (rt_kernel w) = (r, F, k)"
    and "\<not> rollback_failed r"
  shows "rt_ok m contents aged \<lparr>rt_owners = rt_owners w, rt_fence = F, rt_kernel = k\<rparr>"
proof -
  let ?st = "fence_state (rt_fence w)" and ?T = "own_tracker (rt_owners w g)"
  define plan where "plan = (if ms_map_id ?st = Some m then plan_transition (ms_tracker ?st) ?T
      else \<lparr>plan_updates = tracker_entries ?T, plan_deletes = [], plan_owner_count = owner_count ?T, plan_ip_count = ip_count ?T\<rparr>)"
  define p where "p = (plan_updates plan, plan_deletes plan)"
  have ok: "tracker_ok ?T" "tracker_ok (ms_tracker ?st)" "aged (merged_of (tr_owners (ms_tracker ?st))) (contents (rt_kernel w))"
    "ms_map_id ?st = Some m \<or> ms_map_id ?st = None \<and> tr_owners (ms_tracker ?st) = fmempty"
    using assms(1) by (auto simp: rt_ok_def owner_ok_def Let_def)
  have plan: "apply_plan p (merged_of (tr_owners (ms_tracker ?st))) = merged_of (tr_owners ?T)"
    using ok(4) plan_transition_apply [OF ok(2,1)] tracker_entries_apply [OF ok(1), of Map.empty]
    by (auto simp: p_def plan_def apply_plan_def apply_deletes_def)
  obtain r1 k1 where call: "(if p \<noteq> ([], []) then apply_domain_routing_map_by_id S m (fst p) (snd p) (rt_kernel w)
      else (Inr (), rt_kernel w)) = (r1, k1)" by fastforce
  have res: "(r, F, k) = (case r1 of Inl e \<Rightarrow> (Inl e, rt_fence w, k1)
      | Inr _ \<Rightarrow> (Inr (), \<lparr>gate_active = Some g, fence_state = \<lparr>ms_map_id = Some m, ms_tracker = ?T\<rparr>\<rparr>, k1))"
    using run call unfolding activate_with_def switch_def Let_def plan_def [symmetric]
    by (auto simp: p_def split: sum.splits if_splits)
  have "\<not> rollback_failed r1" using res assms(3) by (auto split: sum.splits)
  then have aged: "aged (if r1 = Inr () then apply_plan p (merged_of (tr_owners (ms_tracker ?st)))
      else merged_of (tr_owners (ms_tracker ?st))) (contents k1)"
    using call apply_domain_routing_map_result [OF _ ok(3), of "fst p" "snd p" r1 k1] ok(3)
    by (auto simp: apply_plan_def apply_updates_def apply_deletes_def split: if_splits)
  show ?thesis using res aged plan assms(1) ok(1) by (cases r1) (auto simp: rt_ok_def Let_def)
qed

lemma rt_ok_step: "rt_step S m w w' \<Longrightarrow> rt_ok m contents aged w \<Longrightarrow> rt_ok m contents aged w'"
proof (induction rule: rt_step.induct)
  case (clear w)
  then show ?case by (auto simp: rt_ok_def Let_def gate_clear_def)
qed (rule rt_ok_events rt_ok_activate; assumption)+

lemma rt_ok_start: "contents k = Map.empty \<Longrightarrow> rt_ok m contents aged (runtime_start k)"
  by (simp add: rt_ok_def runtime_start_def fence_default_def owner_default_def owner_ok_def tracker_default_ok Let_def,
      simp add: tracker_default_def aged_refl snapshots_ok_def)

lemma rt_ok_reaches:
  assumes "contents k = Map.empty" "rt_reaches S m (runtime_start k) w"
  shows "rt_ok m contents aged w"
  using assms(2) unfolding rt_reaches_def
  by (induction rule: rtranclp_induct) (auto intro: rt_ok_start rt_ok_step assms(1))

end

section \<open>Properties\<close>

text \<open>
  C0. Generations run side by side with their own owners, take DNS events at any time and are
  activated in any order; calls to the kernel may fail.  In every reachable state the kernel map is
  the one the live generation's owners ask for, up to entries the LRU map evicted.
\<close>

theorem live_generation_in_map:
  assumes "map_calls S m contents aged" "contents k = Map.empty" "rt_reaches S m (runtime_start k) w"
    and "gate_active (rt_fence w) = Some g"
  shows "aged (merged_of (tr_owners (own_tracker (rt_owners w g)))) (contents (rt_kernel w))"
  using map_calls.rt_ok_reaches [OF assms(1-3)] assms(4) by (auto simp: rt_ok_def Let_def)

abbreviation one_event :: DomainRoutingDnsEvent where
  "one_event \<equiv> event_from_keys ''a.com.|1|1'' [4] [[0, 0, 0, 9]]"

abbreviation generation_one :: GenerationToken where
  "generation_one \<equiv> \<lparr>gen_physical = 1, gen_logical = 1\<rparr>"

abbreviation empty_kernel :: map_kernel where
  "empty_kernel \<equiv> \<lparr>mk_capacity = 2, mk_entries = [], mk_faults = []\<rparr>"

abbreviation live_runtime :: "map_kernel runtime" where
  "live_runtime \<equiv>
     \<lparr>rt_owners = (\<lambda>_. owner_default),
      rt_fence = \<lparr>gate_active = Some generation_one, fence_state = \<lparr>ms_map_id = Some 5, ms_tracker = tracker_default\<rparr>\<rparr>,
      rt_kernel = empty_kernel\<rparr>"

lemma first_activation:
  "activate_with (apply_domain_routing_map_by_id (mk_sys True)) generation_one 5 owner_default fence_default empty_kernel =
     (Inr (), rt_fence live_runtime, empty_kernel)"
  by code_simp

theorem live_generation_in_map_witness:
  "\<exists>w. rt_reaches (mk_sys True) 5 (runtime_start empty_kernel) w \<and> gate_active (rt_fence w) = Some generation_one \<and>
     mk_contents (rt_kernel w) [0, 0, 0, 9] = Some (4 # replicate 31 0) \<and>
     lru_left (merged_of (tr_owners (own_tracker (rt_owners w generation_one)))) (mk_contents (rt_kernel w))"
proof -
  let ?run = "apply_events_with (apply_domain_routing_map_by_id (mk_sys True)) generation_one 5 [one_event]
      owner_default (rt_fence live_runtime) empty_kernel"
  obtain r own F k where run: "?run = (r, own, F, k)" by (metis prod_cases4)
  define w where "w = \<lparr>rt_owners = (rt_owners live_runtime)(generation_one := own), rt_fence = F, rt_kernel = k\<rparr>"
  have "fst ?run = Inr ()" "gate_active (fst (snd (snd ?run))) = Some generation_one"
    "mk_contents (snd (snd (snd ?run))) [0, 0, 0, 9] = Some (4 # replicate 31 0)" by code_simp+
  then have res: "r = Inr ()" "gate_active F = Some generation_one" "mk_contents k [0, 0, 0, 9] = Some (4 # replicate 31 0)"
    by (simp_all only: run fst_conv snd_conv)
  have "rt_step (mk_sys True) 5 (runtime_start empty_kernel) live_runtime"
    using rt_step.activate [of "mk_sys True" generation_one 5 "runtime_start empty_kernel"] first_activation
    by (simp add: runtime_start_def)
  moreover have "rt_step (mk_sys True) 5 live_runtime w"
    unfolding w_def using rt_step.events [of "mk_sys True" generation_one 5 "[one_event]" live_runtime r own F k] run res
    by (simp add: event_ok_def bitmap_ok_def event_from_keys_def bitmap_of_words_def)
  ultimately have reach: "rt_reaches (mk_sys True) 5 (runtime_start empty_kernel) w"
    unfolding rt_reaches_def by (meson rtranclp.rtrancl_refl rtranclp.rtrancl_into_rtrancl)
  have "lru_left (merged_of (tr_owners (own_tracker (rt_owners w generation_one)))) (mk_contents (rt_kernel w))"
    by (rule live_generation_in_map [OF lru.map_calls_axioms _ reach]) (simp_all add: w_def res)
  with reach res show ?thesis by (intro exI [of _ w]) (simp add: w_def)
qed

end
