(* ===== verification/Dns_Cache.thy ===== *)
theory Dns_Cache
  imports Domain_Tracker "HOL-Library.Product_Lexorder"
begin

text \<open>
  The DNS answer cache (\<^verbatim>\<open>dae-dns/src/cache.rs\<close>, \<^verbatim>\<open>cache/entries.rs\<close>, \<^verbatim>\<open>cache/removal.rs\<close> and
  \<^verbatim>\<open>cache/transactions.rs\<close>): entries in a small vector or in a hash map with an index by deadline.
\<close>

section \<open>Keys and entries\<close>

datatype DnsCacheKey = DnsCacheKey (key_qname: string) (key_qtype: u16) (key_qclass: u16)

instantiation DnsCacheKey :: linorder
begin

definition less_eq_DnsCacheKey :: "DnsCacheKey \<Rightarrow> DnsCacheKey \<Rightarrow> bool" where
  "a \<le> b \<longleftrightarrow> (key_qname a, key_qtype a, key_qclass a) \<le> (key_qname b, key_qtype b, key_qclass b)"

definition less_DnsCacheKey :: "DnsCacheKey \<Rightarrow> DnsCacheKey \<Rightarrow> bool" where
  "a < b \<longleftrightarrow> (key_qname a, key_qtype a, key_qclass a) < (key_qname b, key_qtype b, key_qclass b)"

instance
proof
  fix a b c :: DnsCacheKey
  show "(a < b) = (a \<le> b \<and> \<not> b \<le> a)" unfolding less_eq_DnsCacheKey_def less_DnsCacheKey_def by auto
  show "a \<le> a" unfolding less_eq_DnsCacheKey_def by auto
  show "a \<le> c" if "a \<le> b" "b \<le> c" using that unfolding less_eq_DnsCacheKey_def by (rule order_trans)
  show "a = b" if "a \<le> b" "b \<le> a" using antisym [OF that [unfolded less_eq_DnsCacheKey_def]]
    by (cases a; cases b) simp
  show "a \<le> b \<or> b \<le> a" unfolding less_eq_DnsCacheKey_def by (rule linear)
qed

end

record DnsCacheEntry =
  route_owner_key :: string
  domain_bitmap :: "u32 list"
  entry_ips :: "IpAddr list"
  has_any_ip :: bool
  deadline_unix :: int
  original_deadline_unix :: int
  packed_response :: bytes

definition DnsCacheEntry_new :: "int \<Rightarrow> int \<Rightarrow> DnsCacheEntry" where
  "DnsCacheEntry_new deadline original =
     \<lparr>route_owner_key = [], domain_bitmap = [], entry_ips = [], has_any_ip = False,
      deadline_unix = deadline, original_deadline_unix = original, packed_response = []\<rparr>"

definition cache_expires_at :: "DnsCacheEntry \<Rightarrow> int" where
  "cache_expires_at e = max (deadline_unix e) (original_deadline_unix e)"

definition lookup_deadline :: "bool \<Rightarrow> DnsCacheEntry \<Rightarrow> int" where
  "lookup_deadline ignore_fixed_ttl e = (if ignore_fixed_ttl then original_deadline_unix e else deadline_unix e)"

section \<open>The two backends\<close>

type_synonym cache_item = "DnsCacheKey \<times> DnsCacheEntry"
type_synonym deadline_index = "(int \<times> DnsCacheKey) fset"

text \<open>A \<^verbatim>\<open>BTreeSet\<close> is a finite set visited in ascending order.\<close>

datatype DnsCacheEntries =
    Small "cache_item list"
  | Map "(DnsCacheKey, DnsCacheEntry) fmap" deadline_index

definition DNS_CACHE_SMALL_BACKEND_MAX_ENTRIES :: nat where
  "DNS_CACHE_SMALL_BACKEND_MAX_ENTRIES = 16"

definition btree_first :: "'a :: linorder fset \<Rightarrow> 'a option" where
  "btree_first S = (case sorted_list_of_fset S of [] \<Rightarrow> None | x # _ \<Rightarrow> Some x)"

definition swap_remove :: "nat \<Rightarrow> 'a list \<Rightarrow> 'a list" where
  "swap_remove i xs = (butlast xs)[i := last xs]"

fun position :: "('a \<Rightarrow> bool) \<Rightarrow> 'a list \<Rightarrow> nat option" where
  "position P [] = None"
| "position P (x # xs) = (if P x then Some 0 else map_option Suc (position P xs))"

fun min_by_key :: "('a \<Rightarrow> int) \<Rightarrow> 'a list \<Rightarrow> 'a option" where
  "min_by_key f [] = None"
| "min_by_key f (x # xs) = Some (fold (\<lambda>y best. if f y < f best then y else best) xs x)"

definition entries_new :: "nat \<Rightarrow> DnsCacheEntries" where
  "entries_new capacity =
     (if capacity \<le> DNS_CACHE_SMALL_BACKEND_MAX_ENTRIES then Small [] else Map fmempty {||})"

fun entries_len :: "DnsCacheEntries \<Rightarrow> nat" where
  "entries_len (Small es) = length es"
| "entries_len (Map es ds) = hash_len es"

fun entries_get :: "DnsCacheKey \<Rightarrow> DnsCacheEntries \<Rightarrow> DnsCacheEntry option" where
  "entries_get key (Small es) = map_option snd (find (\<lambda>item. fst item = key) es)"
| "entries_get key (Map es ds) = fmlookup es key"

fun entries_contains_key :: "DnsCacheKey \<Rightarrow> DnsCacheEntries \<Rightarrow> bool" where
  "entries_contains_key key (Small es) = list_ex (\<lambda>item. fst item = key) es"
| "entries_contains_key key (Map es ds) = (key |\<in>| fmdom es)"

fun expired_shared :: "int \<Rightarrow> nat \<Rightarrow> DnsCacheEntries \<Rightarrow> cache_item list" where
  "expired_shared now limit (Small es) = take limit (filter (\<lambda>item. cache_expires_at (snd item) \<le> now) es)"
| "expired_shared now limit (Map es ds) =
     List.map_filter
       (\<lambda>(deadline, key). case fmlookup es key of
          None \<Rightarrow> None
        | Some entry \<Rightarrow> if cache_expires_at entry = deadline then Some (key, entry) else None)
       (take limit (takeWhile (\<lambda>(deadline, _). deadline \<le> now) (sorted_list_of_fset ds)))"

fun entries_insert :: "DnsCacheKey \<Rightarrow> DnsCacheEntry \<Rightarrow> DnsCacheEntries \<Rightarrow> DnsCacheEntries" where
  "entries_insert key entry (Small es) =
     Small (case position (\<lambda>item. fst item = key) es of
              Some i \<Rightarrow> es[i := (fst (es ! i), entry)]
            | None \<Rightarrow> es @ [(key, entry)])"
| "entries_insert key entry (Map es ds) =
     (let ds = (case fmlookup es key of None \<Rightarrow> ds | Some old \<Rightarrow> ds |-| {|(cache_expires_at old, key)|})
      in Map (fmupd key entry es) (finsert (cache_expires_at entry, key) ds))"

fun entries_remove :: "DnsCacheKey \<Rightarrow> DnsCacheEntries \<Rightarrow> DnsCacheEntry option \<times> DnsCacheEntries" where
  "entries_remove key (Small es) =
     (case position (\<lambda>item. fst item = key) es of
        None \<Rightarrow> (None, Small es)
      | Some i \<Rightarrow> (Some (snd (es ! i)), Small (swap_remove i es)))"
| "entries_remove key (Map es ds) =
     (case fmlookup es key of
        None \<Rightarrow> (None, Map es ds)
      | Some entry \<Rightarrow> (Some entry, Map (fmdrop key es) (ds |-| {|(cache_expires_at entry, key)|})))"

lemma length_swap_remove [simp]: "length (swap_remove i xs) = length xs - 1"
  by (simp add: swap_remove_def)

text \<open>The loop over the vector, with the number of entries it may remove.\<close>

function remove_expired_small ::
    "int \<Rightarrow> nat option \<Rightarrow> nat \<Rightarrow> cache_item list \<Rightarrow> cache_item list \<Rightarrow> cache_item list \<times> cache_item list" where
  "remove_expired_small now limit index es removed =
     (if index < length es \<and> (case limit of None \<Rightarrow> True | Some n \<Rightarrow> length removed < n)
      then if cache_expires_at (snd (es ! index)) \<le> now
           then remove_expired_small now limit index (swap_remove index es) (removed @ [es ! index])
           else remove_expired_small now limit (index + 1) es removed
      else (removed, es))"
  by pat_completeness auto

termination
  by (relation "measure (\<lambda>(now, limit, index, es, removed). length es - index)") auto

lemma set_sorted_list_of_fset [simp]: "set (sorted_list_of_fset S) = fset S"
  by (simp add: sorted_list_of_fset.rep_eq)

lemma btree_first_in: "btree_first S = Some x \<Longrightarrow> x |\<in>| S"
  using set_sorted_list_of_fset [of S] by (cases "sorted_list_of_fset S") (auto simp: btree_first_def)

lemma fcard_remove_less: "x |\<in>| S \<Longrightarrow> fcard (S |-| {|x|}) < fcard S"
  by (simp only: fcard.rep_eq minus_fset.rep_eq finsert.rep_eq bot_fset.rep_eq) (rule card_Diff1_less [OF finite_fset])

text \<open>The loop over the index: it takes at most \<open>limit\<close> records, stale ones included.\<close>

function remove_expired_map ::
    "int \<Rightarrow> nat option \<Rightarrow> nat \<Rightarrow> (DnsCacheKey, DnsCacheEntry) fmap \<Rightarrow> deadline_index \<Rightarrow> cache_item list \<Rightarrow>
      cache_item list \<times> (DnsCacheKey, DnsCacheEntry) fmap \<times> deadline_index" where
  "remove_expired_map now limit examined es ds removed =
     (if (case limit of None \<Rightarrow> True | Some n \<Rightarrow> examined < n)
      then case btree_first ds of
             None \<Rightarrow> (removed, es, ds)
           | Some (deadline, key) \<Rightarrow>
               if deadline \<le> now
               then let ds' = ds |-| {|(deadline, key)|}
                    in case fmlookup es key of
                         None \<Rightarrow> remove_expired_map now limit (examined + 1) es ds' removed
                       | Some entry \<Rightarrow>
                           if cache_expires_at entry = deadline
                           then remove_expired_map now limit (examined + 1) (fmdrop key es) ds' (removed @ [(key, entry)])
                           else remove_expired_map now limit (examined + 1) es ds' removed
               else (removed, es, ds)
      else (removed, es, ds))"
  by pat_completeness auto

termination
  by (relation "measure (\<lambda>(now, limit, examined, es, ds, removed). fcard ds)")
    (auto dest!: btree_first_in intro!: fcard_remove_less)

declare remove_expired_small.simps [simp del] remove_expired_map.simps [simp del]

fun remove_expired :: "int \<Rightarrow> DnsCacheEntries \<Rightarrow> nat \<times> DnsCacheEntries" where
  "remove_expired now (Small es) =
     (case remove_expired_small now None 0 es [] of (_, kept) \<Rightarrow> (length es - length kept, Small kept))"
| "remove_expired now (Map es ds) =
     (case remove_expired_map now None 0 es ds [] of (_, kept, ds) \<Rightarrow> (hash_len es - hash_len kept, Map kept ds))"

fun remove_expired_entries :: "int \<Rightarrow> nat \<Rightarrow> DnsCacheEntries \<Rightarrow> cache_item list \<times> DnsCacheEntries" where
  "remove_expired_entries now limit (Small es) =
     (case remove_expired_small now (Some limit) 0 es [] of (removed, kept) \<Rightarrow> (removed, Small kept))"
| "remove_expired_entries now limit (Map es ds) =
     (case remove_expired_map now (Some limit) 0 es ds [] of (removed, kept, ds) \<Rightarrow> (removed, Map kept ds))"

fun entries_next_expiry_unix :: "DnsCacheEntries \<Rightarrow> int option" where
  "entries_next_expiry_unix (Small es) = min_by_key id (map (\<lambda>item. cache_expires_at (snd item)) es)"
| "entries_next_expiry_unix (Map es ds) = map_option fst (btree_first ds)"

fun live_count :: "int \<Rightarrow> DnsCacheEntries \<Rightarrow> nat" where
  "live_count now (Small es) = length (filter (\<lambda>item. cache_expires_at (snd item) > now) es)"
| "live_count now (Map es ds) = length (filter (\<lambda>item. cache_expires_at (snd item) > now) (hash_entries es))"

text \<open>The oldest key; an index that disagrees with the entries is rebuilt first.\<close>

definition deadlines_of :: "(DnsCacheKey, DnsCacheEntry) fmap \<Rightarrow> deadline_index" where
  "deadlines_of es = fset_of_list (map (\<lambda>(key, entry). (cache_expires_at entry, key)) (hash_entries es))"

fun oldest_key :: "DnsCacheEntries \<Rightarrow> DnsCacheKey option \<times> DnsCacheEntries" where
  "oldest_key (Small es) = (map_option fst (min_by_key (\<lambda>item. cache_expires_at (snd item)) es), Small es)"
| "oldest_key (Map es ds) =
     (let stale = (case btree_first ds of
            None \<Rightarrow> False
          | Some (deadline, key) \<Rightarrow>
              (case fmlookup es key of None \<Rightarrow> True | Some entry \<Rightarrow> cache_expires_at entry \<noteq> deadline));
          ds = (if fcard ds \<noteq> hash_len es \<or> stale then deadlines_of es else ds)
      in (map_option snd (btree_first ds), Map es ds))"

fun entries_items :: "DnsCacheEntries \<Rightarrow> cache_item list" where
  "entries_items (Small es) = es"
| "entries_items (Map es ds) = hash_entries es"

section \<open>The store\<close>

record DnsCacheStats =
  hit_total :: u64
  expired_removal_total :: u64
  remove_callback_total :: u64

record DnsCacheStore =
  st_capacity :: nat
  st_entries :: DnsCacheEntries
  st_stats :: DnsCacheStats

definition DNS_CACHE_MAX_ENTRIES :: nat where
  "DNS_CACHE_MAX_ENTRIES = 4096"

definition DnsCacheStore_new :: "nat \<Rightarrow> DnsCacheStore" where
  "DnsCacheStore_new capacity =
     \<lparr>st_capacity = capacity, st_entries = entries_new capacity,
      st_stats = \<lparr>hit_total = 0, expired_removal_total = 0, remove_callback_total = 0\<rparr>\<rparr>"

definition count_expired :: "nat \<Rightarrow> DnsCacheStats \<Rightarrow> DnsCacheStats" where
  "count_expired n stats =
     stats\<lparr>expired_removal_total := expired_removal_total stats + of_nat n,
           remove_callback_total := remove_callback_total stats + of_nat n\<rparr>"

text \<open>Making room: the loop ends when an entry fits or no oldest key is left; \<^const>\<open>None\<close> stands for a loop that never ends.\<close>

partial_function (option) evict_loop ::
    "nat \<Rightarrow> DnsCacheEntries \<Rightarrow> cache_item list \<Rightarrow> (cache_item list \<times> DnsCacheEntries) option" where
  "evict_loop capacity es evicted =
     (if entries_len es \<ge> capacity
      then case oldest_key es of
             (None, es) \<Rightarrow> Some (evicted, es)
           | (Some victim, es) \<Rightarrow>
               (case entries_remove victim es of
                  (Some entry, es) \<Rightarrow> evict_loop capacity es (evicted @ [(victim, entry)])
                | (None, es) \<Rightarrow> evict_loop capacity es evicted)
      else Some (evicted, es))"

declare evict_loop.simps [code]

definition evict_entries :: "int \<Rightarrow> DnsCacheStore \<Rightarrow> DnsCacheStore option" where
  "evict_entries now st =
     (case remove_expired now (st_entries st) of
        (expired_count, es) \<Rightarrow>
          map_option (\<lambda>(evicted, es).
              let stats = count_expired expired_count (st_stats st)
              in st\<lparr>st_entries := es,
                    st_stats := stats\<lparr>remove_callback_total := remove_callback_total stats + of_nat (length evicted)\<rparr>\<rparr>)
            (evict_loop (st_capacity st) es []))"

definition insert_entry :: "int \<Rightarrow> DnsCacheKey \<Rightarrow> DnsCacheEntry \<Rightarrow> DnsCacheStore \<Rightarrow> DnsCacheStore option" where
  "insert_entry now key entry st =
     (if st_capacity st = 0 then Some st
      else map_option (\<lambda>st. st\<lparr>st_entries := entries_insert key entry (st_entries st)\<rparr>)
             (if \<not> entries_contains_key key (st_entries st) then evict_entries now st else Some st))"

definition DnsCacheKey_to_string :: "DnsCacheKey \<Rightarrow> string" where
  "DnsCacheKey_to_string key =
     key_qname key @ ''|'' @ show_nat (unat (key_qtype key)) @ ''|'' @ show_nat (unat (key_qclass key))"

definition store_insert :: "int \<Rightarrow> DnsCacheKey \<Rightarrow> DnsCacheEntry \<Rightarrow> DnsCacheStore \<Rightarrow> DnsCacheStore option" where
  "store_insert now key entry st = insert_entry now key (entry\<lparr>route_owner_key := DnsCacheKey_to_string key\<rparr>) st"

definition lookup_ref ::
    "int \<Rightarrow> DnsCacheKey \<Rightarrow> bool \<Rightarrow> DnsCacheStore \<Rightarrow> DnsCacheEntry option \<times> DnsCacheStore" where
  "lookup_ref now key ignore_fixed_ttl st =
     (case entries_get key (st_entries st) of
        None \<Rightarrow> (None, st)
      | Some entry \<Rightarrow>
          if lookup_deadline ignore_fixed_ttl entry > now
          then let st = st\<lparr>st_stats := (st_stats st)\<lparr>hit_total := hit_total (st_stats st) + 1\<rparr>\<rparr>
               in (entries_get key (st_entries st), st)
          else if cache_expires_at entry > now then (None, st)
          else (None, st\<lparr>st_entries := snd (entries_remove key (st_entries st)),
                         st_stats := count_expired 1 (st_stats st)\<rparr>))"

definition USIZE_MAX :: nat where
  "USIZE_MAX = 2 ^ 64 - 1"

definition sweep_entries_limited :: "int \<Rightarrow> nat \<Rightarrow> DnsCacheStore \<Rightarrow> cache_item list \<times> DnsCacheStore" where
  "sweep_entries_limited now limit st =
     (case remove_expired_entries now limit (st_entries st) of
        (removed, es) \<Rightarrow>
          (removed, st\<lparr>st_entries := es, st_stats := count_expired (length removed) (st_stats st)\<rparr>))"

definition sweep_entries :: "int \<Rightarrow> DnsCacheStore \<Rightarrow> cache_item list \<times> DnsCacheStore" where
  "sweep_entries now st = sweep_entries_limited now USIZE_MAX st"

definition sweep :: "int \<Rightarrow> DnsCacheStore \<Rightarrow> DnsCacheEntry list \<times> DnsCacheStore" where
  "sweep now st = (case sweep_entries now st of (removed, st) \<Rightarrow> (map snd removed, st))"

definition saturating_sub :: "'a :: len word \<Rightarrow> 'a word \<Rightarrow> 'a word" where
  "saturating_sub a b = (if b \<le> a then a - b else 0)"

definition saturating_add :: "'a :: len word \<Rightarrow> 'a word \<Rightarrow> 'a word" where
  "saturating_add a b = (if a \<le> a + b then a + b else - 1)"

definition restore_swept_entries :: "cache_item list \<Rightarrow> DnsCacheStore \<Rightarrow> DnsCacheStore" where
  "restore_swept_entries items st =
     (let restored = fold (\<lambda>_ restored. saturating_add restored 1) items 0; stats = st_stats st
      in st\<lparr>st_entries := fold (\<lambda>(key, entry). entries_insert key entry) items (st_entries st),
            st_stats := stats\<lparr>expired_removal_total := saturating_sub (expired_removal_total stats) restored,
                              remove_callback_total := saturating_sub (remove_callback_total stats) restored\<rparr>\<rparr>)"

definition snapshot_live_entries_shared :: "int \<Rightarrow> DnsCacheStore \<Rightarrow> cache_item list" where
  "snapshot_live_entries_shared now st =
     sort_key fst (filter (\<lambda>item. cache_expires_at (snd item) > now) (entries_items (st_entries st)))"

definition snapshot_live_entries :: "int \<Rightarrow> DnsCacheStore \<Rightarrow> cache_item list \<times> DnsCacheStore" where
  "snapshot_live_entries now st =
     (let st = snd (sweep now st) in (snapshot_live_entries_shared now st, st))"

definition capacity_eviction_key_for_insert ::
    "DnsCacheKey \<Rightarrow> DnsCacheStore \<Rightarrow> DnsCacheKey option \<times> DnsCacheStore" where
  "capacity_eviction_key_for_insert key st =
     (if entries_contains_key key (st_entries st) \<or> entries_len (st_entries st) < st_capacity st then (None, st)
      else case oldest_key (st_entries st) of (oldest, es) \<Rightarrow> (oldest, st\<lparr>st_entries := es\<rparr>))"

definition remove_capacity_eviction :: "DnsCacheKey \<Rightarrow> DnsCacheStore \<Rightarrow> DnsCacheEntry option \<times> DnsCacheStore" where
  "remove_capacity_eviction key st =
     (case entries_remove key (st_entries st) of
        (None, es) \<Rightarrow> (None, st\<lparr>st_entries := es\<rparr>)
      | (Some entry, es) \<Rightarrow>
          (Some entry, st\<lparr>st_entries := es,
             st_stats := (st_stats st)\<lparr>remove_callback_total := saturating_add (remove_callback_total (st_stats st)) 1\<rparr>\<rparr>))"

definition restore_capacity_eviction :: "DnsCacheKey \<Rightarrow> DnsCacheEntry \<Rightarrow> DnsCacheStore \<Rightarrow> DnsCacheStore" where
  "restore_capacity_eviction key entry st =
     st\<lparr>st_entries := entries_insert key entry (st_entries st),
        st_stats := (st_stats st)\<lparr>remove_callback_total := saturating_sub (remove_callback_total (st_stats st)) 1\<rparr>\<rparr>"

definition store_remove :: "DnsCacheKey \<Rightarrow> DnsCacheStore \<Rightarrow> DnsCacheEntry option \<times> DnsCacheStore" where
  "store_remove key st =
     (case entries_remove key (st_entries st) of (removed, es) \<Rightarrow> (removed, st\<lparr>st_entries := es\<rparr>))"

definition discard :: "DnsCacheKey \<Rightarrow> DnsCacheStore \<Rightarrow> bool \<times> DnsCacheStore" where
  "discard key st =
     (case entries_remove key (st_entries st) of (removed, es) \<Rightarrow> (removed \<noteq> None, st\<lparr>st_entries := es\<rparr>))"

definition discard_expired_entries_limited :: "int \<Rightarrow> nat \<Rightarrow> DnsCacheStore \<Rightarrow> nat \<times> DnsCacheStore" where
  "discard_expired_entries_limited now limit st =
     (case remove_expired_entries now limit (st_entries st) of
        (removed, es) \<Rightarrow>
          (length removed, st\<lparr>st_entries := es, st_stats := count_expired (length removed) (st_stats st)\<rparr>))"

text \<open>
  Insertion after an update of the entries' external owners.  The callback sees the evicted entries;
  when it fails they are put back.
\<close>

definition insert_with_eviction ::
    "DnsCacheKey \<Rightarrow> DnsCacheEntry \<Rightarrow> (cache_item list \<Rightarrow> DnsCacheEntry \<Rightarrow> 'k \<Rightarrow> ('e, unit) result \<times> 'k) \<Rightarrow>
      DnsCacheStore \<Rightarrow> 'k \<Rightarrow> (('e, bool) result \<times> DnsCacheStore \<times> 'k) option" where
  "insert_with_eviction key entry callback st k =
     (if st_capacity st = 0 then Some (Inr False, st, k)
      else map_option (\<lambda>(evicted, es).
             case callback evicted entry k of
               (Inl error, k) \<Rightarrow>
                 (Inl error, st\<lparr>st_entries := fold (\<lambda>(key, entry). entries_insert key entry) evicted es\<rparr>, k)
             | (Inr _, k) \<Rightarrow>
                 (Inr True,
                  st\<lparr>st_entries := entries_insert key entry es,
                     st_stats := (st_stats st)\<lparr>remove_callback_total :=
                       remove_callback_total (st_stats st) + of_nat (length evicted)\<rparr>\<rparr>, k))
           (if \<not> entries_contains_key key (st_entries st) then evict_loop (st_capacity st) (st_entries st) []
            else Some ([], st_entries st)))"

end
