(* ===== verification/Dns_Cache_Correct.thy ===== *)
theory Dns_Cache_Correct
  imports Dns_Cache "HOL-Library.Multiset"
begin

text \<open>
  The DNS answer cache refines a bounded map from questions to answers: contents and invariant of
  both backends, removal of expired answers, and making room.
\<close>

section \<open>What a backend stands for\<close>

abbreviation expired :: "int \<Rightarrow> DnsCacheEntry \<Rightarrow> bool" where
  "expired now entry \<equiv> cache_expires_at entry \<le> now"

text \<open>Keys are unique in the vector; the index holds exactly the entries' deadlines.\<close>

fun entries_ok :: "DnsCacheEntries \<Rightarrow> bool" where
  "entries_ok (Small es) = distinct (map fst es)"
| "entries_ok (Map es ds) = (ds = deadlines_of es)"

abbreviation contents_of :: "DnsCacheEntries \<Rightarrow> DnsCacheKey \<rightharpoonup> DnsCacheEntry" where
  "contents_of es \<equiv> (\<lambda>key. entries_get key es)"

lemma small_get [simp]: "entries_get key (Small es) = map_of es key"
  by (induction es) auto

declare entries_get.simps(1) [simp del]

lemma position_Some:
  "position P xs = Some i \<longleftrightarrow> i < length xs \<and> P (xs ! i) \<and> (\<forall>j < i. \<not> P (xs ! j))"
proof (induction xs arbitrary: i)
  case (Cons x xs)
  then show ?case by (cases i) (auto simp: less_Suc_eq_0_disj nth_Cons')
qed simp

lemma position_None: "position P xs = None \<longleftrightarrow> (\<forall>x \<in> set xs. \<not> P x)"
  by (induction xs) auto

lemma in_deadlines_of: "(d, key) |\<in>| deadlines_of es \<longleftrightarrow> (\<exists>entry. fmlookup es key = Some entry \<and> cache_expires_at entry = d)"
  by (force simp: deadlines_of_def fset_of_list_elem)

lemma deadlines_eqI:
  "(\<And>d key. (d, key) |\<in>| ds \<longleftrightarrow> (\<exists>entry. fmlookup es key = Some entry \<and> cache_expires_at entry = d)) \<Longrightarrow> ds = deadlines_of es"
  by (rule fset_eqI) (auto simp: in_deadlines_of split_paired_all)

lemma entries_insert_ok: "entries_ok es \<Longrightarrow> entries_ok (entries_insert key entry es)"
proof (cases es)
  case (Small xs)
  assume ok: "entries_ok es"
  show ?thesis
  proof (cases "position (\<lambda>item. fst item = key) xs")
    case None
    then have "key \<notin> fst ` set xs" by (auto simp: position_None)
    with None ok Small show ?thesis by simp
  next
    case (Some i)
    then have "map fst (xs[i := (fst (xs ! i), entry)]) = map fst xs"
      by (simp add: map_update position_Some list_update_same_conv)
    with ok Small Some show ?thesis by (simp del: map_update)
  qed
next
  case (Map m ds)
  assume ok: "entries_ok es"
  show ?thesis unfolding Map entries_insert.simps Let_def entries_ok.simps
  proof (rule deadlines_eqI)
    fix d k
    show "((d, k) |\<in>| finsert (cache_expires_at entry, key)
        (case fmlookup m key of None \<Rightarrow> ds | Some old \<Rightarrow> ds |-| {|(cache_expires_at old, key)|})) \<longleftrightarrow>
      (\<exists>e. fmlookup (fmupd key entry m) k = Some e \<and> cache_expires_at e = d)"
      using ok Map by (cases "k = key") (auto simp: in_deadlines_of split: option.splits)
  qed
qed

lemma map_of_update_nth:
  "i < length xs \<Longrightarrow> fst (xs ! i) = key \<Longrightarrow> distinct (map fst xs) \<Longrightarrow> map_of (xs[i := (key, v)]) = (map_of xs)(key \<mapsto> v)"
proof (induction xs arbitrary: i)
  case (Cons x xs)
  show ?case
  proof (cases i)
    case (Suc j)
    with Cons.prems have "fst x \<noteq> key" by (auto dest: nth_mem)
    with Suc Cons show ?thesis by (cases x) (auto simp: fun_upd_twist)
  qed (use Cons.prems in \<open>cases x; auto\<close>)
qed simp

lemma entries_insert_get [simp]: "entries_ok es \<Longrightarrow> contents_of (entries_insert key entry es) = (contents_of es)(key \<mapsto> entry)"
proof (cases es)
  case (Small xs)
  assume ok: "entries_ok es"
  show ?thesis
  proof (cases "position (\<lambda>item. fst item = key) xs")
    case None
    then have "map_of xs key = None" by (auto simp: position_None map_of_eq_None_iff)
    with None show ?thesis unfolding Small by (auto simp: map_of_append map_add_def fun_eq_iff split: option.splits)
  next
    case (Some i)
    then have i: "i < length xs" "fst (xs ! i) = key" by (simp_all add: position_Some)
    have "map_of (xs[i := (key, entry)]) = (map_of xs)(key \<mapsto> entry)"
      using ok Small i by (simp add: map_of_update_nth)
    then show ?thesis unfolding Small using Some i by (simp add: fun_eq_iff)
  qed
qed (simp add: Let_def fun_eq_iff)

lemma mset_swap_remove: "i < length xs \<Longrightarrow> mset (swap_remove i xs) = mset xs - {# xs ! i #}"
proof -
  assume i: "i < length xs"
  then have xs: "xs = butlast xs @ [last xs]" by (cases xs) auto
  show ?thesis
  proof (cases "i = length xs - 1")
    case True
    then have "swap_remove i xs = butlast xs" using i by (simp add: swap_remove_def list_update_beyond)
    moreover have "xs ! i = last xs" using True i by (cases xs) (auto simp: last_conv_nth)
    ultimately show ?thesis by (subst (2) xs) simp
  next
    case False
    with i have l: "i < length (butlast xs)" by auto
    then have "xs ! i = butlast xs ! i" by (simp add: nth_butlast)
    with l show ?thesis by (subst (2) xs) (simp add: swap_remove_def mset_update)
  qed
qed

lemma map_of_mset:
  assumes "distinct (map fst xs)" "mset ys = mset xs"
  shows "map_of ys = map_of xs" "distinct (map fst ys)"
proof -
  have "mset (map fst ys) = mset (map fst xs)" using assms(2) by simp
  then show d: "distinct (map fst ys)" using assms(1) by (metis distinct_count_atmost_1 set_mset_mset)
  show "map_of ys = map_of xs"
    using assms d by (intro map_of_inject_set [THEN iffD2]) (auto dest: mset_eq_setD)
qed

lemma distinct_remove_nth:
  assumes "distinct (map fst xs)" "i < length xs" "fst (xs ! i) = key"
  shows "map_of (swap_remove i xs) = (map_of xs)(key := None)" "distinct (map fst (swap_remove i xs))"
proof -
  define l r x where "l = take i xs" and "r = drop (Suc i) xs" and "x = xs ! i"
  have xs: "xs = l @ x # r" unfolding l_def r_def x_def using assms(2) by (rule id_take_nth_drop)
  have ys: "mset (swap_remove i xs) = mset (l @ r)"
    using mset_swap_remove [OF assms(2)] by (simp add: x_def [symmetric]) (simp add: xs)
  have x: "fst x = key" using assms(3) by (simp add: x_def)
  have d: "distinct (map fst (l @ r))" "key \<notin> fst ` set (l @ r)" using assms(1) x by (auto simp: xs)
  show "distinct (map fst (swap_remove i xs))" by (rule map_of_mset(2) [OF d(1) ys])
  have "map_of (l @ r) = (map_of xs)(key := None)"
  proof
    fix k
    show "map_of (l @ r) k = ((map_of xs)(key := None)) k"
    proof (cases "k = key")
      case True
      then show ?thesis using d(2) by (simp add: map_of_eq_None_iff del: map_of_append)
    next
      case False
      then show ?thesis using x by (cases x) (auto simp: xs map_add_def split: option.split)
    qed
  qed
  with map_of_mset(1) [OF d(1) ys] show "map_of (swap_remove i xs) = (map_of xs)(key := None)" by simp
qed

lemma entries_remove_result:
  assumes "entries_ok es"
  shows "fst (entries_remove key es) = entries_get key es"
    and "contents_of (snd (entries_remove key es)) = (contents_of es)(key := None)"
    and "entries_ok (snd (entries_remove key es))"
proof -
  have "fst (entries_remove key es) = entries_get key es \<and>
    contents_of (snd (entries_remove key es)) = (contents_of es)(key := None) \<and> entries_ok (snd (entries_remove key es))"
  proof (cases es)
    case (Small xs)
    show ?thesis
    proof (cases "position (\<lambda>item. fst item = key) xs")
      case None
      then have "map_of xs key = None" by (auto simp: position_None map_of_eq_None_iff)
      then show ?thesis using None assms unfolding Small
        by (simp add: fun_upd_idem)
    next
      case (Some i)
      then have i: "i < length xs" "fst (xs ! i) = key" by (simp_all add: position_Some)
      then have "map_of xs key = Some (snd (xs ! i))" using assms Small by (metis entries_ok.simps(1) map_of_is_SomeI nth_mem prod.collapse)
      then show ?thesis using Some i assms distinct_remove_nth [OF _ i] unfolding Small
        by (simp add: fun_eq_iff)
    qed
  next
    case (Map m ds)
    show ?thesis
    proof (cases "fmlookup m key")
      case (Some e)
      have "ds |-| {|(cache_expires_at e, key)|} = deadlines_of (fmdrop key m)"
      proof (rule deadlines_eqI)
        fix d k
        show "((d, k) |\<in>| ds |-| {|(cache_expires_at e, key)|}) \<longleftrightarrow> (\<exists>x. fmlookup (fmdrop key m) k = Some x \<and> cache_expires_at x = d)"
          using assms Map Some by (cases "k = key") (auto simp: in_deadlines_of)
      qed
      with Some Map show ?thesis by (auto simp: fun_eq_iff)
    qed (use Map assms in \<open>auto simp: fun_eq_iff\<close>)
  qed
  then show "fst (entries_remove key es) = entries_get key es"
    and "contents_of (snd (entries_remove key es)) = (contents_of es)(key := None)"
    and "entries_ok (snd (entries_remove key es))" by blast+
qed

section \<open>Expiry\<close>

abbreviation reached :: "nat option \<Rightarrow> nat \<Rightarrow> bool" where
  "reached limit n \<equiv> (case limit of None \<Rightarrow> False | Some l \<Rightarrow> l \<le> n)"

lemma swap_remove_prefix: "j < i \<Longrightarrow> i < length xs \<Longrightarrow> swap_remove i xs ! j = xs ! j"
  by (simp add: swap_remove_def nth_butlast)

lemma remove_expired_small_result:
  assumes "remove_expired_small now limit index es removed = (removed', kept)"
    and "\<forall>j < index. j < length es \<longrightarrow> \<not> expired now (snd (es ! j))"
  shows "\<exists>new. removed' = removed @ new \<and> mset new + mset kept = mset es \<and>
    (\<forall>item \<in> set new. expired now (snd item)) \<and>
    ((\<forall>item \<in> set kept. \<not> expired now (snd item)) \<or> reached limit (length removed')) \<and>
    (case limit of None \<Rightarrow> True | Some n \<Rightarrow> length removed' \<le> max n (length removed))"
  using assms
proof (induction now limit index es removed rule: remove_expired_small.induct)
  case (1 now limit index es removed)
  let ?go = "index < length es \<and> (case limit of None \<Rightarrow> True | Some n \<Rightarrow> length removed < n)"
  show ?case
  proof (cases ?go)
    case False
    then have "removed' = removed" "kept = es" using "1.prems"(1) by (auto simp: remove_expired_small.simps [of now limit])
    moreover have "\<not> expired now (snd item)" if "item \<in> set es" "\<not> index < length es" for item
      using that "1.prems"(2) by (metis in_set_conv_nth less_le_trans not_less)
    ultimately show ?thesis using False by (intro exI [of _ "[]"]) (auto split: option.splits)
  next
    case go: True
    show ?thesis
    proof (cases "expired now (snd (es ! index))")
      case True
      then have run: "remove_expired_small now limit index (swap_remove index es) (removed @ [es ! index]) = (removed', kept)"
        using "1.prems"(1) go by (simp add: remove_expired_small.simps [of now limit index es])
      have "\<forall>j < index. j < length (swap_remove index es) \<longrightarrow> \<not> expired now (snd (swap_remove index es ! j))"
        using "1.prems"(2) go by (auto simp: swap_remove_prefix)
      from "1.IH"(1) [OF go True run this] obtain new where new: "removed' = (removed @ [es ! index]) @ new"
        "mset new + mset kept = mset (swap_remove index es)" "\<forall>item \<in> set new. expired now (snd item)"
        "(\<forall>item \<in> set kept. \<not> expired now (snd item)) \<or> reached limit (length removed')"
        "case limit of None \<Rightarrow> True | Some n \<Rightarrow> length removed' \<le> max n (length (removed @ [es ! index]))" by blast
      have "mset (es ! index # new) + mset kept = mset es"
        using new(2) go by (simp add: mset_swap_remove)
      with new True go show ?thesis by (intro exI [of _ "es ! index # new"]) (auto split: option.splits)
    next
      case False
      then have run: "remove_expired_small now limit (index + 1) es removed = (removed', kept)"
        using "1.prems"(1) go by (simp add: remove_expired_small.simps [of now limit index es])
      have "\<forall>j < index + 1. j < length es \<longrightarrow> \<not> expired now (snd (es ! j))"
        using "1.prems"(2) False by (auto simp: less_Suc_eq)
      from "1.IH"(2) [OF go False run this] show ?thesis .
    qed
  qed
qed

lemma btree_first_None: "btree_first S = None \<longleftrightarrow> S = {||}"
proof -
  have "S = {||} \<longleftrightarrow> set (sorted_list_of_fset S) = {}"
    by (simp only: set_sorted_list_of_fset bot_fset.rep_eq [symmetric] fset_inject)
  then show ?thesis by (cases "sorted_list_of_fset S") (auto simp: btree_first_def)
qed

lemma btree_first_least: "btree_first S = Some x \<Longrightarrow> y |\<in>| S \<Longrightarrow> x \<le> y"
proof -
  assume "btree_first S = Some x" and y: "y |\<in>| S"
  then obtain xs where xs: "sorted_list_of_fset S = x # xs" by (cases "sorted_list_of_fset S") (auto simp: btree_first_def)
  have "sorted (x # xs)" using sorted_sorted_list_of_set [of "fset S"] by (simp add: sorted_list_of_fset.rep_eq [symmetric] xs)
  moreover have "y \<in> set (x # xs)" using y set_sorted_list_of_fset [of S] by (simp add: xs)
  ultimately show "x \<le> y" by auto
qed

text \<open>With a consistent index the loop over it removes expired entries only, and all of them below the limit.\<close>

lemma deadlines_drop: "(d, key) |\<in>| deadlines_of es \<Longrightarrow> deadlines_of es |-| {|(d, key)|} = deadlines_of (fmdrop key es)"
  by (rule deadlines_eqI) (auto simp: in_deadlines_of split: if_splits)

lemma fmdrop_restrict: "fmfilter P (fmdrop k m) = fmdrop k (fmfilter P m)"
  by (rule fmap_ext) auto

lemma remove_expired_map_result:
  assumes "remove_expired_map now limit examined es ds removed = (removed', kept, ds')" "ds = deadlines_of es"
  shows "ds' = deadlines_of kept \<and> (\<exists>new. removed' = removed @ new \<and> distinct (map fst new) \<and>
    (\<forall>key. fmlookup es key = (case map_of new key of None \<Rightarrow> fmlookup kept key | Some e \<Rightarrow> Some e)) \<and>
    (\<forall>(key, e) \<in> set new. fmlookup kept key = None \<and> expired now e) \<and>
    ((\<forall>key e. fmlookup kept key = Some e \<longrightarrow> \<not> expired now e) \<or> reached limit (examined + length new)) \<and>
    (case limit of None \<Rightarrow> True | Some n \<Rightarrow> examined + length new \<le> max n examined))"
  using assms
proof (induction now limit examined es ds removed rule: remove_expired_map.induct)
  case (1 now limit examined es ds removed)
  let ?go = "case limit of None \<Rightarrow> True | Some n \<Rightarrow> examined < n"
  note unfold = remove_expired_map.simps [of now limit examined es ds removed]
  show ?case
  proof (cases "?go \<and> (\<exists>d key. btree_first ds = Some (d, key) \<and> d \<le> now)")
    case False
    then have same: "removed' = removed" "kept = es" "ds' = ds"
      using "1.prems"(1) unfolding unfold by (auto split: option.splits if_splits)
    have "\<not> expired now e" if "fmlookup kept key = Some e" "?go" for key e
    proof -
      have "(cache_expires_at e, key) |\<in>| ds" using that "1.prems"(2) same by (auto simp: in_deadlines_of)
      moreover then obtain d k where f: "btree_first ds = Some (d, k)" by (cases "btree_first ds") (auto simp: btree_first_None)
      ultimately have "(d, k) \<le> (cache_expires_at e, key)" by (blast intro: btree_first_least)
      then have "d \<le> cache_expires_at e" by auto
      with False that f show ?thesis by auto
    qed
    then show ?thesis using same "1.prems"(2) by (auto split: option.splits)
  next
    case True
    then obtain d key where go: ?go and f: "btree_first ds = Some (d, key)" "d \<le> now" by blast
    from btree_first_in [OF f(1)] "1.prems"(2) obtain e where e: "fmlookup es key = Some e" "cache_expires_at e = d"
      by (auto simp: in_deadlines_of)
    have run: "remove_expired_map now limit (examined + 1) (fmdrop key es) (ds |-| {|(d, key)|}) (removed @ [(key, e)]) =
        (removed', kept, ds')" using "1.prems"(1) go f e unfolding unfold by (simp add: Let_def)
    have "ds |-| {|(d, key)|} = deadlines_of (fmdrop key es)"
      using "1.prems"(2) btree_first_in [OF f(1)] by (simp add: deadlines_drop)
    from "1.IH"(2) [OF go f(1) refl f(2) refl e run this]
    obtain new where ds': "ds' = deadlines_of kept" and new: "removed' = (removed @ [(key, e)]) @ new" "distinct (map fst new)"
      "\<forall>k. fmlookup (fmdrop key es) k = (case map_of new k of None \<Rightarrow> fmlookup kept k | Some e \<Rightarrow> Some e)"
      "\<forall>(k, e) \<in> set new. fmlookup kept k = None \<and> expired now e"
      "(\<forall>k e. fmlookup kept k = Some e \<longrightarrow> \<not> expired now e) \<or> reached limit (examined + 1 + length new)"
      "case limit of None \<Rightarrow> True | Some n \<Rightarrow> examined + 1 + length new \<le> max n (examined + 1)" by blast
    from spec [OF new(3), of key] have key: "map_of new key = None" "fmlookup kept key = None"
      by (auto split: option.splits)
    show ?thesis
    proof (intro conjI exI [of _ "(key, e) # new"])
      show "distinct (map fst ((key, e) # new))" using new(2) key(1) by (auto simp: map_of_eq_None_iff)
      show "\<forall>k. fmlookup es k = (case map_of ((key, e) # new) k of None \<Rightarrow> fmlookup kept k | Some e \<Rightarrow> Some e)"
      proof
        fix k
        show "fmlookup es k = (case map_of ((key, e) # new) k of None \<Rightarrow> fmlookup kept k | Some e \<Rightarrow> Some e)"
          using spec [OF new(3), of k] e by (cases "k = key") simp_all
      qed
      show "\<forall>(k, e) \<in> set ((key, e) # new). fmlookup kept k = None \<and> expired now e" using new(4) key(2) e f by auto
    qed (use ds' new go in \<open>auto split: option.splits\<close>)
  qed
qed

text \<open>Entries taken out of a backend, and what a removal of expired ones leaves.\<close>

definition taken :: "DnsCacheEntries \<Rightarrow> cache_item list \<Rightarrow> DnsCacheEntries \<Rightarrow> bool" where
  "taken es removed es' \<longleftrightarrow>
     entries_ok es' \<and> distinct (map fst removed) \<and>
     (\<forall>key. entries_get key es = (case map_of removed key of None \<Rightarrow> entries_get key es' | Some e \<Rightarrow> Some e)) \<and>
     (\<forall>(key, e) \<in> set removed. entries_get key es' = None)"

definition swept :: "int \<Rightarrow> nat option \<Rightarrow> DnsCacheEntries \<Rightarrow> cache_item list \<Rightarrow> DnsCacheEntries \<Rightarrow> bool" where
  "swept now limit es removed es' \<longleftrightarrow>
     taken es removed es' \<and> (\<forall>(key, e) \<in> set removed. expired now e) \<and>
     ((\<forall>key e. entries_get key es' = Some e \<longrightarrow> \<not> expired now e) \<or> reached limit (length removed)) \<and>
     (case limit of None \<Rightarrow> True | Some n \<Rightarrow> length removed \<le> n)"

lemma swept_small:
  assumes "remove_expired_small now limit 0 xs [] = (removed, kept)" "distinct (map fst xs)"
  shows "swept now limit (Small xs) removed (Small kept)"
proof -
  from remove_expired_small_result [OF assms(1)] have new: "mset (removed @ kept) = mset xs"
    "\<forall>item \<in> set removed. expired now (snd item)"
    "(\<forall>item \<in> set kept. \<not> expired now (snd item)) \<or> reached limit (length removed)"
    "case limit of None \<Rightarrow> True | Some n \<Rightarrow> length removed \<le> n" by (auto split: option.splits)
  note m = map_of_mset [OF assms(2) new(1)]
  have "map_of xs key = (case map_of removed key of None \<Rightarrow> map_of kept key | Some e \<Rightarrow> Some e)" for key
    by (simp only: m(1) [symmetric] map_of_append map_add_def)
  moreover have "map_of kept (fst item) = None" if "item \<in> set removed" for item
    using that m(2) by (auto simp: map_of_eq_None_iff)
  moreover have "\<not> expired now e" if "\<forall>item \<in> set kept. \<not> expired now (snd item)" "map_of kept key = Some e" for key e
    using that by (metis map_of_SomeD snd_conv)
  ultimately show ?thesis unfolding swept_def taken_def small_get entries_ok.simps using new m(2) by auto
qed

lemma swept_map:
  assumes "remove_expired_map now limit 0 es ds [] = (removed, kept, ds')" "ds = deadlines_of es"
  shows "swept now limit (Map es ds) removed (Map kept ds')"
  using remove_expired_map_result [OF assms] unfolding swept_def taken_def by (auto split: option.splits)

lemma remove_expired_entries_swept:
  assumes "remove_expired_entries now limit es = (removed, es')" "entries_ok es"
  shows "swept now (Some limit) es removed es'"
  using assms by (cases es) (auto intro: swept_small swept_map split: prod.splits)

lemma taken_refl: "entries_ok es \<Longrightarrow> taken es [] es"
  by (simp add: taken_def)

lemma taken_trans:
  assumes "taken es r1 es1" "taken es1 r2 es2"
  shows "taken es (r1 @ r2) es2"
proof -
  have t: "entries_get key es = (case map_of r1 key of None \<Rightarrow> entries_get key es1 | Some e \<Rightarrow> Some e)"
    "entries_get key es1 = (case map_of r2 key of None \<Rightarrow> entries_get key es2 | Some e \<Rightarrow> Some e)" for key
    using assms by (simp_all add: taken_def)
  have out: "entries_get (fst item) es1 = None" if "item \<in> set r1" for item
    using that assms(1) unfolding taken_def by (cases item) auto
  have out2: "entries_get (fst item) es2 = None" "map_of r2 (fst item) = None" if "item \<in> set r1" for item
    using out [OF that] t(2) [of "fst item"] by (auto split: option.splits)
  have "fst ` set r1 \<inter> fst ` set r2 = {}"
    using out2(2) by (auto simp: map_of_eq_None_iff)
  moreover have "entries_get key es = (case map_of (r1 @ r2) key of None \<Rightarrow> entries_get key es2 | Some e \<Rightarrow> Some e)" for key
  proof (cases "map_of r1 key")
    case (Some e)
    then have "map_of r2 key = None" using out2(2) [of "(key, e)"] by (auto dest: map_of_SomeD)
    with Some show ?thesis by (simp add: t(1) map_add_def)
  qed (simp add: t map_add_def split: option.split)
  ultimately show ?thesis using assms out2(1) unfolding taken_def by auto
qed

section \<open>Making room\<close>

lemma fold_best:
  fixes f :: "'a \<Rightarrow> int"
  defines "best \<equiv> (\<lambda>ys b. fold (\<lambda>y best. if f y < f best then y else best) ys b)"
  shows "best ys b \<in> insert b (set ys) \<and> f (best ys b) \<le> f b \<and> (\<forall>y \<in> set ys. f (best ys b) \<le> f y)"
proof (induction ys arbitrary: b)
  case (Cons a ys)
  have step: "best (a # ys) b = best ys (if f a < f b then a else b)" by (simp add: best_def)
  show ?case
  proof (cases "f a < f b")
    case True
    with Cons.IH [of a] show ?thesis by (auto simp: step)
  next
    case False
    with Cons.IH [of b] show ?thesis by (auto simp: step)
  qed
qed (simp add: best_def)

lemma min_by_key_least: "min_by_key f xs = Some x \<Longrightarrow> x \<in> set xs \<and> (\<forall>y \<in> set xs. f x \<le> f y)"
  using fold_best [of f] by (cases xs) auto

lemma min_by_key_None: "min_by_key f xs = None \<longleftrightarrow> xs = []"
  by (cases xs) auto

lemma hash_len_drop: "fmlookup m key = Some v \<Longrightarrow> hash_len (fmdrop key m) < hash_len m"
  using fcard_remove_less [of key "fmdom m"] by (simp add: hash_len_def fmdomI)

lemma entries_remove_progress:
  assumes "entries_get key es \<noteq> None"
  shows "\<exists>entry es'. entries_remove key es = (Some entry, es') \<and> entries_len es' < entries_len es"
proof (cases es)
  case (Small xs)
  with assms obtain e where "map_of xs key = Some e" by auto
  then have "(key, e) \<in> set xs" by (rule map_of_SomeD)
  then have "position (\<lambda>item. fst item = key) xs \<noteq> None" unfolding position_None by (auto intro!: bexI [of _ "(key, e)"])
  then obtain i where i: "position (\<lambda>item. fst item = key) xs = Some i" by blast
  then have "i < length xs" by (simp add: position_Some)
  with i Small show ?thesis by auto
next
  case (Map m ds)
  with assms show ?thesis by (auto simp: hash_len_drop)
qed

lemma oldest_key_present:
  assumes "oldest_key es = (victim, es')"
  shows "contents_of es' = contents_of es" "entries_len es' = entries_len es"
    "victim = Some key \<Longrightarrow> entries_get key es' \<noteq> None"
proof -
  show "contents_of es' = contents_of es" "entries_len es' = entries_len es"
    using assms by (cases es; auto simp: Let_def)+
  assume victim: "victim = Some key"
  show "entries_get key es' \<noteq> None"
  proof (cases es)
    case (Small xs)
    then obtain e where "(key, e) \<in> set xs" using assms victim
      by (auto dest!: min_by_key_least)
    then have "map_of xs key \<noteq> None" unfolding map_of_eq_None_iff by (auto intro!: image_eqI [of _ fst "(key, e)"])
    then show ?thesis using assms Small by auto
  next
    case (Map m ds)
    define stale where "stale = (case btree_first ds of None \<Rightarrow> False | Some (deadline, key) \<Rightarrow>
        (case fmlookup m key of None \<Rightarrow> True | Some entry \<Rightarrow> cache_expires_at entry \<noteq> deadline))"
    define ds' where "ds' = (if fcard ds \<noteq> hash_len m \<or> stale then deadlines_of m else ds)"
    have es': "es' = Map m ds'" "victim = map_option snd (btree_first ds')"
      using assms Map by (auto simp: Let_def stale_def ds'_def)
    with victim obtain d where f: "btree_first ds' = Some (d, key)" by auto
    show ?thesis
    proof (cases "fcard ds \<noteq> hash_len m \<or> stale")
      case True
      with f have "(d, key) |\<in>| deadlines_of m" by (simp add: ds'_def btree_first_in)
      then show ?thesis by (auto simp: es' in_deadlines_of)
    next
      case False
      with f have "\<not> stale" "btree_first ds = Some (d, key)" by (simp_all add: ds'_def)
      then show ?thesis by (auto simp: es' stale_def split: option.splits)
    qed
  qed
qed

lemma evict_loop_returns: "\<exists>r. evict_loop capacity es ev = Some r"
proof (induction "entries_len es" arbitrary: es ev rule: less_induct)
  case less
  obtain victim es1 where o: "oldest_key es = (victim, es1)" by fastforce
  show ?case
  proof (cases "entries_len es \<ge> capacity \<and> victim \<noteq> None")
    case False
    then show ?thesis using o by (subst evict_loop.simps) auto
  next
    case True
    then obtain key where key: "victim = Some key" by blast
    from entries_remove_progress [OF oldest_key_present(3) [OF o key]] obtain entry es2 where
      r: "entries_remove key es1 = (Some entry, es2)" "entries_len es2 < entries_len es1" by blast
    then have "entries_len es2 < entries_len es" by (simp add: oldest_key_present(2) [OF o])
    from less [OF this, of "ev @ [(key, entry)]"] show ?thesis
      using o True r key by (subst evict_loop.simps) simp
  qed
qed

lemma entries_len_card: "entries_ok es \<Longrightarrow> entries_len es = card (dom (contents_of es))"
proof (cases es)
  case (Small xs)
  moreover assume "entries_ok es"
  ultimately have "card (fst ` set xs) = length xs" by (metis distinct_card entries_ok.simps(1) length_map set_map)
  with Small show ?thesis by (simp add: dom_map_of_conv_image_fst)
next
  case (Map m ds)
  have "dom (fmlookup m) = fset (fmdom m)" by (auto simp: fmlookup_dom'_iff intro: fmdomI)
  with Map show ?thesis by (simp add: hash_len_def fcard.rep_eq)
qed

lemma finite_contents: "finite (dom (contents_of es))"
  by (cases es) (auto simp: finite_dom_map_of)

lemma oldest_key_ok:
  assumes "entries_ok es" "oldest_key es = (victim, es')"
  shows "es' = es" "victim = None \<Longrightarrow> contents_of es = Map.empty"
    "victim = Some key \<Longrightarrow> entries_get key es = Some e \<Longrightarrow> entries_get k' es = Some e' \<Longrightarrow> cache_expires_at e \<le> cache_expires_at e'"
proof -
  show es': "es' = es" using assms by (cases es) (auto simp: Let_def split: if_splits)
  show "contents_of es = Map.empty" if "victim = None"
  proof (cases es)
    case (Map m ds)
    with assms that have ds: "deadlines_of m = {||}" by (auto simp: Let_def btree_first_None split: if_splits)
    have "fmlookup m k = None" for k
      using in_deadlines_of [of "cache_expires_at (the (fmlookup m k))" k m] by (cases "fmlookup m k") (auto simp: ds)
    with Map show ?thesis by auto
  qed (use assms that in \<open>auto simp: min_by_key_None\<close>)
  show "cache_expires_at e \<le> cache_expires_at e'" if v: "victim = Some key" and e: "entries_get key es = Some e" "entries_get k' es = Some e'"
  proof (cases es)
    case (Small xs)
    with assms v obtain x where x: "min_by_key (\<lambda>item. cache_expires_at (snd item)) xs = Some (key, x)" by auto
    with min_by_key_least [OF x] assms(1) Small e have "x = e" "(k', e') \<in> set xs"
      by (auto dest: map_of_SomeD eq_key_imp_eq_value)
    with min_by_key_least [OF x] show ?thesis by auto
  next
    case (Map m ds)
    with assms v have "map_option snd (btree_first (deadlines_of m)) = Some key" by (auto simp: Let_def split: if_splits)
    then obtain d where f: "btree_first (deadlines_of m) = Some (d, key)" by auto
    from btree_first_in [OF f] e Map have "d = cache_expires_at e" by (simp add: in_deadlines_of)
    moreover have "(d, key) \<le> (cache_expires_at e', k')"
      by (rule btree_first_least [OF f]) (use e Map in \<open>simp add: in_deadlines_of\<close>)
    ultimately show ?thesis by auto
  qed
qed

lemma taken_remove:
  assumes "entries_ok es" "entries_get key es = Some e"
  shows "entries_remove key es = (Some e, snd (entries_remove key es))" "taken es [(key, e)] (snd (entries_remove key es))"
proof -
  note r = entries_remove_result [OF assms(1), of key]
  have g: "entries_get k (snd (entries_remove key es)) = ((contents_of es)(key := None)) k" for k
    using fun_cong [OF r(2), of k] by simp
  show "entries_remove key es = (Some e, snd (entries_remove key es))" using r(1) assms(2) by (simp add: prod_eq_iff)
  show "taken es [(key, e)] (snd (entries_remove key es))"
    unfolding taken_def using r(3) assms(2) by (simp add: g)
qed

text \<open>Victims are never younger than what is kept.\<close>

lemma evict_loop_result:
  assumes "entries_ok es" "evict_loop capacity es ev = Some (ev', es')"
  shows "\<exists>new. ev' = ev @ new \<and> taken es new es' \<and> (entries_len es' < capacity \<or> contents_of es' = Map.empty) \<and>
    (\<forall>(key, e) \<in> set new. \<forall>k' e'. entries_get k' es' = Some e' \<longrightarrow> cache_expires_at e \<le> cache_expires_at e')"
  using assms
proof (induction "entries_len es" arbitrary: es ev rule: less_induct)
  case less
  obtain victim es1 where o: "oldest_key es = (victim, es1)" by fastforce
  have es1: "es1 = es" by (rule oldest_key_ok(1) [OF less.prems(1) o])
  show ?case
  proof (cases "entries_len es \<ge> capacity \<and> victim \<noteq> None")
    case False
    with less.prems(2) o es1 have "ev' = ev" "es' = es" by (auto simp: evict_loop.simps [of capacity es] split: if_splits)
    with False oldest_key_ok(2) [OF less.prems(1) o] less.prems(1) show ?thesis
      by (intro exI [of _ "[]"]) (auto simp: taken_refl)
  next
    case True
    then obtain key where key: "victim = Some key" by blast
    with oldest_key_present(3) [OF o] es1 obtain e where e: "entries_get key es = Some e" by blast
    define es2 where "es2 = snd (entries_remove key es)"
    have r: "entries_remove key es = (Some e, es2)" and t: "taken es [(key, e)] es2"
      unfolding es2_def by (rule taken_remove [OF less.prems(1) e])+
    have len: "entries_len es2 < entries_len es" using entries_remove_progress [of key es] e r by auto
    have run: "evict_loop capacity es2 (ev @ [(key, e)]) = Some (ev', es')"
      using less.prems(2) True o es1 key r by (simp add: evict_loop.simps [of capacity es])
    have ok2: "entries_ok es2" using t by (simp add: taken_def)
    from less.hyps [OF len ok2 run] obtain new where new: "ev' = (ev @ [(key, e)]) @ new" "taken es2 new es'"
      "entries_len es' < capacity \<or> contents_of es' = Map.empty"
      "\<forall>(key, e) \<in> set new. \<forall>k' e'. entries_get k' es' = Some e' \<longrightarrow> cache_expires_at e \<le> cache_expires_at e'" by blast
    have all: "taken es ([(key, e)] @ new) es'" by (rule taken_trans [OF t new(2)])
    have "entries_get k' es = Some e'" if "entries_get k' es' = Some e'" for k' e'
      using all that unfolding taken_def
      by (metis (mono_tags, lifting) case_prod_conv map_of_SomeD not_Some_eq option.case(1))
    then have "cache_expires_at e \<le> cache_expires_at e'" if "entries_get k' es' = Some e'" for k' e'
      using oldest_key_ok(3) [OF less.prems(1) o key e] that by blast
    with new all show ?thesis by (intro exI [of _ "(key, e) # new"]) auto
  qed
qed

section \<open>The store\<close>

fun small_backend :: "DnsCacheEntries \<Rightarrow> bool" where
  "small_backend (Small es) = True"
| "small_backend (Map es ds) = False"

definition store_ok :: "DnsCacheStore \<Rightarrow> bool" where
  "store_ok st \<longleftrightarrow> entries_ok (st_entries st) \<and> entries_len (st_entries st) \<le> st_capacity st \<and>
     (small_backend (st_entries st) \<longrightarrow> st_capacity st \<le> DNS_CACHE_SMALL_BACKEND_MAX_ENTRIES)"

lemma small_backend_kept [simp]:
  "small_backend (entries_insert key entry es) = small_backend es"
  "small_backend (snd (entries_remove key es)) = small_backend es"
  "small_backend (snd (oldest_key es)) = small_backend es"
  "small_backend (snd (remove_expired now es)) = small_backend es"
  "small_backend (snd (remove_expired_entries now limit es)) = small_backend es"
  by (cases es; auto simp: Let_def split: option.splits prod.splits)+

lemma small_backend_evict: "evict_loop capacity es ev = Some (ev', es') \<Longrightarrow> small_backend es' = small_backend es"
proof (induction "entries_len es" arbitrary: es ev rule: less_induct)
  case less
  obtain victim es1 where o: "oldest_key es = (victim, es1)" by fastforce
  have es1: "small_backend es1 = small_backend es" using small_backend_kept(3) [of es] o by simp
  show ?case
  proof (cases "entries_len es \<ge> capacity \<and> victim \<noteq> None")
    case False
    with less.prems o es1 show ?thesis by (auto simp: evict_loop.simps [of capacity es] split: if_splits)
  next
    case True
    then obtain key where key: "victim = Some key" by blast
    from entries_remove_progress [OF oldest_key_present(3) [OF o key]] obtain entry es2 where
      r: "entries_remove key es1 = (Some entry, es2)" "entries_len es2 < entries_len es1" by blast
    have "small_backend es2 = small_backend es" using small_backend_kept(2) [of key es1] r(1) es1 by simp
    moreover have "evict_loop capacity es2 (ev @ [(key, entry)]) = Some (ev', es')"
      using less.prems True o key r(1) by (simp add: evict_loop.simps [of capacity es])
    ultimately show ?thesis using less.hyps [of es2] r(2) oldest_key_present(2) [OF o] by simp
  qed
qed

lemma DnsCacheStore_new_ok: "store_ok (DnsCacheStore_new capacity)"
proof -
  have "deadlines_of fmempty = {||}" by (rule deadlines_eqI [symmetric]) simp
  then show ?thesis by (simp add: store_ok_def DnsCacheStore_new_def entries_new_def hash_len_def fcard.rep_eq)
qed

lemma taken_get:
  assumes "taken es removed es'" "entries_get k es' = Some e"
  shows "entries_get k es = Some e"
proof (cases "map_of removed k")
  case (Some x)
  then have "(k, x) \<in> set removed" by (rule map_of_SomeD)
  with assms show ?thesis unfolding taken_def by auto
qed (use assms in \<open>simp add: taken_def\<close>)

lemma taken_len:
  assumes "taken es removed es'" "entries_ok es"
  shows "entries_len es' \<le> entries_len es"
proof -
  have "dom (contents_of es') \<subseteq> dom (contents_of es)" using taken_get [OF assms(1)] by auto
  then have "card (dom (contents_of es')) \<le> card (dom (contents_of es))" by (rule card_mono [OF finite_contents])
  moreover have "entries_ok es'" using assms(1) by (simp add: taken_def)
  ultimately show ?thesis using assms(2) by (simp add: entries_len_card)
qed

lemma insert_len:
  assumes "entries_ok es"
  shows "entries_len (entries_insert key entry es) = (if entries_get key es = None then Suc (entries_len es) else entries_len es)"
  using entries_len_card [OF entries_insert_ok [OF assms], of key entry] finite_contents [of es]
  by (auto simp: entries_len_card [OF assms] assms card_insert_if)

lemma contains_key_get: "entries_contains_key key es \<longleftrightarrow> entries_get key es \<noteq> None"
proof (cases es)
  case (Small xs)
  then show ?thesis by (induction xs arbitrary: es) auto
next
  case (Map m ds)
  then show ?thesis by (auto simp: fmlookup_dom_iff)
qed

lemma remove_expired_swept:
  assumes "remove_expired now es = (n, es')" "entries_ok es"
  shows "\<exists>removed. swept now None es removed es'"
  using assms by (cases es) (auto dest: swept_small swept_map split: prod.splits)

text \<open>An entry that a store no longer has was expired, or no younger than every entry kept.\<close>

definition dropped_fairly :: "int \<Rightarrow> DnsCacheEntry \<Rightarrow> DnsCacheEntries \<Rightarrow> bool" where
  "dropped_fairly now e es' \<longleftrightarrow>
     expired now e \<or> (\<forall>k' e'. entries_get k' es' = Some e' \<longrightarrow> cache_expires_at e \<le> cache_expires_at e')"

lemma taken_lost:
  "taken es removed es' \<Longrightarrow> entries_get k es = Some e \<Longrightarrow> entries_get k es' = Some e \<or> (k, e) \<in> set removed \<and> entries_get k es' = None"
  unfolding taken_def by (cases "map_of removed k") (auto dest: map_of_SomeD)

lemma evict_entries_result:
  assumes "entries_ok (st_entries st)" "evict_entries now st = Some st'"
  shows "entries_ok (st_entries st')" "st_capacity st' = st_capacity st"
    "st_capacity st > 0 \<Longrightarrow> entries_len (st_entries st') < st_capacity st"
    "small_backend (st_entries st') = small_backend (st_entries st)"
    "entries_get k (st_entries st') = Some e \<Longrightarrow> entries_get k (st_entries st) = Some e"
    "entries_get k (st_entries st) = Some e \<Longrightarrow> entries_get k (st_entries st') = None \<Longrightarrow> dropped_fairly now e (st_entries st')"
    "entries_get k (st_entries st) = Some e \<Longrightarrow> entries_get k (st_entries st') = Some e \<or> entries_get k (st_entries st') = None"
proof -
  obtain n es1 where r: "remove_expired now (st_entries st) = (n, es1)" by fastforce
  from remove_expired_swept [OF r assms(1)] obtain rem where sw: "swept now None (st_entries st) rem es1" by blast
  then have t1: "taken (st_entries st) rem es1" "\<forall>(key, e) \<in> set rem. expired now e" by (simp_all add: swept_def)
  obtain ev es2 where l: "evict_loop (st_capacity st) es1 [] = Some (ev, es2)" using evict_loop_returns by fastforce
  have es2: "st_entries st' = es2" "st_capacity st' = st_capacity st"
    using assms(2) by (auto simp: evict_entries_def r l Let_def)
  have "entries_ok es1" using t1(1) by (simp add: taken_def)
  from evict_loop_result [OF this l] have t2: "taken es1 ev es2"
    "entries_len es2 < st_capacity st \<or> contents_of es2 = Map.empty"
    "\<forall>(key, e) \<in> set ev. \<forall>k' e'. entries_get k' es2 = Some e' \<longrightarrow> cache_expires_at e \<le> cache_expires_at e'" by auto
  have ok2: "entries_ok es2" using t2(1) by (simp add: taken_def)
  then show "entries_ok (st_entries st')" by (simp add: es2)
  show "st_capacity st' = st_capacity st" by (rule es2)
  show "small_backend (st_entries st') = small_backend (st_entries st)"
    using small_backend_evict [OF l] small_backend_kept(4) [of now "st_entries st"] r by (simp add: es2)
  show "entries_len (st_entries st') < st_capacity st" if "st_capacity st > 0"
    using t2(2) that ok2 by (auto simp: es2 entries_len_card)
  note t = taken_trans [OF t1(1) t2(1)]
  show "entries_get k (st_entries st') = Some e \<Longrightarrow> entries_get k (st_entries st) = Some e"
    using taken_get [OF t] by (simp add: es2)
  show "entries_get k (st_entries st) = Some e \<Longrightarrow> entries_get k (st_entries st') = Some e \<or> entries_get k (st_entries st') = None"
    using taken_lost [OF t, of k e] by (auto simp: es2)
  show "dropped_fairly now e (st_entries st')"
    if "entries_get k (st_entries st) = Some e" "entries_get k (st_entries st') = None"
    using taken_lost [OF t that(1)] that(2) t1(2) t2(3) by (auto simp: es2 dropped_fairly_def)
qed

lemma full_cache_victim:
  assumes "entries_ok es" "entries_len es = capacity" "0 < capacity"
  obtains key e where "oldest_key es = (Some key, es)" "entries_get key es = Some e"
    "evict_loop capacity es [] = Some ([(key, e)], snd (entries_remove key es))"
proof -
  obtain victim es1 where o: "oldest_key es = (victim, es1)" by fastforce
  note ok = oldest_key_ok [OF assms(1) o]
  have "victim \<noteq> None"
  proof
    assume "victim = None"
    from ok(2) [OF this] show False using assms entries_len_card [OF assms(1)] by simp
  qed
  then obtain key where key: "victim = Some key" by blast
  with oldest_key_present(3) [OF o] ok(1) obtain e where e: "entries_get key es = Some e" by blast
  define es2 where "es2 = snd (entries_remove key es)"
  have r: "entries_remove key es = (Some e, es2)" unfolding es2_def by (rule taken_remove [OF assms(1) e])
  have len: "entries_len es2 < capacity" using entries_remove_progress [of key es] e r assms(2) by auto
  have "evict_loop capacity es [] = Some ([(key, e)], es2)"
    using o ok(1) key r len assms(2) by (simp add: evict_loop.simps [of capacity es] evict_loop.simps [of capacity es2])
  then show thesis using that [of key e] o key ok(1) e unfolding es2_def by blast
qed

section \<open>Sweeping\<close>

fun index_size :: "DnsCacheEntries \<Rightarrow> nat" where
  "index_size (Small es) = length es"
| "index_size (Map es ds) = fcard ds"

lemma remove_expired_map_shrinks:
  "remove_expired_map now limit examined es ds removed = (removed', kept, ds') \<Longrightarrow> fcard ds' \<le> fcard ds"
proof (induction now limit examined es ds removed rule: remove_expired_map.induct)
  case (1 now limit examined es ds removed)
  note unfold = remove_expired_map.simps [of now limit examined es ds removed]
  let ?go = "case limit of None \<Rightarrow> True | Some n \<Rightarrow> examined < n"
  show ?case
  proof (cases "?go \<and> (\<exists>d key. btree_first ds = Some (d, key) \<and> d \<le> now)")
    case False
    then show ?thesis using "1.prems" unfolding unfold by (auto split: option.splits if_splits)
  next
    case True
    then obtain d key where go: ?go and f: "btree_first ds = Some (d, key)" "d \<le> now" by blast
    have less: "fcard (ds |-| {|(d, key)|}) \<le> fcard ds"
      using fcard_remove_less [OF btree_first_in [OF f(1)]] by simp
    show ?thesis
    proof (cases "fmlookup es key")
      case None
      then have "fcard ds' \<le> fcard (ds |-| {|(d, key)|})"
        using "1.IH"(1) [OF go f(1) refl f(2) refl None] "1.prems" go f unfolding unfold by (simp add: Let_def)
      with less show ?thesis by simp
    next
      case (Some e)
      then have "fcard ds' \<le> fcard (ds |-| {|(d, key)|})"
        using "1.IH"(2,3) [OF go f(1) refl f(2) refl Some] "1.prems" go f unfolding unfold
        by (cases "cache_expires_at e = d") (simp_all add: Let_def)
      with less show ?thesis by simp
    qed
  qed
qed

text \<open>A sweep that is due makes progress, whatever the index holds.\<close>

lemma sweep_progress:
  assumes "entries_next_expiry_unix es = Some deadline" "deadline \<le> now" "0 < limit"
  shows "index_size (snd (remove_expired_entries now limit es)) < index_size es"
proof (cases es)
  case (Small xs)
  obtain removed kept where r: "remove_expired_small now (Some limit) 0 xs [] = (removed, kept)" by fastforce
  from remove_expired_small_result [OF r] have res: "mset removed + mset kept = mset xs"
    "(\<forall>item \<in> set kept. \<not> expired now (snd item)) \<or> limit \<le> length removed" by auto
  from assms(1) Small have "min_by_key id (map (\<lambda>item. cache_expires_at (snd item)) xs) = Some deadline" by simp
  from min_by_key_least [OF this] have "deadline \<in> (\<lambda>item. cache_expires_at (snd item)) ` set xs" by simp
  then obtain item where item: "item \<in> set xs" "expired now (snd item)" using assms(2) by auto
  have "removed \<noteq> []"
  proof
    assume "removed = []"
    with res assms(3) item show False by (auto dest: mset_eq_setD)
  qed
  moreover have "length xs = length removed + length kept" using res(1) by (metis size_mset size_union)
  ultimately show ?thesis using Small r by simp
next
  case (Map m ds)
  with assms obtain key where f: "btree_first ds = Some (deadline, key)" by auto
  obtain removed kept ds' where r: "remove_expired_map now (Some limit) 0 m ds [] = (removed, kept, ds')" by (metis prod_cases3)
  have "\<exists>ex es1 rem. remove_expired_map now (Some limit) ex es1 (ds |-| {|(deadline, key)|}) rem = (removed, kept, ds')"
    using r f assms(2,3) unfolding remove_expired_map.simps [of now "Some limit" 0]
    by (auto simp: Let_def split: option.splits if_splits)
  then have "fcard ds' \<le> fcard (ds |-| {|(deadline, key)|})" using remove_expired_map_shrinks by blast
  also have "\<dots> < fcard ds" by (rule fcard_remove_less [OF btree_first_in [OF f]])
  finally show ?thesis using Map r by simp
qed

section \<open>The snapshot of a sweep\<close>

lemma sorted_list_first:
  assumes "btree_first S = Some x"
  shows "sorted_list_of_fset S = x # sorted_list_of_fset (S |-| {|x|})"
proof -
  obtain xs where xs: "sorted_list_of_fset S = x # xs" using assms by (cases "sorted_list_of_fset S") (auto simp: btree_first_def)
  have "sorted (x # xs)" "distinct (x # xs)" unfolding xs [symmetric] by (simp_all add: sorted_list_of_fset.rep_eq)
  moreover have "set xs = fset (S |-| {|x|})"
    using set_sorted_list_of_fset [of S] \<open>distinct (x # xs)\<close> by (auto simp: xs)
  ultimately have "xs = sorted_list_of_fset (S |-| {|x|})"
    by (intro sorted_distinct_set_unique) (simp_all add: sorted_list_of_fset.rep_eq)
  with xs show ?thesis by simp
qed

lemma map_filter_cong': "(\<And>x. x \<in> set xs \<Longrightarrow> f x = g x) \<Longrightarrow> List.map_filter f xs = List.map_filter g xs"
  by (induction xs) (auto simp: List.map_filter_simps split: option.splits)

text \<open>With a consistent index the entries a sweep removes are exactly those announced before it.\<close>

lemma expired_shared_map:
  assumes "remove_expired_map now (Some limit) examined es ds removed = (removed', kept, ds')" "ds = deadlines_of es"
  shows "removed' = removed @ expired_shared now (limit - examined) (Map es ds)"
  using assms
proof (induction "fcard ds" arbitrary: examined es ds removed rule: less_induct)
  case less
  note unfold = remove_expired_map.simps [of now "Some limit" examined es ds removed]
  show ?case
  proof (cases "examined < limit \<and> (\<exists>d key. btree_first ds = Some (d, key) \<and> d \<le> now)")
    case False
    then have "removed' = removed" using less.prems(1) unfolding unfold by (auto split: option.splits if_splits)
    moreover have "expired_shared now (limit - examined) (Map es ds) = []"
    proof (cases "examined < limit")
      case True
      with False have "takeWhile (\<lambda>(deadline, _). deadline \<le> now) (sorted_list_of_fset ds) = []"
        by (cases "sorted_list_of_fset ds") (auto simp: btree_first_def)
      then show ?thesis by (simp only: expired_shared.simps) (simp add: List.map_filter_simps)
    qed (simp add: List.map_filter_simps)
    ultimately show ?thesis by simp
  next
    case True
    then obtain d key where go: "examined < limit" and f: "btree_first ds = Some (d, key)" "d \<le> now" by blast
    from btree_first_in [OF f(1)] less.prems(2) obtain e where e: "fmlookup es key = Some e" "cache_expires_at e = d"
      by (auto simp: in_deadlines_of)
    let ?ds = "ds |-| {|(d, key)|}"
    have run: "remove_expired_map now (Some limit) (examined + 1) (fmdrop key es) ?ds (removed @ [(key, e)]) = (removed', kept, ds')"
      using less.prems(1) go f e unfolding unfold by (simp add: Let_def)
    have ds: "?ds = deadlines_of (fmdrop key es)" using less.prems(2) btree_first_in [OF f(1)] by (simp add: deadlines_drop)
    have IH: "removed' = (removed @ [(key, e)]) @ expired_shared now (limit - (examined + 1)) (Map (fmdrop key es) ?ds)"
      by (rule less.hyps [OF fcard_remove_less [OF btree_first_in [OF f(1)]] run ds])
    have same: "fmlookup es k = fmlookup (fmdrop key es) k" if "(x, k) |\<in>| ?ds" for x k
      using that by (auto simp: ds in_deadlines_of)
    have "expired_shared now (limit - examined) (Map es ds) = (key, e) # expired_shared now (limit - (examined + 1)) (Map (fmdrop key es) ?ds)"
    proof -
      obtain n where n: "limit - examined = Suc n" "limit - (examined + 1) = n" using go by (cases "limit - examined") auto
      show ?thesis
        unfolding n expired_shared.simps sorted_list_first [OF f(1)] using f(2) e
        by (auto simp: List.map_filter_simps dest!: in_set_takeD set_takeWhileD intro!: map_filter_cong' dest: same split: option.splits)
    qed
    with IH show ?thesis by simp
  qed
qed

lemma expired_shared_removed:
  assumes "remove_expired_entries now limit es = (removed, es')" "entries_ok es"
    and "small_backend es \<Longrightarrow> entries_len es \<le> limit"
  shows "set (expired_shared now limit es) = set removed"
proof (cases es)
  case (Small xs)
  with assms obtain kept where r: "remove_expired_small now (Some limit) 0 xs [] = (removed, kept)"
    by (auto split: prod.splits)
  from remove_expired_small_result [OF r] have res: "mset removed + mset kept = mset xs"
    "\<forall>item \<in> set removed. expired now (snd item)"
    "(\<forall>item \<in> set kept. \<not> expired now (snd item)) \<or> limit \<le> length removed" by auto
  have len: "length xs = length removed + length kept" "length xs \<le> limit"
    using arg_cong [OF res(1), of size] assms(3) Small by simp_all
  then have "\<forall>item \<in> set kept. \<not> expired now (snd item)" using res(3) by (cases kept) auto
  moreover have "set xs = set removed \<union> set kept" using arg_cong [OF res(1), of set_mset] by simp
  ultimately have "{item \<in> set xs. expired now (snd item)} = set removed" using res(2) by auto
  moreover have "length (filter (\<lambda>item. expired now (snd item)) xs) \<le> limit" using len(2) by (rule le_trans [OF length_filter_le])
  ultimately show ?thesis using Small by simp
next
  case (Map m ds)
  with assms obtain kept ds' where r: "remove_expired_map now (Some limit) 0 m ds [] = (removed, kept, ds')"
    by (auto split: prod.splits)
  from expired_shared_map [OF r] assms(2) Map show ?thesis by simp
qed

section \<open>Properties\<close>

text \<open>
  C0. Making room in the cache always ends, whatever the entries and the deadline index hold: a stale,
  missing or surplus index record is never chosen twice.
\<close>

theorem cache_insert_terminates:
  "insert_entry now key entry st \<noteq> None \<and> insert_with_eviction key entry callback st k \<noteq> None"
proof -
  obtain r where "evict_loop (st_capacity st) (st_entries st) [] = Some r" using evict_loop_returns by blast
  moreover have "evict_entries now st \<noteq> None"
    using evict_loop_returns by (auto simp: evict_entries_def split: prod.splits)
  ultimately show ?thesis by (simp add: insert_entry_def insert_with_eviction_def del: not_None_eq)
qed

text \<open>
  C0. Inserting an answer keeps the cache within its capacity and its index consistent, for both
  backends: the answer is found again, an answer that is replaced loses nothing else, and an answer
  that had to go was expired or expires no later than every one kept.
\<close>

theorem cache_insert_result:
  assumes "store_ok st" "0 < st_capacity st"
  shows "\<exists>st'. insert_entry now key entry st = Some st' \<and> store_ok st' \<and> st_capacity st' = st_capacity st \<and>
    entries_get key (st_entries st') = Some entry \<and>
    (\<forall>k. k \<noteq> key \<longrightarrow> (case entries_get k (st_entries st) of
         None \<Rightarrow> entries_get k (st_entries st') = None
       | Some e \<Rightarrow> entries_get k (st_entries st') = Some e \<or>
           entries_get k (st_entries st') = None \<and> entries_get key (st_entries st) = None \<and>
           (expired now e \<or> (\<forall>k' e'. k' \<noteq> key \<longrightarrow> entries_get k' (st_entries st') = Some e' \<longrightarrow>
              cache_expires_at e \<le> cache_expires_at e'))))"
proof -
  have ok: "entries_ok (st_entries st)" "entries_len (st_entries st) \<le> st_capacity st"
    "small_backend (st_entries st) \<Longrightarrow> st_capacity st \<le> DNS_CACHE_SMALL_BACKEND_MAX_ENTRIES" using assms(1) by (simp_all add: store_ok_def)
  show ?thesis
  proof (cases "entries_get key (st_entries st)")
    case (Some old)
    then have "insert_entry now key entry st = Some (st\<lparr>st_entries := entries_insert key entry (st_entries st)\<rparr>)"
      using assms(2) by (simp add: insert_entry_def contains_key_get)
    moreover have "entries_get k (entries_insert key entry (st_entries st)) = ((contents_of (st_entries st))(key \<mapsto> entry)) k" for k
      using fun_cong [OF entries_insert_get [OF ok(1)]] .
    ultimately show ?thesis using ok Some by (auto simp: store_ok_def entries_insert_ok insert_len split: option.splits)
  next
    case None
    obtain st1 where e: "evict_entries now st = Some st1"
      using evict_loop_returns by (fastforce simp: evict_entries_def split: prod.splits)
    note r = evict_entries_result [OF ok(1) e]
    have run: "insert_entry now key entry st = Some (st1\<lparr>st_entries := entries_insert key entry (st_entries st1)\<rparr>)"
      using None assms(2) e by (simp add: insert_entry_def contains_key_get)
    have g: "entries_get k (entries_insert key entry (st_entries st1)) = ((contents_of (st_entries st1))(key \<mapsto> entry)) k" for k
      using fun_cong [OF entries_insert_get [OF r(1)]] .
    have "entries_get key (st_entries st1) = None" using r(5) [of key] None by (cases "entries_get key (st_entries st1)") auto
    then have "store_ok (st1\<lparr>st_entries := entries_insert key entry (st_entries st1)\<rparr>)"
      using r(1,2) r(3) [OF assms(2)] r(4) ok(3) by (simp add: store_ok_def entries_insert_ok insert_len)
    moreover have "case entries_get k (st_entries st) of
         None \<Rightarrow> entries_get k (st_entries st1) = None
       | Some e \<Rightarrow> entries_get k (st_entries st1) = Some e \<or>
           entries_get k (st_entries st1) = None \<and>
           (expired now e \<or> (\<forall>k' e'. k' \<noteq> key \<longrightarrow> entries_get k' (st_entries st1) = Some e' \<longrightarrow>
              cache_expires_at e \<le> cache_expires_at e'))" for k
    proof (cases "entries_get k (st_entries st)")
      case None
      then show ?thesis using r(5) [of k] by (cases "entries_get k (st_entries st1)") simp_all
    next
      case (Some e)
      then show ?thesis using r(6,7) [of k e] by (auto simp: dropped_fairly_def)
    qed
    ultimately show ?thesis
      by (intro exI [of _ "st1\<lparr>st_entries := entries_insert key entry (st_entries st1)\<rparr>"])
        (simp add: run g r(2) None cong: option.case_cong)
  qed
qed

end
