(* ===== verification/Spec2Isabelle.thy ===== *)
theory Spec2Isabelle
  imports Routing_Matcher Bpf_Cgroup Plan_Correct Domain_Fence Dns_Cache_Correct
begin

text \<open>
  Verification of DaeNext, a transparent proxy for Linux: the routing data plane.
\<close>

end
